(* ===== verification/Prelude.thy ===== *)
theory Prelude
  imports Main "HOL-Library.Word" "HOL-Library.Sublist"
begin

section \<open>Shared types, outcomes and C strings\<close>

text \<open>
  What every component of the development shares: the outcome types (a value, or the
  undefined behaviour a C statement ran into), the little sequencing combinators that
  thread state through the handlers, and the part of the C library the sources use on
  strings (\<^verbatim>\<open>strchr\<close>, \<^verbatim>\<open>strncmp\<close>, \<^verbatim>\<open>atoi\<close>, \<^verbatim>\<open>sscanf\<close>, \<^verbatim>\<open>strtok\<close>, \<^verbatim>\<open>fgets\<close>,
  \<^verbatim>\<open>%d\<close> printing). A C string is the list of its characters without the terminating
  NUL; a \<^verbatim>\<open>char *\<close> that may be NULL is an \<open>option\<close>; a buffer is a list of bytes in
  which NULs are ordinary elements.
\<close>

named_theorems run_simps \<open>equations of the sequencing combinators\<close>
named_theorems cstr_simps \<open>facts on C strings\<close>

subsection \<open>Undefined behaviour and outcomes\<close>

text \<open>
  The ways in which a C statement of the sources leaves the language: a NULL pointer is
  dereferenced, memory outside an object is read or written, memory that was never
  written is read, memory is used after \<^verbatim>\<open>free\<close>, a pointer that \<^verbatim>\<open>malloc\<close> did not
  return is freed, source and destination of \<^verbatim>\<open>sprintf\<close> overlap, a number is divided by zero,
  a sum leaves the range of a signed number.
\<close>

datatype crash =
    Null_deref | Oob_read | Oob_write | Uninit_read | Use_after_free | Bad_free | Overlap | Div_by_zero
  | Signed_overflow

text \<open>A pure computation on buffers: its value, or the first undefined behaviour.\<close>

datatype 'a res = Ok 'a | Fault crash

definition rbind :: "'a res \<Rightarrow> ('a \<Rightarrow> 'b res) \<Rightarrow> 'b res" where
  "rbind m f = (case m of Ok x \<Rightarrow> f x | Fault e \<Rightarrow> Fault e)"

lemma rbind_simps [simp, run_simps]:
  "rbind (Ok x) f = f x" "rbind (Fault e) f = Fault e"
  by (simp_all add: rbind_def)

lemma rbind_cong [fundef_cong]:
  "m = m' \<Longrightarrow> (\<And>x. m' = Ok x \<Longrightarrow> f x = g x) \<Longrightarrow> rbind m f = rbind m' g"
  by (cases m') (auto simp: rbind_def)

lemma rbind_Ok_iff: "rbind m f = Ok y \<longleftrightarrow> (\<exists>x. m = Ok x \<and> f x = Ok y)"
  by (cases m) simp_all

lemma rbind_Ok_right [simp]: "rbind m Ok = m"
  by (cases m) simp_all

text \<open>
  A computation on a state: it returns a value and the new state, or it halts there by a
  crash, by \<^verbatim>\<open>exit\<close> or by a \<^verbatim>\<open>longjmp\<close> out of it; either way the state reached is kept, since
  what was written before (standard output, files) stays written.
\<close>

datatype stop = Crash crash | Exit int | Jump int

datatype ('a, 's) run = Ret 'a 's | Halt stop 's

definition sbind :: "('a, 's) run \<Rightarrow> ('a \<Rightarrow> 's \<Rightarrow> ('b, 's) run) \<Rightarrow> ('b, 's) run" where
  "sbind m f = (case m of Ret x s \<Rightarrow> f x s | Halt e s \<Rightarrow> Halt e s)"

lemma sbind_simps [simp, run_simps]:
  "sbind (Ret x s) f = f x s" "sbind (Halt e s) f = Halt e s"
  by (simp_all add: sbind_def)

lemma sbind_cong [fundef_cong]:
  "m = m' \<Longrightarrow> (\<And>x s. m' = Ret x s \<Longrightarrow> f x s = g x s) \<Longrightarrow> sbind m f = sbind m' g"
  by (cases m') (auto simp: sbind_def)

lemma sbind_Ret_iff: "sbind m f = Ret y t \<longleftrightarrow> (\<exists>x s. m = Ret x s \<and> f x s = Ret y t)"
  by (cases m) simp_all

definition lift :: "'a res \<Rightarrow> 's \<Rightarrow> ('a, 's) run" where
  "lift m s = (case m of Ok x \<Rightarrow> Ret x s | Fault e \<Rightarrow> Halt (Crash e) s)"

lemma lift_simps [simp, run_simps]:
  "lift (Ok x) s = Ret x s" "lift (Fault e) s = Halt (Crash e) s"
  by (simp_all add: lift_def)

lemma lift_Ret_iff: "lift m s = Ret y t \<longleftrightarrow> m = Ok y \<and> t = s"
  by (cases m) auto

fun state_of :: "('a, 's) run \<Rightarrow> 's" where
  "state_of (Ret x s) = s"
| "state_of (Halt e s) = s"

fun returns :: "('a, 's) run \<Rightarrow> bool" where
  "returns (Ret x s) = True"
| "returns (Halt e s) = False"

fun map_state :: "('s \<Rightarrow> 't) \<Rightarrow> ('a, 's) run \<Rightarrow> ('a, 't) run" where
  "map_state f (Ret x s) = Ret x (f s)"
| "map_state f (Halt e s) = Halt e (f s)"

lemma map_state_lift [simp]: "map_state f (lift m s) = lift m (f s)"
  by (cases m) simp_all

subsection \<open>C strings\<close>

type_synonym u32 = "32 word"
type_synonym bytes = "char list"
type_synonym cptr = "string option"

abbreviation NUL :: char where "NUL \<equiv> CHR 0x00"

definition is_cstr :: "bytes \<Rightarrow> bool" where
  "is_cstr s \<longleftrightarrow> NUL \<notin> set s"

lemma is_cstr_simps [simp, cstr_simps]:
  "is_cstr []" "is_cstr (c # s) \<longleftrightarrow> c \<noteq> NUL \<and> is_cstr s"
  "is_cstr (s @ t) \<longleftrightarrow> is_cstr s \<and> is_cstr t"
  by (auto simp: is_cstr_def)

lemma is_cstr_take [intro, simp]: "is_cstr s \<Longrightarrow> is_cstr (take n s)"
  by (auto simp: is_cstr_def dest: in_set_takeD)

lemma is_cstr_drop [intro, simp]: "is_cstr s \<Longrightarrow> is_cstr (drop n s)"
  by (auto simp: is_cstr_def dest: in_set_dropD)

text \<open>The string that starts a buffer, when the buffer holds its terminator.\<close>

definition c_string :: "bytes \<Rightarrow> string res" where
  "c_string b = (if NUL \<in> set b then Ok (takeWhile (\<lambda>c. c \<noteq> NUL) b) else Fault Oob_read)"

definition c_trunc :: "bytes \<Rightarrow> string" where
  "c_trunc b = takeWhile (\<lambda>c. c \<noteq> NUL) b"

lemma takeWhile_NUL_append [simp]: "is_cstr s \<Longrightarrow> takeWhile (\<lambda>c. c \<noteq> NUL) (s @ NUL # b) = s"
  by (induction s) auto

lemma takeWhile_NUL_id [simp]: "is_cstr s \<Longrightarrow> takeWhile (\<lambda>c. c \<noteq> NUL) s = s"
  by (induction s) auto

lemma dropWhile_NUL_append [simp]:
  "is_cstr s \<Longrightarrow> dropWhile (\<lambda>c. c \<noteq> NUL) (s @ NUL # b) = NUL # b"
  by (induction s) auto

lemma c_string_append [simp, cstr_simps]: "is_cstr s \<Longrightarrow> c_string (s @ NUL # b) = Ok s"
  by (simp add: c_string_def)

lemma c_trunc_id [simp, cstr_simps]: "is_cstr s \<Longrightarrow> c_trunc s = s"
  by (simp add: c_trunc_def)

lemma is_cstr_c_trunc [simp]: "is_cstr (c_trunc b)"
  by (auto simp: c_trunc_def is_cstr_def dest: set_takeWhileD)

text \<open>\<^verbatim>\<open>s[i]\<close> on a C string of known length: the terminator at its end.\<close>

definition char_at :: "string \<Rightarrow> nat \<Rightarrow> char" where
  "char_at s i = (if i < length s then s ! i else NUL)"

text \<open>\<^verbatim>\<open>strncmp(a, b, n) == 0\<close>, \<^verbatim>\<open>strchr\<close> (the suffix it points at).\<close>

definition strneq :: "string \<Rightarrow> string \<Rightarrow> nat \<Rightarrow> bool" where
  "strneq a b n \<longleftrightarrow> take n a = take n b"

definition strchr :: "string \<Rightarrow> char \<Rightarrow> string option" where
  "strchr s c =
     (if c = NUL then Some []
      else (case dropWhile (\<lambda>x. x \<noteq> c) s of [] \<Rightarrow> None | r \<Rightarrow> Some r))"

lemma strchr_Some_iff: "c \<noteq> NUL \<Longrightarrow> (\<exists>r. strchr s c = Some r) \<longleftrightarrow> c \<in> set s"
  by (induction s) (auto simp: strchr_def)

lemma strchr_append:
  "c \<noteq> NUL \<Longrightarrow> c \<notin> set s \<Longrightarrow> strchr (s @ c # t) c = Some (c # t)"
  by (induction s) (auto simp: strchr_def)

lemma strchr_None: "c \<noteq> NUL \<Longrightarrow> c \<notin> set s \<Longrightarrow> strchr s c = None"
  by (induction s) (auto simp: strchr_def)

text \<open>Part of a string before the character \<open>c\<close>: what \<^verbatim>\<open>*cp = 0\<close> at \<^verbatim>\<open>strchr\<close> leaves.\<close>

definition before :: "string \<Rightarrow> char \<Rightarrow> string" where
  "before s c = takeWhile (\<lambda>x. x \<noteq> c) s"

lemma before_append: "c \<notin> set s \<Longrightarrow> before (s @ c # t) c = s"
  by (induction s) (auto simp: before_def)

lemma before_id: "c \<notin> set s \<Longrightarrow> before s c = s"
  by (induction s) (auto simp: before_def)

definition isspace :: "char \<Rightarrow> bool" where
  "isspace c \<longleftrightarrow> c = CHR '' '' \<or> c = CHR 0x09 \<or> c = CHR 0x0A \<or> c = CHR 0x0B \<or> c = CHR 0x0C \<or> c = CHR 0x0D"

subsection \<open>Lines\<close>

text \<open>
  \<^verbatim>\<open>fgets(buf, n + 1, fp)\<close>: at most \<open>n\<close> characters, up to and including the first newline. The
  result is what is read and what is left.
\<close>

fun fgets :: "nat \<Rightarrow> bytes \<Rightarrow> bytes \<times> bytes" where
  "fgets 0 b = ([], b)"
| "fgets (Suc n) [] = ([], [])"
| "fgets (Suc n) (c # b) =
     (if c = CHR 0x0A then ([c], b) else (let (x, r) = fgets n b in (c # x, r)))"

lemma fgets_line:
  "fgets n b = (x, r) \<Longrightarrow>
   x @ r = b \<and> x = (if CHR 0x0A \<in> set (take n b) then before b (CHR 0x0A) @ [CHR 0x0A] else take n b)"
proof (induction n b arbitrary: x r rule: fgets.induct)
  case (3 n c b)
  show ?case
  proof (cases "c = CHR 0x0A")
    case False
    obtain y q where f: "fgets n b = (y, q)" by fastforce
    note ih = "3.IH" [OF False f]
    then have "y @ q = b" by (rule conjunct1)
    moreover from ih have
      "y = (if CHR 0x0A \<in> set (take n b) then before b (CHR 0x0A) @ [CHR 0x0A] else take n b)" by (rule conjunct2)
    moreover from "3.prems" False f have "x = c # y" "r = q" by auto
    ultimately show ?thesis using False by (simp add: before_def)
  qed (use 3 in \<open>auto simp: before_def\<close>)
qed auto

lemma fgets_length: "fgets n b = (x, r) \<Longrightarrow> length x \<le> n"
  by (induction n b arbitrary: x r rule: fgets.induct) (auto split: if_splits prod.splits)

lemma fgets_rest: "0 < n \<Longrightarrow> b \<noteq> [] \<Longrightarrow> length (snd (fgets n b)) < length b"
proof -
  assume "0 < n" "b \<noteq> []"
  obtain x r where f: "fgets n b = (x, r)" by fastforce
  from \<open>0 < n\<close> \<open>b \<noteq> []\<close> f have "x \<noteq> []"
    by (cases n; cases b) (auto split: if_splits prod.splits)
  with fgets_line [OF f] f show ?thesis by (metis length_append length_greater_0_conv less_add_same_cancel2 snd_conv)
qed

subsection \<open>Numbers in strings\<close>

definition isdigit :: "char \<Rightarrow> bool" where
  "isdigit c \<longleftrightarrow> 48 \<le> (of_char c :: nat) \<and> (of_char c :: nat) \<le> 57"

definition digit_value :: "char \<Rightarrow> int" where
  "digit_value c = int (of_char c) - 48"

fun digits_value :: "string \<Rightarrow> int \<Rightarrow> int" where
  "digits_value [] acc = acc"
| "digits_value (c # s) acc = digits_value s (10 * acc + digit_value c)"

text \<open>
  \<^verbatim>\<open>strtol\<close> in base 10, which \<^verbatim>\<open>atoi\<close> and \<^verbatim>\<open>%d\<close> use: leading white space, a sign, digits; a
  value outside \<^verbatim>\<open>long\<close> (32 bits on the router's MIPS) is saturated. The result is
  \<open>None\<close> when there is no digit.
\<close>

definition clamp32 :: "int \<Rightarrow> int" where
  "clamp32 v = max (- 2147483648) (min 2147483647 v)"

definition strtol10 :: "string \<Rightarrow> int option" where
  "strtol10 s =
     (let t = dropWhile isspace s;
          neg = (t \<noteq> [] \<and> hd t = CHR ''-'');
          u = (if t \<noteq> [] \<and> (hd t = CHR ''-'' \<or> hd t = CHR ''+'') then tl t else t);
          d = takeWhile isdigit u
      in if d = [] then None
         else Some (clamp32 (if neg then - digits_value d 0 else digits_value d 0)))"

definition atoi :: "string \<Rightarrow> int" where
  "atoi s = (case strtol10 s of None \<Rightarrow> 0 | Some v \<Rightarrow> v)"

definition digit_char :: "nat \<Rightarrow> char" where
  "digit_char d = char_of (48 + d)"

fun show_nat :: "nat \<Rightarrow> string" where
  "show_nat n = (if n < 10 then [digit_char n] else show_nat (n div 10) @ [digit_char (n mod 10)])"

declare show_nat.simps [simp del]

text \<open>\<^verbatim>\<open>sprintf("%d")\<close>.\<close>

definition show_int :: "int \<Rightarrow> string" where
  "show_int i = (if i < 0 then CHR ''-'' # show_nat (nat (- i)) else show_nat (nat i))"

lemma of_char_digit_char [simp]: "d < 10 \<Longrightarrow> (of_char (digit_char d) :: nat) = 48 + d"
  by (simp add: digit_char_def)

lemma isdigit_digit_char [simp]: "d < 10 \<Longrightarrow> isdigit (digit_char d)"
  by (simp add: isdigit_def)

lemma digit_value_digit_char [simp]: "d < 10 \<Longrightarrow> digit_value (digit_char d) = int d"
  by (simp add: digit_value_def)

lemma digits_value_append: "digits_value (s @ t) acc = digits_value t (digits_value s acc)"
  by (induction s arbitrary: acc) simp_all

lemma show_nat_digits: "list_all isdigit (show_nat n)"
proof (induction n rule: show_nat.induct)
  case (1 n)
  then show ?case by (simp add: show_nat.simps [of n])
qed

lemma show_nat_nonempty [simp]: "show_nat n \<noteq> []"
  by (subst show_nat.simps) simp

lemma show_nat_value: "digits_value (show_nat n) 0 = int n"
proof (induction n rule: show_nat.induct)
  case (1 n)
  have "10 * int (n div 10) + int (n mod 10) = int n"
    by (metis mult_div_mod_eq of_nat_add of_nat_mult of_nat_numeral)
  with 1 show ?case
    by (cases "n < 10") (simp_all add: show_nat.simps [of n] digits_value_append)
qed

lemma takeWhile_all: "list_all P s \<Longrightarrow> takeWhile P s = s"
  by (induction s) auto

lemma isdigit_not_space: "isdigit c \<Longrightarrow> \<not> isspace c \<and> c \<noteq> CHR ''-'' \<and> c \<noteq> CHR ''+'' \<and> c \<noteq> NUL"
  by (auto simp: isdigit_def isspace_def)

text \<open>Reading back a printed 32-bit integer gives it again.\<close>

lemma strtol10_show_nat: "int n \<le> 2147483647 \<Longrightarrow> strtol10 (show_nat n) = Some (int n)"
proof -
  assume n: "int n \<le> 2147483647"
  obtain c s where cs: "show_nat n = c # s" by (cases "show_nat n") auto
  with show_nat_digits [of n] have "isdigit c" by simp
  then have "\<not> isspace c" "c \<noteq> CHR ''-''" "c \<noteq> CHR ''+''" using isdigit_not_space by auto
  with cs show ?thesis
    using n show_nat_value [of n] takeWhile_all [OF show_nat_digits, of n]
    by (simp add: strtol10_def Let_def clamp32_def)
qed

lemma atoi_show_int: "- 2147483648 \<le> i \<Longrightarrow> i \<le> 2147483647 \<Longrightarrow> atoi (show_int i) = i"
proof (cases "i < 0")
  case True
  assume b: "- 2147483648 \<le> i"
  have "takeWhile isdigit (show_nat (nat (- i))) = show_nat (nat (- i))"
    by (rule takeWhile_all [OF show_nat_digits])
  with True b show ?thesis
    by (simp del: takeWhile_eq_all_conv
        add: atoi_def show_int_def strtol10_def Let_def isspace_def show_nat_value clamp32_def)
next
  case False
  assume "i \<le> 2147483647"
  with False show ?thesis by (simp add: atoi_def show_int_def strtol10_show_nat)
qed

lemma is_cstr_show_nat [simp]: "is_cstr (show_nat n)"
  using show_nat_digits [of n] isdigit_not_space by (auto simp: is_cstr_def list_all_iff)

lemma is_cstr_show_int [simp]: "is_cstr (show_int i)"
  by (simp add: show_int_def)

subsection \<open>Lists\<close>

text \<open>The first index below the length at which \<open>P\<close> holds; the shape of every search loop.\<close>

fun first_index :: "('a \<Rightarrow> bool) \<Rightarrow> 'a list \<Rightarrow> nat option" where
  "first_index P [] = None"
| "first_index P (x # xs) = (if P x then Some 0 else map_option Suc (first_index P xs))"

lemma first_index_None_iff: "first_index P xs = None \<longleftrightarrow> (\<forall>x\<in>set xs. \<not> P x)"
  by (induction xs) auto

lemma first_index_SomeD:
  "first_index P xs = Some i \<Longrightarrow> i < length xs \<and> P (xs ! i) \<and> (\<forall>j<i. \<not> P (xs ! j))"
proof (induction xs arbitrary: i)
  case (Cons x xs)
  then show ?case by (cases i) (auto split: if_splits simp: nth_Cons' less_Suc_eq_0_disj)
qed simp

lemma first_index_find: "(case first_index P xs of None \<Rightarrow> None | Some i \<Rightarrow> Some (xs ! i)) = find P xs"
  by (induction xs) (auto split: option.splits)

lemma first_index_append:
  "first_index P (xs @ ys) =
     (case first_index P xs of Some i \<Rightarrow> Some i
      | None \<Rightarrow> map_option (\<lambda>i. i + length xs) (first_index P ys))"
  by (induction xs) (auto split: option.splits simp: option.map_comp comp_def option.map_ident)

end
