(* ===== verification/Nvram_Lock.thy ===== *)
theory Nvram_Lock
  imports Prelude
begin

section \<open>The state of the NVRAM library and its lock files\<close>

text \<open>
  The process state that \<^verbatim>\<open>nvram-lib\<close> works on, and \<^verbatim>\<open>nvram_lock.c\<close>: the name of the lock
  file of a store, taking the lock and releasing it. What several processes do to each
  other through these locks is in the theory \<open>Nvram_Concurrency\<close>.
\<close>

subsection \<open>State\<close>

record nv_entry =
  ne_name :: string
  ne_value :: string
  ne_path :: string

text \<open>
  \<open>files\<close> holds the contents of the files the library opens (the store in \<^verbatim>\<open>/tmp\<close>, the
  defaults, the flash device). \<open>can_read\<close>, \<open>can_write\<close> and \<open>can_lock\<close> say which \<^verbatim>\<open>open\<close>
  calls the operating system lets through, \<open>can_alloc n\<close> whether \<^verbatim>\<open>malloc(n)\<close> returns
  memory. \<open>header_junk\<close> are the four bytes of the header's \<^verbatim>\<open>reserved\<close> field, which the code
  never sets; \<open>flash_put b\<close> is what the flash holds after a \<^verbatim>\<open>write\<close> of \<open>b\<close> (\<open>b\<close> itself on a
  healthy device). \<open>nv_list\<close> is the static list of the values handed out, \<open>held\<close> the lock files
  this process has locked, \<open>cwmp_signals\<close> counts the \<^verbatim>\<open>killall -USR2 cwmp\<close> notifications.
\<close>

record nvram =
  files :: "string \<Rightarrow> bytes option"
  can_read :: "string \<Rightarrow> bool"
  can_write :: "string \<Rightarrow> bool"
  can_lock :: "string \<Rightarrow> bool"
  can_alloc :: "nat \<Rightarrow> bool"
  header_junk :: bytes
  flash_put :: "bytes \<Rightarrow> bytes"
  nv_list :: "nv_entry list"
  held :: "string list"
  cwmp_signals :: nat

subsection \<open>Lock files\<close>

definition PATH_MAX :: nat where "PATH_MAX = 4096"

text \<open>
  \<^verbatim>\<open>sprintf(lock_path, "/var/lock/%s.lock", path)\<close>, then every slash from position
  \<^verbatim>\<open>sizeof("/var/lock/")\<close> = 11 on becomes an underscore.
\<close>

definition lock_path :: "string \<Rightarrow> string" where
  "lock_path path =
     (let p = ''/var/lock/'' @ path @ ''.lock''
      in take 11 p @ map (\<lambda>c. if c = CHR ''/'' then CHR ''_'' else c) (drop 11 p))"

text \<open>
  A descriptor is \<open>Some\<close> of the lock file it is open on; \<open>None\<close> is the return value -1.
  The lock is a POSIX record lock: the process already holding it gets it again.
\<close>

definition nvram_lock :: "string \<Rightarrow> 'z nvram_scheme \<Rightarrow> (string option, 'z nvram_scheme) run" where
  "nvram_lock path s =
     (if PATH_MAX < length path + 16 then Halt (Crash Oob_write) s
      else if \<not> can_lock s (lock_path path) then Ret None s
      else Ret (Some (lock_path path)) (s\<lparr>held := lock_path path # held s\<rparr>))"

text \<open>Releasing drops every lock of the process on that file, as \<^verbatim>\<open>close\<close> does.\<close>

definition nvram_unlock :: "string option \<Rightarrow> 'z nvram_scheme \<Rightarrow> (unit, 'z nvram_scheme) run" where
  "nvram_unlock fd s =
     (case fd of None \<Rightarrow> Ret () s
      | Some p \<Rightarrow> Ret () (s\<lparr>held := filter (\<lambda>q. q \<noteq> p) (held s)\<rparr>))"

text \<open>The bracket \<^verbatim>\<open>lock = nvram_lock(path); r = ...; nvram_unlock(lock);\<close> of the wrappers.\<close>

definition with_lock ::
  "string \<Rightarrow> ('z nvram_scheme \<Rightarrow> ('a, 'z nvram_scheme) run) \<Rightarrow> 'z nvram_scheme \<Rightarrow> ('a, 'z nvram_scheme) run" where
  "with_lock path m s =
     sbind (nvram_lock path s) (\<lambda>lock s.
     sbind (m s) (\<lambda>r s.
     sbind (nvram_unlock lock s) (\<lambda>_ s. Ret r s)))"

text \<open>Paths the lock code can handle.\<close>

definition short_path :: "string \<Rightarrow> bool" where
  "short_path p \<longleftrightarrow> length p + 16 \<le> PATH_MAX"

lemma nvram_lock_Ret:
  "short_path p \<Longrightarrow>
   nvram_lock p s = (if can_lock s (lock_path p)
                     then Ret (Some (lock_path p)) (s\<lparr>held := lock_path p # held s\<rparr>)
                     else Ret None s)"
  by (simp add: nvram_lock_def short_path_def)

lemma nvram_unlock_None [simp]: "nvram_unlock None s = Ret () s"
  by (simp add: nvram_unlock_def)

lemma nvram_unlock_Some [simp]:
  "nvram_unlock (Some p) s = Ret () (s\<lparr>held := filter (\<lambda>q. q \<noteq> p) (held s)\<rparr>)"
  by (simp add: nvram_unlock_def)

text \<open>
  The bracket adds nothing to what its body does but to the list of locks, when the body
  does not look at that list.
\<close>

lemma with_lock_Ret:
  assumes sp: "short_path p"
    and m: "\<And>h. m (s\<lparr>held := h\<rparr>) = Ret x (t\<lparr>held := h\<rparr>)"
  shows "with_lock p m s =
    Ret x (t\<lparr>held := if can_lock s (lock_path p) then filter (\<lambda>q. q \<noteq> lock_path p) (held s)
                     else held s\<rparr>)"
proof (cases "can_lock s (lock_path p)")
  case True
  with sp m [of "lock_path p # held s"] show ?thesis
    by (simp add: with_lock_def nvram_lock_Ret)
next
  case False
  with sp m [of "held s"] show ?thesis
    by (simp add: with_lock_def nvram_lock_Ret)
qed

lemma with_lock_Halt:
  assumes sp: "short_path p"
    and m: "\<And>h. m (s\<lparr>held := h\<rparr>) = Halt e (t\<lparr>held := h\<rparr>)"
  shows "\<exists>h. with_lock p m s = Halt e (t\<lparr>held := h\<rparr>)"
proof (cases "can_lock s (lock_path p)")
  case True
  with sp m [of "lock_path p # held s"] show ?thesis
    by (auto simp: with_lock_def nvram_lock_Ret)
next
  case False
  with sp m [of "held s"] show ?thesis
    by (auto simp: with_lock_def nvram_lock_Ret)
qed

text \<open>Distinct stores have distinct lock files as long as their names hold no underscore.\<close>

lemma lock_path_split:
  "lock_path (c # p) =
     ''/var/lock/'' @ [c] @ map (\<lambda>c. if c = CHR ''/'' then CHR ''_'' else c) p @ ''.lock''"
  by (simp add: lock_path_def Let_def)

lemma slash_map_inj:
  "CHR ''_'' \<notin> set p \<Longrightarrow> CHR ''_'' \<notin> set q \<Longrightarrow>
   map (\<lambda>c. if c = CHR ''/'' then CHR ''_'' else c) p = map (\<lambda>c. if c = CHR ''/'' then CHR ''_'' else c) q \<Longrightarrow>
   p = q"
proof (induction p arbitrary: q)
  case (Cons c p)
  then obtain d r where q: "q = d # r" by (cases q) auto
  with Cons.prems have "c = d" by (auto split: if_splits)
  with Cons q show ?case by auto
qed simp

end
