(* ===== verification/Key_Value.thy ===== *)
theory Key_Value
  imports Prelude
begin

section \<open>Interfaces: key/value stores and growable arrays\<close>

text \<open>
  Contracts that several components keep. \<open>kv_store\<close> is what a client may rely on when a
  component stores values under names: the NVRAM image, an array of variable/value pairs
  and the variables of a request all provide it. \<open>kv_store_del\<close> adds deletion.
  \<open>growable\<close> is an array that is extended in place by \<^verbatim>\<open>realloc\<close> when it is full and is
  otherwise a list with \<open>append\<close>.
\<close>

locale kv_store =
  fixes invar :: "'st \<Rightarrow> bool"
    and okk :: "'k \<Rightarrow> bool"
    and okv :: "'v \<Rightarrow> bool"
    and lookup :: "'st \<Rightarrow> 'k \<Rightarrow> 'v option"
    and update :: "'k \<Rightarrow> 'v \<Rightarrow> 'st \<Rightarrow> 'st"
  assumes invar_update: "invar s \<Longrightarrow> okk k \<Longrightarrow> okv v \<Longrightarrow> invar (update k v s)"
    and lookup_update: "invar s \<Longrightarrow> okk k \<Longrightarrow> okv v \<Longrightarrow> okk k' \<Longrightarrow>
      lookup (update k v s) k' = (if k' = k then Some v else lookup s k')"
begin

fun updates :: "('k \<times> 'v) list \<Rightarrow> 'st \<Rightarrow> 'st" where
  "updates [] s = s"
| "updates ((k, v) # ps) s = updates ps (update k v s)"

lemma invar_updates:
  "invar s \<Longrightarrow> (\<And>k v. (k, v) \<in> set ps \<Longrightarrow> okk k \<and> okv v) \<Longrightarrow> invar (updates ps s)"
proof (induction ps s rule: updates.induct)
  case (2 k v ps s)
  then have "invar (update k v s)" by (auto intro: invar_update)
  with 2 show ?case by auto
qed simp

text \<open>After a sequence of updates a key holds the last value stored under it.\<close>

lemma lookup_updates:
  "invar s \<Longrightarrow> (\<And>k v. (k, v) \<in> set ps \<Longrightarrow> okk k \<and> okv v) \<Longrightarrow> okk k' \<Longrightarrow>
   lookup (updates ps s) k' = (case map_of (rev ps) k' of Some v \<Rightarrow> Some v | None \<Rightarrow> lookup s k')"
proof (induction ps s rule: updates.induct)
  case (2 k v ps s)
  from 2 have "invar (update k v s)" by (auto intro: invar_update)
  with 2 have "lookup (updates ps (update k v s)) k' =
      (case map_of (rev ps) k' of Some v \<Rightarrow> Some v | None \<Rightarrow> lookup (update k v s) k')"
    by auto
  moreover from 2 have "lookup (update k v s) k' = (if k' = k then Some v else lookup s k')"
    by (intro lookup_update) auto
  ultimately show ?case
    by (auto split: option.splits simp: map_add_def)
qed simp

lemma update_same_lookup:
  "invar s \<Longrightarrow> okk k \<Longrightarrow> okv v \<Longrightarrow> okv w \<Longrightarrow> okk k' \<Longrightarrow>
   lookup (update k w (update k v s)) k' = lookup (update k w s) k'"
  by (simp add: lookup_update invar_update)

lemma update_commute_lookup:
  "invar s \<Longrightarrow> okk k \<Longrightarrow> okk l \<Longrightarrow> okv v \<Longrightarrow> okv w \<Longrightarrow> okk k' \<Longrightarrow> k \<noteq> l \<Longrightarrow>
   lookup (update k v (update l w s)) k' = lookup (update l w (update k v s)) k'"
  by (simp add: lookup_update invar_update)

end

locale kv_store_del = kv_store invar okk okv lookup update
  for invar :: "'st \<Rightarrow> bool"
    and okk :: "'k \<Rightarrow> bool"
    and okv :: "'v \<Rightarrow> bool"
    and lookup :: "'st \<Rightarrow> 'k \<Rightarrow> 'v option"
    and update :: "'k \<Rightarrow> 'v \<Rightarrow> 'st \<Rightarrow> 'st" +
  fixes delete :: "'k \<Rightarrow> 'st \<Rightarrow> 'st"
  assumes invar_delete: "invar s \<Longrightarrow> okk k \<Longrightarrow> invar (delete k s)"
    and lookup_delete: "invar s \<Longrightarrow> okk k \<Longrightarrow> okk k' \<Longrightarrow>
      lookup (delete k s) k' = (if k' = k then None else lookup s k')"
begin

lemma delete_update_lookup:
  "invar s \<Longrightarrow> okk k \<Longrightarrow> okv v \<Longrightarrow> okk k' \<Longrightarrow>
   lookup (delete k (update k v s)) k' = lookup (delete k s) k'"
  by (simp add: lookup_update lookup_delete invar_update)

end

text \<open>
  An array with a fill count and a capacity: \<open>add\<close> is the operation of the code, \<open>used\<close> and
  \<open>avail\<close> its two counters, \<open>elems\<close> the list it stands for. The law \<open>add_slot\<close> is the one
  the \<^verbatim>\<open>realloc\<close> is there for: the element that is written has a slot.
\<close>

locale growable =
  fixes invar :: "'arr \<Rightarrow> bool"
    and used :: "'arr \<Rightarrow> nat"
    and avail :: "'arr \<Rightarrow> nat"
    and elems :: "'arr \<Rightarrow> 'e list"
    and add :: "'e \<Rightarrow> 'arr \<Rightarrow> 'arr"
  assumes invar_add: "invar a \<Longrightarrow> invar (add x a)"
    and elems_add: "invar a \<Longrightarrow> elems (add x a) = elems a @ [x]"
    and used_elems: "invar a \<Longrightarrow> used a = length (elems a)"
    and used_avail: "invar a \<Longrightarrow> used a \<le> avail a"
    and add_slot: "invar a \<Longrightarrow> used a < avail (add x a)"
    and avail_mono: "invar a \<Longrightarrow> avail a \<le> avail (add x a)"
    and avail_bound: "invar a \<Longrightarrow> avail a \<le> used a + 10"
begin

lemma invar_adds: "invar a \<Longrightarrow> invar (fold add xs a)"
  by (induction xs arbitrary: a) (auto intro: invar_add)

lemma elems_adds: "invar a \<Longrightarrow> elems (fold add xs a) = elems a @ xs"
  by (induction xs arbitrary: a) (simp_all add: elems_add invar_add)

text \<open>The memory in use stays within ten slots of what is needed.\<close>

lemma avail_adds: "invar a \<Longrightarrow> avail (fold add xs a) \<le> used a + length xs + 10"
proof -
  assume a: "invar a"
  let ?b = "fold add xs a"
  have b: "invar ?b" by (rule invar_adds [OF a])
  have "avail ?b \<le> used ?b + 10" by (rule avail_bound [OF b])
  also have "used ?b = used a + length xs"
    using a b by (simp add: used_elems elems_adds)
  finally show ?thesis by simp
qed

end

end
