(* ===== verification/Nvram_Store.thy ===== *)
theory Nvram_Store
  imports Nvram_Lock Key_Value
begin

section \<open>The NVRAM store: names and values in a file\<close>

text \<open>
  \<^verbatim>\<open>nvram.c\<close> up to the flash: the list of values handed out, reading and writing whole
  files, and the get, set and unset operations on the image of a store, a sequence of
  \<^verbatim>\<open>name=value\<close> strings each ended by a NUL and the whole ended by one more.
\<close>

subsection \<open>The list of values handed out\<close>

definition BASE_PATH :: string where "BASE_PATH = ''/tmp/nv/''"
definition BASE_PATH_LEN :: nat where "BASE_PATH_LEN = 8"

definition find_nv_entry :: "string \<Rightarrow> string \<Rightarrow> nv_entry list \<Rightarrow> nat option" where
  "find_nv_entry name path l = first_index (\<lambda>p. ne_name p = name \<and> ne_path p = path) l"

definition add_nv_entry ::
  "string \<Rightarrow> string \<Rightarrow> string \<Rightarrow> 'z nvram_scheme \<Rightarrow> (int, 'z nvram_scheme) run" where
  "add_nv_entry name val path s =
     (case find_nv_entry name path (nv_list s) of
        Some i \<Rightarrow> Ret 0 (s\<lparr>nv_list := (nv_list s)[i := (nv_list s ! i)\<lparr>ne_value := val\<rparr>]\<rparr>)
      | None \<Rightarrow>
          if \<not> can_alloc s 16 then Ret (- 1) s
          else if \<not> can_alloc s (length name + 1) then Ret (- 1) s
          else if \<not> can_alloc s (length path + 1) then Ret (- 1) s
          else Ret 0 (s\<lparr>nv_list := \<lparr>ne_name = name, ne_value = val, ne_path = path\<rparr> # nv_list s\<rparr>))"

subsection \<open>Whole files\<close>

text \<open>\<open>None\<close> is the return value -1, \<open>Some data\<close> the length and the contents.\<close>

definition readFileBin_unlock :: "string \<Rightarrow> 'z nvram_scheme \<Rightarrow> bytes option" where
  "readFileBin_unlock path s =
     (case files s path of
        None \<Rightarrow> None
      | Some data \<Rightarrow>
          if \<not> can_read s path then None
          else if \<not> can_alloc s (length data) then None
          else Some data)"

definition readFileBin :: "string \<Rightarrow> 'z nvram_scheme \<Rightarrow> (bytes option, 'z nvram_scheme) run" where
  "readFileBin path = with_lock path (\<lambda>s. Ret (readFileBin_unlock path s) s)"

definition writeFileBin_unlock :: "string \<Rightarrow> bytes \<Rightarrow> 'z nvram_scheme \<Rightarrow> 'z nvram_scheme" where
  "writeFileBin_unlock path data s =
     (if can_write s path then s\<lparr>files := (files s)(path \<mapsto> data)\<rparr> else s)"

definition writeFileBin :: "string \<Rightarrow> bytes \<Rightarrow> 'z nvram_scheme \<Rightarrow> (unit, 'z nvram_scheme) run" where
  "writeFileBin path data = with_lock path (\<lambda>s. Ret () (writeFileBin_unlock path data s))"

subsection \<open>Scanning an image\<close>

text \<open>\<^verbatim>\<open>!strncmp(s, name, strlen(name)) && *(s+strlen(name))=='='\<close>\<close>

definition nv_match :: "string \<Rightarrow> string \<Rightarrow> bool" where
  "nv_match e name \<longleftrightarrow> strneq e name (length name) \<and> char_at e (length name) = CHR ''=''"

text \<open>
  The three loops \<^verbatim>\<open>for (s = bufspace; *s; s++)\<close>. The argument is the rest of the buffer at
  \<^verbatim>\<open>s\<close>; running off its end is an out-of-bounds read. Each turn consumes one string and its
  terminator.
\<close>

function nv_find :: "string \<Rightarrow> bytes \<Rightarrow> string option res" where
  "nv_find name buf =
     (case buf of
        [] \<Rightarrow> Fault Oob_read
      | c # _ \<Rightarrow>
          if c = NUL then Ok None
          else rbind (c_string buf) (\<lambda>e.
            if nv_match e name then Ok (Some (drop (length name + 1) e))
            else nv_find name (drop (length e + 1) buf)))"
  by pat_completeness auto
termination by (relation "measure (\<lambda>(n, b). length b)") auto

text \<open>The result pairs \<^verbatim>\<open>found\<close> with what the loop wrote to \<^verbatim>\<open>targetspace\<close>.\<close>

function nv_set_scan :: "string \<Rightarrow> string \<Rightarrow> bytes \<Rightarrow> (bool \<times> bytes) res" where
  "nv_set_scan name val buf =
     (case buf of
        [] \<Rightarrow> Fault Oob_read
      | c # _ \<Rightarrow>
          if c = NUL then Ok (False, [])
          else rbind (c_string buf) (\<lambda>e.
            rbind (nv_set_scan name val (drop (length e + 1) buf)) (\<lambda>(found, out).
              if nv_match e name then Ok (True, name @ ''='' @ val @ [NUL] @ out)
              else Ok (found, e @ [NUL] @ out))))"
  by pat_completeness auto
termination by (relation "measure (\<lambda>(n, v, b). length b)") auto

function nv_unset_scan :: "string \<Rightarrow> bytes \<Rightarrow> (bool \<times> bytes) res" where
  "nv_unset_scan name buf =
     (case buf of
        [] \<Rightarrow> Fault Oob_read
      | c # _ \<Rightarrow>
          if c = NUL then Ok (False, [])
          else rbind (c_string buf) (\<lambda>e.
            rbind (nv_unset_scan name (drop (length e + 1) buf)) (\<lambda>(found, out).
              if nv_match e name then Ok (True, out)
              else Ok (found, e @ [NUL] @ out))))"
  by pat_completeness auto
termination by (relation "measure (\<lambda>(n, b). length b)") auto

declare nv_find.simps [simp del] nv_set_scan.simps [simp del] nv_unset_scan.simps [simp del]

subsection \<open>Get, set and unset on one file\<close>

text \<open>
  The pointer that is returned is the one stored in \<open>nv_list\<close>; when that list cannot take
  it, \<^verbatim>\<open>add_nv_entry\<close> has freed it and every caller goes on to read freed memory.
\<close>

definition nvram_get_func_unlock ::
  "string \<Rightarrow> string \<Rightarrow> 'z nvram_scheme \<Rightarrow> (cptr, 'z nvram_scheme) run" where
  "nvram_get_func_unlock name path s =
     (case readFileBin_unlock path s of
        None \<Rightarrow> Ret None s
      | Some buf \<Rightarrow>
          sbind (lift (nv_find name buf) s) (\<lambda>r s.
            case r of
              None \<Rightarrow> Ret None s
            | Some v \<Rightarrow>
                if \<not> can_alloc s (length v + 1) then Halt (Crash Null_deref) s
                else if length path < BASE_PATH_LEN then Halt (Crash Oob_read) s
                else sbind (add_nv_entry name v (drop BASE_PATH_LEN path) s) (\<lambda>rc s.
                  if rc = 0 then Ret (Some v) s else Halt (Crash Use_after_free) s)))"

definition nvram_get_func :: "string \<Rightarrow> string \<Rightarrow> 'z nvram_scheme \<Rightarrow> (cptr, 'z nvram_scheme) run" where
  "nvram_get_func name path = with_lock path (nvram_get_func_unlock name path)"

definition nvram_unset_func_unlock ::
  "string \<Rightarrow> string \<Rightarrow> 'z nvram_scheme \<Rightarrow> (int, 'z nvram_scheme) run" where
  "nvram_unset_func_unlock name path s =
     (case readFileBin_unlock path s of
        None \<Rightarrow> Ret 0 s
      | Some buf \<Rightarrow>
          if buf = [] then Ret 0 s
          else if \<not> can_alloc s (length buf) then Halt (Crash Null_deref) s
          else sbind (lift (nv_unset_scan name buf) s) (\<lambda>(found, out) s.
            if \<not> found then Ret 0 s
            else if length buf < length out + 1 then Halt (Crash Oob_write) s
            else Ret 0 (writeFileBin_unlock path (out @ [NUL]) s)))"

definition nvram_unset_func :: "string \<Rightarrow> string \<Rightarrow> 'z nvram_scheme \<Rightarrow> (int, 'z nvram_scheme) run" where
  "nvram_unset_func name path = with_lock path (nvram_unset_func_unlock name path)"

text \<open>
  \<^verbatim>\<open>targetspace\<close> has room for \<^verbatim>\<open>size+strlen(name)+strlen(value)+2\<close> bytes, or without the
  first term when the file could not be read or is empty; \<open>strlen\<close> of a NULL value faults.
\<close>

definition nvram_set_func_unlock ::
  "string \<Rightarrow> cptr \<Rightarrow> string \<Rightarrow> 'z nvram_scheme \<Rightarrow> (int, 'z nvram_scheme) run" where
  "nvram_set_func_unlock name valp path s =
     (case valp of None \<Rightarrow> Halt (Crash Null_deref) s
      | Some val \<Rightarrow>
          let buf = (case readFileBin_unlock path s of None \<Rightarrow> [] | Some b \<Rightarrow> b);
              room = length buf + length name + length val + 2
          in if \<not> can_alloc s room then Halt (Crash Null_deref) s
             else sbind (lift (if buf = [] then Ok (False, []) else nv_set_scan name val buf) s)
               (\<lambda>(found, out) s.
                 let out' = (if found then out else out @ name @ ''='' @ val @ [NUL]) @ [NUL]
                 in if room < length out' then Halt (Crash Oob_write) s
                    else Ret 0 (writeFileBin_unlock path out' s)))"

definition nvram_set_func ::
  "string \<Rightarrow> cptr \<Rightarrow> string \<Rightarrow> 'z nvram_scheme \<Rightarrow> (int, 'z nvram_scheme) run" where
  "nvram_set_func name valp path = with_lock path (nvram_set_func_unlock name valp path)"

subsection \<open>The public operations\<close>

definition NVRAM_TMP_PATH :: string where "NVRAM_TMP_PATH = ''/tmp/nvram''"
definition NVRAM_BCM_PATH :: string where "NVRAM_BCM_PATH = ''/tmp/nvram.bcm''"
definition NVRAM_DEFAULT :: string where "NVRAM_DEFAULT = ''/etc/default''"
definition NVRAM_PATH :: string where "NVRAM_PATH = ''/dev/mtdblock14''"

definition nvram_set :: "string \<Rightarrow> cptr \<Rightarrow> 'z nvram_scheme \<Rightarrow> (int, 'z nvram_scheme) run" where
  "nvram_set name valp = nvram_set_func name valp NVRAM_TMP_PATH"

definition nvram_bcm_set :: "string \<Rightarrow> cptr \<Rightarrow> 'z nvram_scheme \<Rightarrow> (int, 'z nvram_scheme) run" where
  "nvram_bcm_set name valp = nvram_set_func name valp NVRAM_BCM_PATH"

definition nvram_bcm_unset :: "string \<Rightarrow> 'z nvram_scheme \<Rightarrow> (int, 'z nvram_scheme) run" where
  "nvram_bcm_unset name = nvram_unset_func name NVRAM_BCM_PATH"

text \<open>A value that starts with \<^verbatim>\<open>*DEL*\<close> stands for a deleted variable.\<close>

definition is_deleted :: "string \<Rightarrow> bool" where
  "is_deleted v \<longleftrightarrow> strneq v ''*DEL*'' 5"

definition hide_deleted :: "string \<Rightarrow> cptr" where
  "hide_deleted v = (if is_deleted v then None else Some v)"

definition nvram_get :: "string \<Rightarrow> 'z nvram_scheme \<Rightarrow> (cptr, 'z nvram_scheme) run" where
  "nvram_get name s =
     sbind (nvram_get_func name NVRAM_TMP_PATH s) (\<lambda>pt s.
       case pt of
         Some v \<Rightarrow> Ret (hide_deleted v) s
       | None \<Rightarrow>
           sbind (nvram_get_func name NVRAM_DEFAULT s) (\<lambda>pt s.
             case pt of
               None \<Rightarrow> Ret None s
             | Some v \<Rightarrow> sbind (nvram_set name (Some v) s) (\<lambda>_ s. Ret (hide_deleted v) s)))"

definition nvram_match :: "string \<Rightarrow> string \<Rightarrow> 'z nvram_scheme \<Rightarrow> (bool, 'z nvram_scheme) run" where
  "nvram_match name m s =
     sbind (nvram_get name s) (\<lambda>v s. Ret (case v of None \<Rightarrow> False | Some x \<Rightarrow> x = m) s)"

definition nvram_invmatch :: "string \<Rightarrow> string \<Rightarrow> 'z nvram_scheme \<Rightarrow> (bool, 'z nvram_scheme) run" where
  "nvram_invmatch name m s =
     sbind (nvram_get name s) (\<lambda>v s. Ret (case v of None \<Rightarrow> False | Some x \<Rightarrow> x \<noteq> m) s)"

text \<open>\<^verbatim>\<open>snprintf(buf, 256, "%s%d", key, idx)\<close> and \<^verbatim>\<open>snprintf(path, 256, "%s%s", ...)\<close>.\<close>

definition nv_name :: "string \<Rightarrow> int \<Rightarrow> string" where
  "nv_name key idx = take 255 (key @ show_int idx)"

definition nv_path :: "string \<Rightarrow> string" where
  "nv_path category = take 255 (BASE_PATH @ category)"

definition nv_set ::
  "string \<Rightarrow> string \<Rightarrow> int \<Rightarrow> cptr \<Rightarrow> 'z nvram_scheme \<Rightarrow> (int, 'z nvram_scheme) run" where
  "nv_set category key idx valp = nvram_set_func (nv_name key idx) valp (nv_path category)"

text \<open>\<^verbatim>\<open>vsnprintf\<close> of the caller's format and arguments is the parameter \<open>formatted\<close>.\<close>

definition nv_setFX ::
  "string \<Rightarrow> string \<Rightarrow> int \<Rightarrow> string \<Rightarrow> 'z nvram_scheme \<Rightarrow> (int, 'z nvram_scheme) run" where
  "nv_setFX category key idx formatted =
     nvram_set_func (nv_name key idx) (Some (take 4095 formatted)) (nv_path category)"

definition nv_set_int ::
  "string \<Rightarrow> string \<Rightarrow> int \<Rightarrow> int \<Rightarrow> 'z nvram_scheme \<Rightarrow> (int, 'z nvram_scheme) run" where
  "nv_set_int category key idx v = nv_set category key idx (Some (take 255 (show_int v)))"

definition nv_get :: "string \<Rightarrow> string \<Rightarrow> int \<Rightarrow> 'z nvram_scheme \<Rightarrow> (cptr, 'z nvram_scheme) run" where
  "nv_get category key idx s =
     sbind (nvram_get_func (nv_name key idx) (nv_path category) s) (\<lambda>pt s.
       case pt of None \<Rightarrow> Ret None s | Some v \<Rightarrow> Ret (hide_deleted v) s)"

definition nv_get_int :: "string \<Rightarrow> string \<Rightarrow> int \<Rightarrow> 'z nvram_scheme \<Rightarrow> (int, 'z nvram_scheme) run" where
  "nv_get_int category key idx s =
     sbind (nv_get category key idx s) (\<lambda>pt s.
       case pt of None \<Rightarrow> Ret (- 1) s | Some v \<Rightarrow> Ret (atoi v) s)"

subsection \<open>What an image stands for\<close>

text \<open>
  A well-formed image is the list of its strings: each contains an equals sign (so none is
  empty, which would end the image), none contains a NUL, and no two define the same name. The abstract operations
  on that list are what the store promises; the three loops implement them.
\<close>

definition nv_key :: "string \<Rightarrow> string" where
  "nv_key e = before e (CHR ''='')"

definition nv_image :: "string list \<Rightarrow> bytes" where
  "nv_image es = concat (map (\<lambda>e. e @ [NUL]) es) @ [NUL]"

definition wf_entries :: "string list \<Rightarrow> bool" where
  "wf_entries es \<longleftrightarrow> (\<forall>e\<in>set es. CHR ''='' \<in> set e \<and> is_cstr e) \<and> distinct (map nv_key es)"

definition nv_okk :: "string \<Rightarrow> bool" where
  "nv_okk name \<longleftrightarrow> is_cstr name \<and> CHR ''='' \<notin> set name"

fun nv_lookup :: "string list \<Rightarrow> string \<Rightarrow> string option" where
  "nv_lookup [] name = None"
| "nv_lookup (e # es) name =
     (if nv_match e name then Some (drop (length name + 1) e) else nv_lookup es name)"

definition nv_update :: "string \<Rightarrow> string \<Rightarrow> string list \<Rightarrow> string list" where
  "nv_update name v es =
     (if \<exists>e\<in>set es. nv_match e name
      then map (\<lambda>e. if nv_match e name then name @ ''='' @ v else e) es
      else es @ [name @ ''='' @ v])"

definition nv_delete :: "string \<Rightarrow> string list \<Rightarrow> string list" where
  "nv_delete name es = filter (\<lambda>e. \<not> nv_match e name) es"

lemma nv_match_iff: "nv_match e name \<longleftrightarrow> (\<exists>v. e = name @ ''='' @ v)"
proof
  assume "nv_match e name"
  then have t: "take (length name) e = name" and l: "length name < length e"
    and c: "e ! length name = CHR ''=''"
    by (auto simp: nv_match_def strneq_def char_at_def split: if_splits)
  from l c have "drop (length name) e = CHR ''='' # drop (Suc (length name)) e"
    by (metis Cons_nth_drop_Suc)
  with t have "e = name @ ''='' @ drop (Suc (length name)) e"
    by (metis append_Cons append_Nil append_take_drop_id)
  then show "\<exists>v. e = name @ ''='' @ v" ..
qed (auto simp: nv_match_def strneq_def char_at_def)

lemma nv_match_key: "nv_okk name \<Longrightarrow> nv_match e name \<Longrightarrow> nv_key e = name"
  by (auto simp: nv_match_iff nv_key_def nv_okk_def before_append)

lemma nv_match_self [simp]: "nv_match (name @ CHR ''='' # v) name"
  by (simp add: nv_match_iff)

lemma nv_match_other:
  "nv_okk name \<Longrightarrow> nv_okk name' \<Longrightarrow> name' \<noteq> name \<Longrightarrow> \<not> nv_match (name @ CHR ''='' # v) name'"
  using nv_match_key [of name "name @ CHR ''='' # v"] nv_match_key [of name' "name @ CHR ''='' # v"]
  by auto

lemma wf_entries_Cons [simp]:
  "wf_entries (e # es) \<longleftrightarrow> CHR ''='' \<in> set e \<and> is_cstr e \<and> nv_key e \<notin> nv_key ` set es \<and> wf_entries es"
  by (auto simp: wf_entries_def)

lemma wf_entries_Nil [simp]: "wf_entries []"
  by (simp add: wf_entries_def)

lemma nv_image_simps [simp]:
  "nv_image [] = [NUL]" "nv_image (e # es) = e @ NUL # nv_image es"
  by (simp_all add: nv_image_def)

lemma nv_image_nonempty [simp]: "nv_image es \<noteq> []"
  by (simp add: nv_image_def)

text \<open>The scanning loops on a well-formed image compute the abstract operations.\<close>

lemma nv_find_image:
  "wf_entries es \<Longrightarrow> nv_find name (nv_image es @ rest) = Ok (nv_lookup es name)"
proof (induction es)
  case Nil
  show ?case by (subst nv_find.simps) simp
next
  case (Cons e es)
  then obtain c e' where e: "e = c # e'" "c \<noteq> NUL" by (cases e) auto
  from Cons.prems have "c_string ((e @ NUL # nv_image es) @ rest) = Ok e" by simp
  with Cons e show ?case by (subst nv_find.simps) simp
qed

definition nv_cells :: "string list \<Rightarrow> bytes" where
  "nv_cells es = concat (map (\<lambda>e. e @ [NUL]) es)"

lemma nv_cells_simps [simp]:
  "nv_cells [] = []" "nv_cells (e # es) = e @ NUL # nv_cells es"
  "nv_cells (es @ fs) = nv_cells es @ nv_cells fs"
  by (simp_all add: nv_cells_def)

lemma nv_image_cells: "nv_image es = nv_cells es @ [NUL]"
  by (simp add: nv_image_def nv_cells_def)

lemma nv_set_scan_image:
  "wf_entries es \<Longrightarrow>
   nv_set_scan name v (nv_image es @ rest) =
     Ok (\<exists>e\<in>set es. nv_match e name,
         nv_cells (map (\<lambda>e. if nv_match e name then name @ ''='' @ v else e) es))"
proof (induction es)
  case Nil
  show ?case by (subst nv_set_scan.simps) simp
next
  case (Cons e es)
  then obtain c e' where e: "e = c # e'" "c \<noteq> NUL" by (cases e) auto
  from Cons.prems have "c_string ((e @ NUL # nv_image es) @ rest) = Ok e" by simp
  with Cons e show ?case by (subst nv_set_scan.simps) simp
qed

lemma nv_unset_scan_image:
  "wf_entries es \<Longrightarrow>
   nv_unset_scan name (nv_image es @ rest) =
     Ok (\<exists>e\<in>set es. nv_match e name, nv_cells (nv_delete name es))"
proof (induction es)
  case Nil
  show ?case by (subst nv_unset_scan.simps) (simp add: nv_delete_def)
next
  case (Cons e es)
  then obtain c e' where e: "e = c # e'" "c \<noteq> NUL" by (cases e) auto
  from Cons.prems have "c_string ((e @ NUL # nv_image es) @ rest) = Ok e" by simp
  with Cons e show ?case by (subst nv_unset_scan.simps) (simp add: nv_delete_def)
qed

subsection \<open>The image is a key/value store\<close>

lemma map_nv_key_update:
  "nv_okk name \<Longrightarrow>
   map nv_key (map (\<lambda>e. if nv_match e name then name @ ''='' @ v else e) es) = map nv_key es"
  by (auto simp: nv_match_key)

lemma nv_key_entry [simp]: "nv_okk name \<Longrightarrow> nv_key (name @ CHR ''='' # v) = name"
  by (simp add: nv_key_def nv_okk_def before_append)

lemma nv_match_iff_key:
  "nv_okk name \<Longrightarrow> CHR ''='' \<in> set e \<Longrightarrow> nv_match e name \<longleftrightarrow> nv_key e = name"
proof
  assume "nv_okk name" "CHR ''='' \<in> set e" "nv_key e = name"
  then obtain a b where "e = a @ CHR ''='' # b" "CHR ''='' \<notin> set a"
    by (auto dest: split_list_first)
  with \<open>nv_key e = name\<close> show "nv_match e name"
    by (auto simp: nv_key_def before_append)
qed (rule nv_match_key)

lemma wf_entries_update:
  assumes wf: "wf_entries es" and name: "nv_okk name" and v: "is_cstr v"
  shows "wf_entries (nv_update name v es)"
proof (cases "\<exists>e\<in>set es. nv_match e name")
  case True
  with assms show ?thesis
    by (auto simp: nv_update_def wf_entries_def nv_okk_def simp del: map_map
        simp flip: map_map simp: map_nv_key_update [unfolded nv_okk_def])
next
  case False
  with wf name have "name \<notin> nv_key ` set es"
    by (auto simp: wf_entries_def nv_match_iff_key)
  with False assms show ?thesis
    by (auto simp: nv_update_def wf_entries_def nv_okk_def)
qed

lemma wf_entries_delete: "wf_entries es \<Longrightarrow> wf_entries (nv_delete name es)"
  by (auto simp: nv_delete_def wf_entries_def distinct_map_filter)

lemma nv_lookup_append:
  "nv_lookup (es @ fs) name = (case nv_lookup es name of Some v \<Rightarrow> Some v | None \<Rightarrow> nv_lookup fs name)"
  by (induction es) auto

lemma nv_lookup_None: "nv_lookup es name = None \<longleftrightarrow> (\<forall>e\<in>set es. \<not> nv_match e name)"
  by (induction es) auto

lemma nv_lookup_map_same:
  "\<exists>e\<in>set es. nv_match e name \<Longrightarrow>
   nv_lookup (map (\<lambda>e. if nv_match e name then name @ ''='' @ v else e) es) name = Some v"
  by (induction es) auto

lemma nv_lookup_map_other:
  "nv_okk name \<Longrightarrow> nv_okk name' \<Longrightarrow> name' \<noteq> name \<Longrightarrow>
   nv_lookup (map (\<lambda>e. if nv_match e name then name @ ''='' @ v else e) es) name' = nv_lookup es name'"
proof (induction es)
  case (Cons e es)
  have "nv_match e name \<Longrightarrow> \<not> nv_match e name'"
    using Cons.prems nv_match_key by blast
  with Cons show ?case by (auto simp: nv_match_other)
qed simp

lemma nv_lookup_update:
  assumes "nv_okk name" "nv_okk name'"
  shows "nv_lookup (nv_update name v es) name' = (if name' = name then Some v else nv_lookup es name')"
proof (cases "\<exists>e\<in>set es. nv_match e name")
  case True
  with assms show ?thesis
    by (simp add: nv_update_def nv_lookup_map_same nv_lookup_map_other del: append.simps)
next
  case False
  then have "nv_lookup es name = None" by (simp add: nv_lookup_None)
  with False assms show ?thesis
    by (auto simp: nv_update_def nv_lookup_append nv_match_other split: option.splits)
qed

lemma nv_lookup_delete:
  assumes "nv_okk name" "nv_okk name'"
  shows "nv_lookup (nv_delete name es) name' = (if name' = name then None else nv_lookup es name')"
proof (induction es)
  case (Cons e es)
  have "nv_match e name \<Longrightarrow> nv_match e name' \<Longrightarrow> name' = name"
    using assms nv_match_key by blast
  with Cons show ?case by (auto simp: nv_delete_def)
qed (simp add: nv_delete_def)

interpretation nvs: kv_store_del wf_entries nv_okk is_cstr nv_lookup nv_update nv_delete
  by unfold_locales
    (simp_all add: wf_entries_update wf_entries_delete nv_lookup_update nv_lookup_delete)

subsection \<open>The operations on the state\<close>

text \<open>
  \<open>stores path es s\<close>: the file at \<open>path\<close> holds the image of \<open>es\<close> (bytes after the final NUL
  are ignored by the code). \<open>env_ok path s\<close>: the operating system lets the library open the
  file and gives it memory, and the path is one the code can handle.
\<close>

definition stores :: "string \<Rightarrow> string list \<Rightarrow> 'z nvram_scheme \<Rightarrow> bool" where
  "stores path es s \<longleftrightarrow>
     wf_entries es \<and> (case files s path of None \<Rightarrow> False | Some b \<Rightarrow> prefix (nv_image es) b)"

definition env_ok :: "string \<Rightarrow> 'z nvram_scheme \<Rightarrow> bool" where
  "env_ok path s \<longleftrightarrow>
     can_read s path \<and> can_write s path \<and> can_alloc s = (\<lambda>_. True) \<and> short_path path
     \<and> BASE_PATH_LEN \<le> length path"

definition released :: "string \<Rightarrow> 'z nvram_scheme \<Rightarrow> string list" where
  "released path s =
     (if can_lock s (lock_path path) then filter (\<lambda>q. q \<noteq> lock_path path) (held s) else held s)"

lemma storesE:
  assumes "stores path es s"
  obtains rest where "files s path = Some (nv_image es @ rest)" "wf_entries es"
  using assms by (auto simp: stores_def prefix_def split: option.splits)

lemma storesI: "files s path = Some (nv_image es @ rest) \<Longrightarrow> wf_entries es \<Longrightarrow> stores path es s"
  by (simp add: stores_def)

lemma readFileBin_unlock_held [simp]:
  "readFileBin_unlock path (s\<lparr>held := h\<rparr>) = readFileBin_unlock path s"
  by (simp add: readFileBin_unlock_def split: option.split)

lemma writeFileBin_unlock_held [simp]:
  "writeFileBin_unlock path d (s\<lparr>held := h\<rparr>) = (writeFileBin_unlock path d s)\<lparr>held := h\<rparr>"
  by (simp add: writeFileBin_unlock_def)

lemma readFileBin_unlock_ok:
  "env_ok path s \<Longrightarrow> files s path = Some b \<Longrightarrow> readFileBin_unlock path s = Some b"
  by (simp add: readFileBin_unlock_def env_ok_def)

text \<open>With no duplicate names the rewritten image fits the buffer allocated for it.\<close>

lemma length_cells_map:
  "wf_entries es \<Longrightarrow> nv_okk name \<Longrightarrow>
   length (nv_cells (map (\<lambda>e. if nv_match e name then name @ ''='' @ v else e) es))
     \<le> length (nv_cells es) + (if \<exists>e\<in>set es. nv_match e name then length v else 0)"
proof (induction es)
  case (Cons e es)
  show ?case
  proof (cases "nv_match e name")
    case True
    then have "nv_key e = name" using Cons.prems nv_match_key by blast
    with Cons.prems have none: "\<forall>e'\<in>set es. \<not> nv_match e' name"
      by (metis image_eqI nv_match_key wf_entries_Cons)
    then have "map (\<lambda>e. if nv_match e name then name @ ''='' @ v else e) es = es"
      by (simp add: map_idI)
    moreover from True obtain w where "e = name @ ''='' @ w" by (auto simp: nv_match_iff)
    ultimately show ?thesis by simp
  next
    case False
    with Cons show ?thesis by (auto split: if_splits)
  qed
qed simp

lemma set_unlock_eq:
  assumes "env_ok path s" "stores path es s" "nv_okk name" "is_cstr v"
  shows "nvram_set_func_unlock name (Some v) path (s\<lparr>held := h\<rparr>) =
    Ret 0 (s\<lparr>files := (files s)(path \<mapsto> nv_image (nv_update name v es)), held := h\<rparr>)"
proof -
  from \<open>stores path es s\<close> obtain rest where
    f: "files s path = Some (nv_image es @ rest)" and wf: "wf_entries es" by (rule storesE)
  let ?m = "map (\<lambda>e. if nv_match e name then name @ ''='' @ v else e) es"
  have b: "readFileBin_unlock path s = Some (nv_image es @ rest)"
    using assms(1) f by (rule readFileBin_unlock_ok)
  have scan: "nv_set_scan name v (nv_image es @ rest) = Ok (\<exists>e\<in>set es. nv_match e name, nv_cells ?m)"
    using wf by (rule nv_set_scan_image)
  have len: "length (nv_cells ?m) \<le> length (nv_cells es) + length v"
    using length_cells_map [OF wf assms(3), of v] by (auto split: if_splits)
  show ?thesis
  proof (cases "\<exists>e\<in>set es. nv_match e name")
    case True
    with assms(1) b scan len show ?thesis
      by (simp add: nvram_set_func_unlock_def env_ok_def writeFileBin_unlock_def nv_update_def
          nv_image_cells)
  next
    case False
    then have "?m = es" by (simp add: map_idI)
    with False assms(1) b scan show ?thesis
      by (simp add: nvram_set_func_unlock_def env_ok_def writeFileBin_unlock_def nv_update_def
          nv_image_cells)
  qed
qed

lemma set_func_eq:
  assumes "env_ok path s" "stores path es s" "nv_okk name" "is_cstr v"
  shows "nvram_set_func name (Some v) path s =
    Ret 0 (s\<lparr>files := (files s)(path \<mapsto> nv_image (nv_update name v es)), held := released path s\<rparr>)"
  unfolding nvram_set_func_def released_def
  by (subst with_lock_Ret [where t = "s\<lparr>files := (files s)(path \<mapsto> nv_image (nv_update name v es))\<rparr>"])
    (use assms in \<open>simp_all add: set_unlock_eq env_ok_def\<close>)

text \<open>What \<^verbatim>\<open>nvram_get_func\<close> leaves in the list of values handed out.\<close>

definition remember :: "string \<Rightarrow> string \<Rightarrow> string \<Rightarrow> nv_entry list \<Rightarrow> nv_entry list" where
  "remember name v path l =
     (case find_nv_entry name path l of
        Some i \<Rightarrow> l[i := (l ! i)\<lparr>ne_value := v\<rparr>]
      | None \<Rightarrow> \<lparr>ne_name = name, ne_value = v, ne_path = path\<rparr> # l)"

definition remember_opt :: "string \<Rightarrow> cptr \<Rightarrow> string \<Rightarrow> nv_entry list \<Rightarrow> nv_entry list" where
  "remember_opt name vp path l = (case vp of None \<Rightarrow> l | Some v \<Rightarrow> remember name v path l)"

lemma add_nv_entry_eq:
  "can_alloc s = (\<lambda>_. True) \<Longrightarrow>
   add_nv_entry name v path s = Ret 0 (s\<lparr>nv_list := remember name v path (nv_list s)\<rparr>)"
  by (simp add: add_nv_entry_def remember_def split: option.split)

lemma get_unlock_eq:
  assumes "env_ok path s" "stores path es s"
  shows "nvram_get_func_unlock name path (s\<lparr>held := h\<rparr>) =
    Ret (nv_lookup es name)
      (s\<lparr>nv_list := remember_opt name (nv_lookup es name) (drop BASE_PATH_LEN path) (nv_list s),
         held := h\<rparr>)"
proof -
  from assms(2) obtain rest where
    f: "files s path = Some (nv_image es @ rest)" and wf: "wf_entries es" by (rule storesE)
  have "readFileBin_unlock path s = Some (nv_image es @ rest)"
    using assms(1) f by (rule readFileBin_unlock_ok)
  moreover have "can_alloc (s\<lparr>held := h\<rparr>) = (\<lambda>_. True)"
    using assms(1) by (simp add: env_ok_def)
  ultimately show ?thesis
    using assms(1) nv_find_image [OF wf, of name rest]
    by (cases "nv_lookup es name")
      (simp_all add: nvram_get_func_unlock_def add_nv_entry_eq remember_opt_def env_ok_def)
qed

lemma get_func_eq:
  assumes "env_ok path s" "stores path es s"
  shows "nvram_get_func name path s =
    Ret (nv_lookup es name)
      (s\<lparr>nv_list := remember_opt name (nv_lookup es name) (drop BASE_PATH_LEN path) (nv_list s),
         held := released path s\<rparr>)"
  unfolding nvram_get_func_def released_def
  by (subst with_lock_Ret [where
        t = "s\<lparr>nv_list := remember_opt name (nv_lookup es name) (drop BASE_PATH_LEN path) (nv_list s)\<rparr>"])
    (use assms in \<open>simp_all add: get_unlock_eq env_ok_def\<close>)

lemma length_nv_cells_delete: "length (nv_cells (nv_delete name es)) \<le> length (nv_cells es)"
  by (induction es) (auto simp: nv_delete_def)

lemma nv_delete_absent: "\<forall>e\<in>set es. \<not> nv_match e name \<Longrightarrow> nv_delete name es = es"
  by (simp add: nv_delete_def)

lemma unset_unlock_eq:
  assumes "env_ok path s" "stores path es s"
  shows "\<exists>t. (\<forall>h. nvram_unset_func_unlock name path (s\<lparr>held := h\<rparr>) = Ret 0 (t\<lparr>held := h\<rparr>))
    \<and> stores path (nv_delete name es) t \<and> (\<forall>q. q \<noteq> path \<longrightarrow> files t q = files s q)"
proof -
  from assms(2) obtain rest where
    f: "files s path = Some (nv_image es @ rest)" and wf: "wf_entries es" by (rule storesE)
  have b: "readFileBin_unlock path s = Some (nv_image es @ rest)"
    using assms(1) f by (rule readFileBin_unlock_ok)
  note scan = nv_unset_scan_image [OF wf, of name rest]
  show ?thesis
  proof (cases "\<exists>e\<in>set es. nv_match e name")
    case True
    let ?t = "s\<lparr>files := (files s)(path \<mapsto> nv_image (nv_delete name es))\<rparr>"
    have "stores path (nv_delete name es) ?t"
      using wf by (simp add: stores_def wf_entries_delete)
    moreover have "nvram_unset_func_unlock name path (s\<lparr>held := h\<rparr>) = Ret 0 (?t\<lparr>held := h\<rparr>)" for h
      using True assms(1) b scan length_nv_cells_delete [of name es]
      by (simp add: nvram_unset_func_unlock_def env_ok_def writeFileBin_unlock_def nv_image_cells)
    ultimately show ?thesis by (intro exI [of _ ?t]) simp
  next
    case False
    with wf f have "stores path (nv_delete name es) s"
      by (simp add: nv_delete_absent stores_def)
    moreover from False assms(1) b scan have
      "nvram_unset_func_unlock name path (s\<lparr>held := h\<rparr>) = Ret 0 (s\<lparr>held := h\<rparr>)" for h
      by (simp add: nvram_unset_func_unlock_def env_ok_def)
    ultimately show ?thesis by auto
  qed
qed

lemma unset_func_eq:
  assumes "env_ok path s" "stores path es s"
  obtains t where "nvram_unset_func name path s = Ret 0 (t\<lparr>held := released path s\<rparr>)"
    "stores path (nv_delete name es) t" "\<And>q. q \<noteq> path \<Longrightarrow> files t q = files s q"
proof -
  from unset_unlock_eq [OF assms, of name] obtain t where
    t: "\<And>h. nvram_unset_func_unlock name path (s\<lparr>held := h\<rparr>) = Ret 0 (t\<lparr>held := h\<rparr>)"
      "stores path (nv_delete name es) t" "\<And>q. q \<noteq> path \<Longrightarrow> files t q = files s q"
    by auto
  have "nvram_unset_func name path s = Ret 0 (t\<lparr>held := released path s\<rparr>)"
    unfolding nvram_unset_func_def released_def
    by (subst with_lock_Ret [where t = t]) (use assms t in \<open>simp_all add: env_ok_def\<close>)
  with t that show ?thesis by blast
qed

lemma stores_held [simp]: "stores path es (s\<lparr>held := h\<rparr>) = stores path es s"
  by (simp add: stores_def)

lemma env_ok_frame:
  "can_read t = can_read s \<Longrightarrow> can_write t = can_write s \<Longrightarrow> can_alloc t = can_alloc s \<Longrightarrow>
   env_ok path t = env_ok path s"
  by (simp add: env_ok_def)

subsection \<open>Reading with defaults\<close>

text \<open>
  The abstract contract of \<^verbatim>\<open>nvram_get\<close>: the store first, then the defaults, whose value is
  copied into the store; a \<^verbatim>\<open>*DEL*\<close> value reads as absent.
\<close>

definition get_spec :: "string list \<Rightarrow> string list \<Rightarrow> string \<Rightarrow> cptr" where
  "get_spec es ds name =
     (case nv_lookup es name of
        Some v \<Rightarrow> hide_deleted v
      | None \<Rightarrow> (case nv_lookup ds name of None \<Rightarrow> None | Some v \<Rightarrow> hide_deleted v))"

definition get_spec_store :: "string list \<Rightarrow> string list \<Rightarrow> string \<Rightarrow> string list" where
  "get_spec_store es ds name =
     (if nv_lookup es name = None
      then (case nv_lookup ds name of None \<Rightarrow> es | Some v \<Rightarrow> nv_update name v es) else es)"

definition nv_ready :: "string list \<Rightarrow> string list \<Rightarrow> 'z nvram_scheme \<Rightarrow> bool" where
  "nv_ready es ds s \<longleftrightarrow>
     env_ok NVRAM_TMP_PATH s \<and> env_ok NVRAM_DEFAULT s
     \<and> stores NVRAM_TMP_PATH es s \<and> stores NVRAM_DEFAULT ds s"

text \<open>Equality of two states apart from the file \<open>path\<close>, the lock list and \<open>nv_list\<close>.\<close>

definition same_but :: "string \<Rightarrow> 'z nvram_scheme \<Rightarrow> 'z nvram_scheme \<Rightarrow> bool" where
  "same_but path s t \<longleftrightarrow>
     t = s\<lparr>files := files t, nv_list := nv_list t, held := held t\<rparr>
     \<and> (\<forall>q. q \<noteq> path \<longrightarrow> files t q = files s q)"

lemma same_but_refl [simp]: "same_but path s s"
  by (simp add: same_but_def)

lemma same_but_updates [simp]:
  "same_but path s (s\<lparr>files := (files s)(path \<mapsto> b), held := h\<rparr>)"
  "same_but path s (s\<lparr>nv_list := l, held := h\<rparr>)"
  "same_but path s (s\<lparr>files := (files s)(path \<mapsto> b), nv_list := l, held := h\<rparr>)"
  by (simp_all add: same_but_def)

lemma same_butE:
  assumes "same_but path s t"
  obtains f l h where "t = s\<lparr>files := f, nv_list := l, held := h\<rparr>" "\<And>q. q \<noteq> path \<Longrightarrow> f q = files s q"
  using assms unfolding same_but_def by blast

lemma same_but_env_ok: "same_but path s t \<Longrightarrow> env_ok q t = env_ok q s"
  by (erule same_butE) (simp add: env_ok_def)

lemma same_but_stores: "same_but path s t \<Longrightarrow> q \<noteq> path \<Longrightarrow> stores q es t = stores q es s"
  by (simp add: same_but_def stores_def)

lemma same_but_trans: "same_but path s t \<Longrightarrow> same_but path t u \<Longrightarrow> same_but path s u"
  by (erule same_butE, erule same_butE) (simp add: same_but_def)

lemma tmp_not_default [simp]: "NVRAM_DEFAULT \<noteq> NVRAM_TMP_PATH" "NVRAM_TMP_PATH \<noteq> NVRAM_DEFAULT"
  by (simp_all add: NVRAM_DEFAULT_def NVRAM_TMP_PATH_def)

lemma nv_lookup_cstr: "wf_entries es \<Longrightarrow> nv_lookup es name = Some v \<Longrightarrow> is_cstr v"
  by (induction es) (auto split: if_splits)

lemma nvram_get_spec:
  assumes ready: "nv_ready es ds s" and name: "nv_okk name"
  obtains t where "nvram_get name s = Ret (get_spec es ds name) t"
    "nv_ready (get_spec_store es ds name) ds t" "same_but NVRAM_TMP_PATH s t"
proof -
  let ?T = NVRAM_TMP_PATH and ?D = NVRAM_DEFAULT
  from ready have T: "env_ok ?T s" "stores ?T es s" and D: "env_ok ?D s" "stores ?D ds s"
    by (auto simp: nv_ready_def)
  let ?s1 = "s\<lparr>nv_list := remember_opt name (nv_lookup es name) (drop BASE_PATH_LEN ?T) (nv_list s),
    held := released ?T s\<rparr>"
  have g1: "nvram_get_func name ?T s = Ret (nv_lookup es name) ?s1"
    by (rule get_func_eq [OF T])
  have r1: "nv_ready es ds ?s1"
    using T D by (simp add: nv_ready_def env_ok_def stores_def)
  show thesis
  proof (cases "nv_lookup es name")
    case (Some v)
    with g1 r1 show thesis
      by (intro that [of ?s1]) (simp_all add: nvram_get_def get_spec_def get_spec_store_def)
  next
    case None
    let ?s2 = "?s1\<lparr>nv_list := remember_opt name (nv_lookup ds name) (drop BASE_PATH_LEN ?D) (nv_list ?s1),
      held := released ?D ?s1\<rparr>"
    have g2: "nvram_get_func name ?D ?s1 = Ret (nv_lookup ds name) ?s2"
      using r1 by (intro get_func_eq) (simp_all add: nv_ready_def)
    have r2: "nv_ready es ds ?s2" using r1 by (simp add: nv_ready_def env_ok_def stores_def)
    have b2: "same_but ?T s ?s2" by (simp add: same_but_def)
    show thesis
    proof (cases "nv_lookup ds name")
      case None
      with g1 g2 r2 b2 \<open>nv_lookup es name = None\<close> show thesis
        by (intro that [of ?s2]) (simp_all add: nvram_get_def get_spec_def get_spec_store_def)
    next
      case (Some v)
      then have v: "is_cstr v" using D nv_lookup_cstr by (auto simp: stores_def)
      let ?s3 = "?s2\<lparr>files := (files ?s2)(?T \<mapsto> nv_image (nv_update name v es)), held := released ?T ?s2\<rparr>"
      have g3: "nvram_set name (Some v) ?s2 = Ret 0 ?s3"
        unfolding nvram_set_def
        using r2 name v by (intro set_func_eq) (simp_all add: nv_ready_def)
      have r3: "nv_ready (nv_update name v es) ds ?s3"
        using r2 name v T by (auto simp: nv_ready_def env_ok_def stores_def wf_entries_update)
      have b3: "same_but ?T s ?s3" by (simp add: same_but_def)
      from Some g1 g2 g3 r3 b3 \<open>nv_lookup es name = None\<close> show thesis
        by (intro that [of ?s3]) (simp_all add: nvram_get_def get_spec_def get_spec_store_def)
    qed
  qed
qed

lemma nvram_set_spec:
  assumes ready: "nv_ready es ds s" and name: "nv_okk name" and v: "is_cstr v"
  obtains t where "nvram_set name (Some v) s = Ret 0 t"
    "nv_ready (nv_update name v es) ds t" "same_but NVRAM_TMP_PATH s t"
proof -
  let ?t = "s\<lparr>files := (files s)(NVRAM_TMP_PATH \<mapsto> nv_image (nv_update name v es)),
    held := released NVRAM_TMP_PATH s\<rparr>"
  have "nvram_set name (Some v) s = Ret 0 ?t"
    unfolding nvram_set_def
    using ready name v by (intro set_func_eq) (simp_all add: nv_ready_def)
  moreover have "nv_ready (nv_update name v es) ds ?t"
    using ready name v by (auto simp: nv_ready_def env_ok_def stores_def wf_entries_update)
  ultimately show thesis by (intro that [of ?t]) simp_all
qed

subsection \<open>Properties\<close>

text \<open>A router state for the witnesses: two variables in the store and one default.\<close>

definition sample_nvram :: nvram where
  "sample_nvram =
     \<lparr>files = [NVRAM_TMP_PATH \<mapsto> nv_image [''lan_if=br0'', ''wan_mode=1''],
               NVRAM_DEFAULT \<mapsto> nv_image [''adblock_enable=0'']],
      can_read = (\<lambda>_. True), can_write = (\<lambda>_. True), can_lock = (\<lambda>_. True),
      can_alloc = (\<lambda>_. True), header_junk = [NUL, NUL, NUL, NUL], flash_put = id, nv_list = [],
      held = [], cwmp_signals = 0\<rparr>"

lemmas sample_defs = sample_nvram_def NVRAM_TMP_PATH_def NVRAM_DEFAULT_def NVRAM_PATH_def
  NVRAM_BCM_PATH_def BASE_PATH_LEN_def short_path_def PATH_MAX_def nv_okk_def nv_key_def before_def

lemma sample_ready:
  "nv_ready [''lan_if=br0'', ''wan_mode=1''] [''adblock_enable=0''] sample_nvram"
  by (simp add: nv_ready_def env_ok_def stores_def sample_defs)

text \<open>
  C1. A value set with nvram_set is the value nvram_get returns for that name, every other
  name reads as before, both calls succeed without overrunning a buffer, and the store
  afterwards is the store before with that one entry replaced or appended.
\<close>

theorem nvram_set_then_get:
  assumes "nv_ready es ds s" "nv_okk name" "nv_okk name'" "is_cstr v"
  shows "\<exists>t u. nvram_set name (Some v) s = Ret 0 t \<and> nv_ready (nv_update name v es) ds t
    \<and> nvram_get name' t = Ret (if name' = name then hide_deleted v else get_spec es ds name') u"
proof -
  from nvram_set_spec [OF assms(1,2,4)] obtain t where
    t: "nvram_set name (Some v) s = Ret 0 t" "nv_ready (nv_update name v es) ds t" by metis
  from nvram_get_spec [OF t(2) assms(3)] obtain u where
    "nvram_get name' t = Ret (get_spec (nv_update name v es) ds name') u" by metis
  moreover have "nv_lookup (nv_update name v es) name' = (if name' = name then Some v else nv_lookup es name')"
    using assms by (intro nvs.lookup_update) (auto simp: nv_ready_def stores_def)
  ultimately show ?thesis using t by (auto simp: get_spec_def)
qed

theorem nvram_set_then_get_witness:
  "\<exists>t u. nvram_set ''wan_mode'' (Some ''3'') sample_nvram = Ret 0 t
    \<and> nv_ready (nv_update ''wan_mode'' ''3'' [''lan_if=br0'', ''wan_mode=1'']) [''adblock_enable=0''] t
    \<and> nvram_get ''wan_mode'' t = Ret (Some ''3'') u"
  using nvram_set_then_get [OF sample_ready, of "''wan_mode''" "''wan_mode''" "''3''"]
  by (simp add: nv_okk_def hide_deleted_def is_deleted_def strneq_def)

text \<open>Any sequence of set calls, in the order given.\<close>

fun nvram_set_all :: "(string \<times> string) list \<Rightarrow> 'z nvram_scheme \<Rightarrow> (int, 'z nvram_scheme) run" where
  "nvram_set_all [] s = Ret 0 s"
| "nvram_set_all ((n, v) # ps) s = sbind (nvram_set n (Some v) s) (\<lambda>_ s. nvram_set_all ps s)"

lemma nvram_set_all_spec:
  "nv_ready es ds s \<Longrightarrow> (\<And>n v. (n, v) \<in> set ps \<Longrightarrow> nv_okk n \<and> is_cstr v) \<Longrightarrow>
   \<exists>t. nvram_set_all ps s = Ret 0 t \<and> nv_ready (nvs.updates ps es) ds t"
proof (induction ps arbitrary: es s)
  case (Cons p ps)
  obtain n v where p: "p = (n, v)" by (cases p)
  with Cons.prems have "nv_okk n" "is_cstr v" by auto
  from nvram_set_spec [OF Cons.prems(1) this] obtain t where
    t: "nvram_set n (Some v) s = Ret 0 t" "nv_ready (nv_update n v es) ds t" by metis
  from Cons.IH [OF t(2)] Cons.prems(2) t(1) p show ?case by auto
qed simp

text \<open>
  C9. The store refines a map from names to values: after any sequence of nvram_set calls
  nvram_get returns the last value set for the name, or what it returned before when the
  name was not set.
\<close>

theorem nvram_refines_map:
  assumes "nv_ready es ds s" "nv_okk name"
    "\<forall>(n, v) \<in> set ps. nv_okk n \<and> is_cstr v"
  shows "\<exists>t u. nvram_set_all ps s = Ret 0 t
    \<and> nvram_get name t =
        Ret (case map_of (rev ps) name of Some v \<Rightarrow> hide_deleted v | None \<Rightarrow> get_spec es ds name) u"
proof -
  have ps: "\<And>n v. (n, v) \<in> set ps \<Longrightarrow> nv_okk n \<and> is_cstr v" using assms(3) by auto
  from nvram_set_all_spec [OF assms(1) ps] obtain t where
    t: "nvram_set_all ps s = Ret 0 t" "nv_ready (nvs.updates ps es) ds t" by auto
  from nvram_get_spec [OF t(2) assms(2)] obtain u where
    u: "nvram_get name t = Ret (get_spec (nvs.updates ps es) ds name) u" by metis
  have "nv_lookup (nvs.updates ps es) name =
      (case map_of (rev ps) name of Some v \<Rightarrow> Some v | None \<Rightarrow> nv_lookup es name)"
    using assms ps by (intro nvs.lookup_updates) (auto simp: nv_ready_def stores_def)
  with t u show ?thesis by (auto simp: get_spec_def split: option.splits)
qed

theorem nvram_refines_map_witness:
  "\<exists>t u. nvram_set_all [(''a'', ''1''), (''b'', ''2''), (''a'', ''3'')] sample_nvram = Ret 0 t
    \<and> nvram_get ''a'' t = Ret (Some ''3'') u"
  using nvram_refines_map [OF sample_ready, of "''a''" "[(''a'', ''1''), (''b'', ''2''), (''a'', ''3'')]"]
  by (simp add: nv_okk_def hide_deleted_def is_deleted_def strneq_def)

text \<open>
  Reading a variable that only the defaults define copies the default into the store,
  so that a later reading finds it there; a reading changes nothing else on disk.
\<close>

theorem nvram_get_copies_default:
  assumes "nv_ready es ds s" "nv_okk name" "nv_lookup es name = None" "nv_lookup ds name = Some v"
  shows "\<exists>t. nvram_get name s = Ret (hide_deleted v) t \<and> stores NVRAM_TMP_PATH (es @ [name @ ''='' @ v]) t
    \<and> (\<forall>q. q \<noteq> NVRAM_TMP_PATH \<longrightarrow> files t q = files s q)"
proof -
  from nvram_get_spec [OF assms(1,2)] obtain t where
    t: "nvram_get name s = Ret (get_spec es ds name) t"
      "nv_ready (get_spec_store es ds name) ds t" "same_but NVRAM_TMP_PATH s t" by metis
  from assms(3) have "\<not> (\<exists>e\<in>set es. nv_match e name)" by (simp add: nv_lookup_None)
  then have "get_spec_store es ds name = es @ [name @ ''='' @ v]"
    using assms by (simp add: get_spec_store_def nv_update_def)
  with t assms show ?thesis
    by (auto simp: get_spec_def nv_ready_def same_but_def)
qed

theorem nvram_get_copies_default_witness:
  "\<exists>t. nvram_get ''adblock_enable'' sample_nvram = Ret (Some ''0'') t
    \<and> stores NVRAM_TMP_PATH [''lan_if=br0'', ''wan_mode=1'', ''adblock_enable=0''] t
    \<and> (\<forall>q. q \<noteq> NVRAM_TMP_PATH \<longrightarrow> files t q = files sample_nvram q)"
  using nvram_get_copies_default [OF sample_ready, of "''adblock_enable''" "''0''"]
  by (simp add: nv_okk_def hide_deleted_def is_deleted_def strneq_def nv_match_def char_at_def)

text \<open>
  Setting a variable in a store file that is missing, unreadable or empty writes the
  final NUL one byte past the end of the buffer that nvram_set_func_unlock allocates.
\<close>

theorem nvram_set_first_overruns:
  assumes "readFileBin_unlock path s = None \<or> readFileBin_unlock path s = Some []"
    "can_alloc s (length name + length v + 2)"
  shows "nvram_set_func_unlock name (Some v) path s = Halt (Crash Oob_write) s"
  using assms by (auto simp: nvram_set_func_unlock_def Let_def)

theorem nvram_set_first_overruns_witness:
  "nvram_set_func_unlock ''a'' (Some ''1'') NVRAM_BCM_PATH sample_nvram = Halt (Crash Oob_write) sample_nvram"
  using nvram_set_first_overruns [of NVRAM_BCM_PATH sample_nvram "''a''" "''1''"]
  by (simp add: readFileBin_unlock_def sample_defs)

text \<open>
  nvram_bcm_unset removes the variable from its store and leaves every other
  variable and every other file as it was.
\<close>

theorem nvram_bcm_unset_removes:
  assumes "env_ok NVRAM_BCM_PATH s" "stores NVRAM_BCM_PATH es s" "nv_okk name"
  shows "\<exists>t es'. nvram_bcm_unset name s = Ret 0 t \<and> stores NVRAM_BCM_PATH es' t
    \<and> nv_lookup es' name = None
    \<and> (\<forall>name'. nv_okk name' \<and> name' \<noteq> name \<longrightarrow> nv_lookup es' name' = nv_lookup es name')
    \<and> (\<forall>q. q \<noteq> NVRAM_BCM_PATH \<longrightarrow> files t q = files s q)"
proof -
  from unset_func_eq [OF assms(1,2), of name] obtain t where
    "nvram_unset_func name NVRAM_BCM_PATH s = Ret 0 (t\<lparr>held := released NVRAM_BCM_PATH s\<rparr>)"
    "stores NVRAM_BCM_PATH (nv_delete name es) t" "\<And>q. q \<noteq> NVRAM_BCM_PATH \<Longrightarrow> files t q = files s q"
    by metis
  moreover have "wf_entries es" using assms(2) by (simp add: stores_def)
  ultimately show ?thesis
    using assms(3)
    by (intro exI [of _ "t\<lparr>held := released NVRAM_BCM_PATH s\<rparr>"] exI [of _ "nv_delete name es"])
      (simp add: nvram_bcm_unset_def nvs.lookup_delete)
qed

theorem nvram_bcm_unset_removes_witness:
  "\<exists>t es'. nvram_bcm_unset ''a'' (sample_nvram\<lparr>files := [NVRAM_BCM_PATH \<mapsto> nv_image [''a=1'']]\<rparr>) = Ret 0 t
    \<and> stores NVRAM_BCM_PATH es' t \<and> nv_lookup es' ''a'' = None"
  using nvram_bcm_unset_removes
    [of "sample_nvram\<lparr>files := [NVRAM_BCM_PATH \<mapsto> nv_image [''a=1'']]\<rparr>" "[''a=1'']" "''a''"]
  by (auto simp: env_ok_def stores_def sample_defs)

end
