(* ===== verification/Nvram_Concurrency.thy ===== *)
theory Nvram_Concurrency
  imports Nvram_Store
begin

section \<open>Processes that set variables at the same time\<close>

text \<open>
  \<^verbatim>\<open>nvram_set_func\<close> reads the whole store, rewrites it and writes it back; the web server's
  CGI programs, \<^verbatim>\<open>nvram-util\<close> in the start-up scripts and the vendor's daemons all do this
  to the same file. Here the calls of several processes are interleaved: each is the
  sequence lock, read, write, unlock, and any process whose next step is enabled may move. The
  steps run the functions of the library: \<open>nvram_lock\<close>, \<open>nvram_set_func_unlock\<close> on what was read,
  \<open>nvram_unlock\<close>.
\<close>

subsection \<open>The interleaved system\<close>

text \<open>
  Where a process is in its call: it has called \<open>nvram_lock\<close> with result \<open>fd\<close>, has read the file (\<open>None\<close>:
  there was none), has written it, has returned from \<open>nvram_unlock\<close>, or has been killed.
\<close>

datatype pc =
    Idle
  | Locked "string option"
  | HasRead "string option" "bytes option"
  | Written "string option"
  | Finished
  | Dead

text \<open>
  \<open>procs\<close> is the state of the library in each process, in which \<open>held\<close> are the locks the process has;
  \<open>disk\<close> are the files, which all of them share, so that the field \<open>files\<close> of a process is
  set from it when a step runs; \<open>written\<close> lists the processes in the order of their writes.
\<close>

record sys =
  pcs :: "nat \<Rightarrow> pc"
  procs :: "nat \<Rightarrow> nvram"
  disk :: "string \<Rightarrow> bytes option"
  written :: "nat list"

text \<open>
  \<open>job i\<close> is the variable and value process \<open>i\<close> sets in the store \<open>path\<close>. The call of \<^verbatim>\<open>lockf\<close> in
  \<^verbatim>\<open>nvram_lock\<close> returns only when no other process has a lock on a file the caller gets one on: this is the
  documented behaviour of record locks, and the one thing a step takes from the system. A process that
  is killed loses its locks.
\<close>

definition lockf_grants :: "sys \<Rightarrow> nat \<Rightarrow> nvram \<Rightarrow> bool" where
  "lockf_grants s i u \<longleftrightarrow> (\<forall>j. j \<noteq> i \<longrightarrow> set (held u) \<inter> set (held (procs s j)) = {})"

definition kill_proc :: "nat \<Rightarrow> nvram \<Rightarrow> sys \<Rightarrow> sys" where
  "kill_proc i u s = s\<lparr>pcs := (pcs s)(i := Dead), procs := (procs s)(i := u\<lparr>held := []\<rparr>)\<rparr>"

inductive nv_step :: "string \<Rightarrow> (nat \<Rightarrow> string \<times> string) \<Rightarrow> sys \<Rightarrow> sys \<Rightarrow> bool"
  for path :: string and job :: "nat \<Rightarrow> string \<times> string" where
  acquire: "pcs s i = Idle \<Longrightarrow> nvram_lock path (procs s i) = Ret fd u \<Longrightarrow> lockf_grants s i u \<Longrightarrow>
    nv_step path job s (s\<lparr>pcs := (pcs s)(i := Locked fd), procs := (procs s)(i := u)\<rparr>)"
| lock_crash: "pcs s i = Idle \<Longrightarrow> nvram_lock path (procs s i) = Halt e u \<Longrightarrow>
    nv_step path job s (kill_proc i u s)"
| read_file: "pcs s i = Locked fd \<Longrightarrow>
    nv_step path job s (s\<lparr>pcs := (pcs s)(i := HasRead fd (disk s path))\<rparr>)"
| write_file: "pcs s i = HasRead fd b \<Longrightarrow>
    nvram_set_func_unlock (fst (job i)) (Some (snd (job i))) path ((procs s i)\<lparr>files := (disk s)(path := b)\<rparr>) = Ret x u \<Longrightarrow>
    nv_step path job s (s\<lparr>pcs := (pcs s)(i := Written fd), procs := (procs s)(i := u),
      disk := (if can_write u path then (disk s)(path := files u path) else disk s), written := written s @ [i]\<rparr>)"
| write_crash: "pcs s i = HasRead fd b \<Longrightarrow>
    nvram_set_func_unlock (fst (job i)) (Some (snd (job i))) path ((procs s i)\<lparr>files := (disk s)(path := b)\<rparr>) = Halt e u \<Longrightarrow>
    nv_step path job s (kill_proc i u s)"
| release: "pcs s i = Written fd \<Longrightarrow> nvram_unlock fd (procs s i) = Ret x u \<Longrightarrow>
    nv_step path job s (s\<lparr>pcs := (pcs s)(i := Finished), procs := (procs s)(i := u)\<rparr>)"

text \<open>All processes start outside, \<open>env i\<close> being the state of process \<open>i\<close> and \<open>fs\<close> the files.\<close>

definition start :: "(nat \<Rightarrow> nvram) \<Rightarrow> (string \<Rightarrow> bytes option) \<Rightarrow> sys" where
  "start env fs = \<lparr>pcs = (\<lambda>_. Idle), procs = env, disk = fs, written = []\<rparr>"

inductive reach :: "string \<Rightarrow> (nat \<Rightarrow> string \<times> string) \<Rightarrow> (nat \<Rightarrow> nvram) \<Rightarrow> (string \<Rightarrow> bytes option) \<Rightarrow> sys \<Rightarrow> bool"
  for path job env fs where
  init: "reach path job env fs (start env fs)"
| move: "reach path job env fs s \<Longrightarrow> nv_step path job s t \<Longrightarrow> reach path job env fs t"

inductive_cases nv_stepE: "nv_step path job s t"

subsection \<open>The interface: a resource guarded by one lock\<close>

text \<open>
  \<open>inside i s\<close>: process \<open>i\<close> is between lock and unlock; \<open>holds i s\<close>: the locks it has; \<open>snap i s\<close>: what it has
  read and not yet used, if anything; \<open>val s\<close>: the shared value. The provider promises that whoever is inside has the lock
  \<open>lk\<close>, that locks are held by one process, that a snapshot is taken of the value as it is, and
  that the value is changed only by a process inside, which uses up its snapshot.
\<close>

locale guarded =
  fixes inv :: "'s \<Rightarrow> bool"
    and step :: "'s \<Rightarrow> 's \<Rightarrow> bool"
    and inside :: "nat \<Rightarrow> 's \<Rightarrow> bool"
    and holds :: "nat \<Rightarrow> 's \<Rightarrow> 'l set"
    and lk :: 'l
    and snap :: "nat \<Rightarrow> 's \<Rightarrow> 'v option"
    and val :: "'s \<Rightarrow> 'v"
  assumes inv_step: "inv s \<Longrightarrow> step s t \<Longrightarrow> inv t"
    and covered: "inv s \<Longrightarrow> inside i s \<Longrightarrow> lk \<in> holds i s"
    and disjoint: "inv s \<Longrightarrow> i \<noteq> j \<Longrightarrow> holds i s \<inter> holds j s = {}"
    and snap_inside: "snap i s = Some v \<Longrightarrow> inside i s"
    and snap_new: "step s t \<Longrightarrow> snap i t = Some v \<Longrightarrow> snap i s = Some v \<or> v = val s \<and> val t = val s"
    and val_change: "step s t \<Longrightarrow> val t = val s \<or> (\<exists>j. inside j s \<and> snap j t = None)"
begin

lemma inv_steps: "step\<^sup>*\<^sup>* s t \<Longrightarrow> inv s \<Longrightarrow> inv t"
  by (induction rule: rtranclp_induct) (auto intro: inv_step)

lemma exclusive: "inv s \<Longrightarrow> inside i s \<Longrightarrow> inside j s \<Longrightarrow> i = j"
  using covered disjoint by blast

lemma exclusive_steps: "step\<^sup>*\<^sup>* s t \<Longrightarrow> inv s \<Longrightarrow> inside i t \<Longrightarrow> inside j t \<Longrightarrow> i = j"
  using inv_steps exclusive by blast

lemma fresh_step:
  assumes "inv s" "step s t" "\<And>i v. snap i s = Some v \<Longrightarrow> v = val s" "snap i t = Some v"
  shows "v = val t"
proof (rule ccontr)
  assume stale: "v \<noteq> val t"
  from snap_new [OF assms(2,4)] stale have old: "snap i s = Some v" by auto
  with assms(3) stale have "val t \<noteq> val s" by auto
  with val_change [OF assms(2)] obtain j where j: "inside j s" "snap j t = None" by blast
  with exclusive [OF assms(1) snap_inside [OF old]] assms(4) show False by auto
qed

lemma no_stale_snapshot:
  "step\<^sup>*\<^sup>* s t \<Longrightarrow> inv s \<Longrightarrow> (\<And>i. snap i s = None) \<Longrightarrow> snap i t = Some v \<Longrightarrow> v = val t"
proof (induction arbitrary: i v rule: rtranclp_induct)
  case (step t u)
  then show ?case using fresh_step [OF inv_steps [OF step.hyps(1)]] by blast
qed simp

end

definition inside :: "nat \<Rightarrow> sys \<Rightarrow> bool" where
  "inside i s \<longleftrightarrow> pcs s i \<noteq> Idle \<and> pcs s i \<noteq> Finished \<and> pcs s i \<noteq> Dead"

definition snap :: "nat \<Rightarrow> sys \<Rightarrow> bytes option option" where
  "snap i s = (case pcs s i of HasRead fd b \<Rightarrow> Some b | _ \<Rightarrow> None)"

definition holds :: "nat \<Rightarrow> sys \<Rightarrow> string set" where
  "holds i s = set (held (procs s i))"

subsection \<open>The functions of the library keep their process in order\<close>

lemma nvram_lock_frame: "nvram_lock path s = Ret fd u \<Longrightarrow> \<exists>h. u = s\<lparr>held := h\<rparr>"
  by (auto simp: nvram_lock_def split: if_splits intro: exI [of _ "held s"])

lemma nvram_unlock_frame: "nvram_unlock fd s = Ret x u \<Longrightarrow> \<exists>h. u = s\<lparr>held := h\<rparr> \<and> set h \<subseteq> set (held s)"
  by (cases fd) (auto intro: exI [of _ "held s"])

lemma set_unlock_frame: "nvram_set_func_unlock name v path s = Ret x u \<Longrightarrow> \<exists>f. u = s\<lparr>files := f\<rparr>"
  by (auto simp: nvram_set_func_unlock_def Let_def sbind_Ret_iff lift_Ret_iff writeFileBin_unlock_def
      split: option.splits if_splits prod.splits intro: exI [of _ "files s"])

lemma set_unlock_frame_halt: "nvram_set_func_unlock name v path s = Halt e u \<Longrightarrow> u = s"
  by (auto simp: nvram_set_func_unlock_def Let_def sbind_def lift_def
      split: option.splits if_splits prod.splits res.splits run.splits)

lemma nvram_lock_takes:
  "nvram_lock path s = Ret fd u \<Longrightarrow> can_lock s (lock_path path) \<Longrightarrow> lock_path path \<in> set (held u)"
  by (auto simp: nvram_lock_def split: if_splits)

lemma nvram_lock_halt: "nvram_lock path s = Halt e u \<Longrightarrow> u = s"
  by (auto simp: nvram_lock_def split: if_splits)

text \<open>Every process can open the lock file, whoever is inside has its lock, and no lock is held twice.\<close>

definition mutex_inv :: "string \<Rightarrow> sys \<Rightarrow> bool" where
  "mutex_inv path s \<longleftrightarrow>
     (\<forall>i. can_lock (procs s i) (lock_path path))
     \<and> (\<forall>i. inside i s \<longrightarrow> lock_path path \<in> holds i s)
     \<and> (\<forall>i j. i \<noteq> j \<longrightarrow> holds i s \<inter> holds j s = {})"

lemma mutex_inv_upd:
  assumes s: "mutex_inv path s" and t: "pcs t = (pcs s)(i := p)" "procs t = (procs s)(i := u)"
    and u: "can_lock u = can_lock (procs s i)" "p \<notin> {Idle, Finished, Dead} \<longrightarrow> lock_path path \<in> set (held u)"
      "\<And>j. j \<noteq> i \<Longrightarrow> set (held u) \<inter> holds j s = {}"
  shows "mutex_inv path t"
  unfolding mutex_inv_def
proof (intro conjI allI impI)
  fix j k
  show "can_lock (procs t j) (lock_path path)" using s u(1) by (simp add: mutex_inv_def t(2))
  show "lock_path path \<in> holds j t" if "inside j t"
    using that s u(2) by (auto simp: mutex_inv_def inside_def holds_def t split: if_splits)
  show "holds j t \<inter> holds k t = {}" if "j \<noteq> k"
    using that s u(3) by (auto simp: mutex_inv_def holds_def t)
qed

lemma kill_proc_simps [simp]:
  "pcs (kill_proc i u s) = (pcs s)(i := Dead)" "procs (kill_proc i u s) = (procs s)(i := u\<lparr>held := []\<rparr>)"
  "disk (kill_proc i u s) = disk s" "written (kill_proc i u s) = written s"
  by (simp_all add: kill_proc_def)

lemma mutex_inv_holds:
  "mutex_inv path s \<Longrightarrow> inside i s \<Longrightarrow> lock_path path \<in> set (held (procs s i))"
  "mutex_inv path s \<Longrightarrow> j \<noteq> i \<Longrightarrow> set (held (procs s i)) \<inter> holds j s = {}"
  by (auto simp: mutex_inv_def holds_def)

lemma mutex_inv_step: "nv_step path job s t \<Longrightarrow> mutex_inv path s \<Longrightarrow> mutex_inv path t"
proof (induction rule: nv_step.induct)
  case (acquire s i fd u)
  from nvram_lock_frame [OF acquire(2)] have "can_lock u = can_lock (procs s i)" by auto
  moreover have "lock_path path \<in> set (held u)"
    using acquire(4) by (intro nvram_lock_takes [OF acquire(2)]) (simp add: mutex_inv_def)
  moreover have "set (held u) \<inter> holds j s = {}" if "j \<noteq> i" for j
    using acquire(3) that by (simp add: lockf_grants_def holds_def)
  ultimately show ?case by (intro mutex_inv_upd [OF acquire(4), of _ i "Locked fd" u]) simp_all
next
  case (lock_crash s i e u)
  then show ?case using nvram_lock_halt [OF lock_crash(2)]
    by (intro mutex_inv_upd [OF lock_crash(3), of _ i Dead "u\<lparr>held := []\<rparr>"]) simp_all
next
  case (read_file s i fd)
  then have "inside i s" by (simp add: inside_def)
  with mutex_inv_holds [OF read_file(2)] show ?case
    by (intro mutex_inv_upd [OF read_file(2), of _ i "HasRead fd (disk s path)" "procs s i"]) simp_all
next
  case (write_file s i fd b x u)
  then have "inside i s" by (simp add: inside_def)
  moreover from set_unlock_frame [OF write_file(2)] obtain f where "u = (procs s i)\<lparr>files := f\<rparr>" by auto
  ultimately show ?case using mutex_inv_holds [OF write_file(3)]
    by (intro mutex_inv_upd [OF write_file(3), of _ i "Written fd" u]) simp_all
next
  case (write_crash s i fd b e u)
  then show ?case using set_unlock_frame_halt [OF write_crash(2)]
    by (intro mutex_inv_upd [OF write_crash(3), of _ i Dead "u\<lparr>held := []\<rparr>"]) simp_all
next
  case (release s i fd x u)
  from nvram_unlock_frame [OF release(2)] obtain h where h: "u = (procs s i)\<lparr>held := h\<rparr>" "set h \<subseteq> set (held (procs s i))" by blast
  then have "set (held u) \<inter> holds j s = {}" if "j \<noteq> i" for j
    using mutex_inv_holds(2) [OF release(3) that] by auto
  with h(1) show ?case by (intro mutex_inv_upd [OF release(3), of _ i Finished u]) simp_all
qed

lemma disk_change: "nv_step path job s t \<Longrightarrow> disk t path = disk s path \<or> (\<exists>j. inside j s \<and> snap j t = None)"
proof (induction rule: nv_step.induct)
  case (write_file s i fd b x u)
  then show ?case by (intro disjI2 exI [of _ i]) (simp add: inside_def snap_def)
qed simp_all

interpretation store_lock: guarded "mutex_inv path" "nv_step path job" inside holds "lock_path path" snap "\<lambda>s. disk s path"
  for path job
proof unfold_locales
  fix s t :: sys and i v
  show "snap i s = Some v \<Longrightarrow> inside i s" by (auto simp: snap_def inside_def split: pc.splits)
  assume st: "nv_step path job s t"
  show "mutex_inv path s \<Longrightarrow> mutex_inv path t" by (rule mutex_inv_step [OF st])
  show "snap i t = Some v \<Longrightarrow> snap i s = Some v \<or> v = disk s path \<and> disk t path = disk s path"
    using st by (cases rule: nv_stepE) (auto simp: snap_def split: if_splits pc.splits)
  show "disk t path = disk s path \<or> (\<exists>j. inside j s \<and> snap j t = None)"
    using st by (rule disk_change)
qed (simp_all add: mutex_inv_def)

lemma reach_steps: "reach path job env fs s \<Longrightarrow> (nv_step path job)\<^sup>*\<^sup>* (start env fs) s"
  by (induction rule: reach.induct) (auto intro: rtranclp.rtrancl_into_rtrancl)

text \<open>Processes that have no locks and can open the lock file.\<close>

definition lockers :: "string \<Rightarrow> (nat \<Rightarrow> nvram) \<Rightarrow> bool" where
  "lockers path env \<longleftrightarrow> (\<forall>i. can_lock (env i) (lock_path path) \<and> held (env i) = [])"

lemma mutex_inv_start: "lockers path env \<Longrightarrow> mutex_inv path (start env fs)"
  by (simp add: mutex_inv_def lockers_def start_def inside_def holds_def)

lemma snap_start: "snap i (start env fs) = None"
  by (simp add: snap_def start_def)

lemma reach_fresh:
  "reach path job env fs s \<Longrightarrow> lockers path env \<Longrightarrow> pcs s i = HasRead fd b \<Longrightarrow> b = disk s path"
  using store_lock.no_stale_snapshot [OF reach_steps mutex_inv_start snap_start, of path job env fs s i b]
  by (simp add: snap_def)

subsection \<open>What the serial order means for the variables\<close>

lemma set_unlock_writes:
  assumes "env_ok path u" "wf_entries es" "nv_okk name" "is_cstr v" "f path = Some (nv_image es)"
  shows "nvram_set_func_unlock name (Some v) path (u\<lparr>files := f\<rparr>) =
    Ret 0 (u\<lparr>files := f(path \<mapsto> nv_image (nv_update name v es))\<rparr>)"
  using set_unlock_eq [of path "u\<lparr>files := f\<rparr>" es name v "held u"] assms by (simp add: env_ok_def stores_def)

definition jobs_ok :: "(nat \<Rightarrow> string \<times> string) \<Rightarrow> bool" where
  "jobs_ok job \<longleftrightarrow> (\<forall>i. nv_okk (fst (job i)) \<and> is_cstr (snd (job i)))"

lemma updates_ok:
  assumes "wf_entries es" "jobs_ok job"
  shows "wf_entries (nvs.updates (map job is) es)"
    "nvs.updates (map job (is @ [i])) es = nv_update (fst (job i)) (snd (job i)) (nvs.updates (map job is) es)"
    "nv_okk name \<Longrightarrow> nv_lookup (nvs.updates (map job is) es) name =
       (case map_of (rev (map job is)) name of Some v \<Rightarrow> Some v | None \<Rightarrow> nv_lookup es name)"
proof -
  have ok: "\<And>k v. (k, v) \<in> set (map job is) \<Longrightarrow> nv_okk k \<and> is_cstr v"
    using assms(2) by (metis ex_map_conv fst_conv jobs_ok_def snd_conv)
  show "wf_entries (nvs.updates (map job is) es)" by (rule nvs.invar_updates [OF assms(1) ok])
  show "nv_okk name \<Longrightarrow> nv_lookup (nvs.updates (map job is) es) name =
       (case map_of (rev (map job is)) name of Some v \<Rightarrow> Some v | None \<Rightarrow> nv_lookup es name)"
    by (rule nvs.lookup_updates [OF assms(1) ok])
  show "nvs.updates (map job (is @ [i])) es = nv_update (fst (job i)) (snd (job i)) (nvs.updates (map job is) es)"
    by (induction "is" arbitrary: es) (cases "job i", simp, case_tac "job a", simp)
qed

text \<open>The file is the result of the calls that have written, one after the other.\<close>

definition serial_inv ::
  "string \<Rightarrow> (nat \<Rightarrow> string \<times> string) \<Rightarrow> string list \<Rightarrow> (string \<Rightarrow> bytes option) \<Rightarrow> sys \<Rightarrow> bool" where
  "serial_inv path job es fs s \<longleftrightarrow>
     disk s = fs(path \<mapsto> nv_image (nvs.updates (map job (written s)) es))
     \<and> distinct (written s) \<and> (\<forall>i. env_ok path (procs s i)) \<and> (\<forall>i. pcs s i \<noteq> Dead)
     \<and> (\<forall>i. i \<in> set (written s) \<longleftrightarrow> (\<exists>fd. pcs s i = Written fd) \<or> pcs s i = Finished)"

lemma env_ok_held [simp]: "env_ok path (u\<lparr>held := h\<rparr>) = env_ok path u" "env_ok path (u\<lparr>files := f\<rparr>) = env_ok path u"
  by (simp_all add: env_ok_def)

lemma write_result:
  assumes s: "serial_inv path job es fs s" and ok: "wf_entries es" "jobs_ok job" and b: "b = disk s path"
  shows "nvram_set_func_unlock (fst (job i)) (Some (snd (job i))) path ((procs s i)\<lparr>files := (disk s)(path := b)\<rparr>) =
      Ret 0 ((procs s i)\<lparr>files := (disk s)(path \<mapsto> nv_image (nvs.updates (map job (written s @ [i])) es))\<rparr>)"
proof -
  have "env_ok path (procs s i)" using s by (simp add: serial_inv_def)
  from set_unlock_writes [OF this updates_ok(1) [OF ok, of "written s"], of "fst (job i)" "snd (job i)" "disk s"] s ok(2) b
  show ?thesis unfolding updates_ok(2) [OF ok] by (simp add: serial_inv_def jobs_ok_def)
qed

lemma serial_inv_step:
  assumes ok: "wf_entries es" "jobs_ok job"
  shows "nv_step path job s t \<Longrightarrow> serial_inv path job es fs s \<Longrightarrow> (\<And>i fd b. pcs s i = HasRead fd b \<Longrightarrow> b = disk s path) \<Longrightarrow>
    serial_inv path job es fs t"
proof (induction rule: nv_step.induct)
  case (acquire s i fd u)
  from nvram_lock_frame [OF acquire(2)] obtain h where "u = (procs s i)\<lparr>held := h\<rparr>" by blast
  with acquire(1,4) show ?case by (auto simp: serial_inv_def split: if_splits)
next
  case (lock_crash s i e u)
  then have "short_path path" by (simp add: serial_inv_def env_ok_def)
  with lock_crash(2) show ?case by (simp add: nvram_lock_Ret split: if_splits)
next
  case (read_file s i fd)
  then show ?case by (auto simp: serial_inv_def split: if_splits)
next
  case (write_file s i fd b x u)
  have u: "u = (procs s i)\<lparr>files := (disk s)(path \<mapsto> nv_image (nvs.updates (map job (written s @ [i])) es))\<rparr>"
    using write_result [OF write_file(3) ok write_file(4) [OF write_file(1)], of i] write_file(2) by simp
  have w: "can_write u path" using write_file(3) by (simp add: u serial_inv_def env_ok_def)
  have "i \<notin> set (written s)" using write_file(1,3) by (simp add: serial_inv_def)
  with write_file(1,3) u w show ?case by (auto simp: serial_inv_def split: if_splits)
next
  case (write_crash s i fd b e u)
  with write_result [OF write_crash(3) ok write_crash(4) [OF write_crash(1)], of i] show ?case by simp
next
  case (release s i fd x u)
  from nvram_unlock_frame [OF release(2)] obtain h where "u = (procs s i)\<lparr>held := h\<rparr>" by blast
  with release(1,3) show ?case by (auto simp: serial_inv_def split: if_splits)
qed

lemma reach_serial:
  assumes "reach path job env fs s" "lockers path env" "\<forall>i. env_ok path (env i)" "wf_entries es" "jobs_ok job"
    "fs path = Some (nv_image es)"
  shows "serial_inv path job es fs s"
  using assms(1)
proof (induction rule: reach.induct)
  case init
  then show ?case using assms(3,6) by (auto simp: serial_inv_def start_def)
next
  case (move s t)
  then show ?case
    using serial_inv_step [OF assms(4,5) move.hyps(2) move.IH] reach_fresh [OF move.hyps(1) assms(2)] by blast
qed

text \<open>A process can make its whole call while nobody is inside.\<close>

lemma whole_call:
  assumes r: "reach path job env fs s" and ok: "lockers path env" "\<forall>i. env_ok path (env i)" "wf_entries es" "jobs_ok job"
      "fs path = Some (nv_image es)"
    and i: "pcs s i = Idle" "\<And>j. j \<noteq> i \<Longrightarrow> held (procs s j) = []"
  shows "\<exists>t. reach path job env fs t \<and> pcs t = (pcs s)(i := Finished) \<and> written t = written s @ [i]
    \<and> (\<forall>j. held (procs t j) = (if j = i then filter (\<lambda>q. q \<noteq> lock_path path) (held (procs s i)) else held (procs s j)))"
proof -
  let ?l = "Some (lock_path path)" and ?p = "(procs s i)\<lparr>held := lock_path path # held (procs s i)\<rparr>"
  note inv = store_lock.inv_steps [OF reach_steps [OF r] mutex_inv_start [OF ok(1)]] reach_serial [OF r ok]
  have "short_path path" "can_lock (procs s i) (lock_path path)"
    using inv ok(2) by (auto simp: mutex_inv_def env_ok_def)
  then have lk: "nvram_lock path (procs s i) = Ret ?l ?p" by (simp add: nvram_lock_Ret)
  define s1 where "s1 = s\<lparr>pcs := (pcs s)(i := Locked ?l), procs := (procs s)(i := ?p)\<rparr>"
  define s2 where "s2 = s1\<lparr>pcs := (pcs s1)(i := HasRead ?l (disk s1 path))\<rparr>"
  have r1: "reach path job env fs s1" unfolding s1_def
    using i by (intro reach.move [OF r] nv_step.acquire [OF i(1) lk]) (simp add: lockf_grants_def)
  have r2: "reach path job env fs s2" unfolding s2_def
    by (intro reach.move [OF r1] nv_step.read_file) (simp add: s1_def)
  define u where "u = (procs s2 i)\<lparr>files := (disk s2)(path \<mapsto> nv_image (nvs.updates (map job (written s2 @ [i])) es))\<rparr>"
  have w: "nvram_set_func_unlock (fst (job i)) (Some (snd (job i))) path
      ((procs s2 i)\<lparr>files := (disk s2)(path := disk s1 path)\<rparr>) = Ret 0 u"
    unfolding u_def by (intro write_result [OF reach_serial [OF r2 ok] ok(3,4)]) (simp add: s2_def)
  have h: "held u = held ?p" by (simp add: u_def s2_def s1_def)
  define s3 where "s3 = s2\<lparr>pcs := (pcs s2)(i := Written ?l), procs := (procs s2)(i := u),
      disk := (if can_write u path then (disk s2)(path := files u path) else disk s2), written := written s2 @ [i]\<rparr>"
  have r3: "reach path job env fs s3" unfolding s3_def
    by (rule reach.move [OF r2], rule nv_step.write_file [where s = s2 and i = i and fd = ?l and b = "disk s1 path" and job = job, OF _ w]) (simp add: s2_def)
  let ?t = "s3\<lparr>pcs := (pcs s3)(i := Finished), procs := (procs s3)(i := u\<lparr>held := filter (\<lambda>q. q \<noteq> lock_path path) (held u)\<rparr>)\<rparr>"
  have "reach path job env fs ?t"
    by (intro reach.move [OF r3] nv_step.release [where fd = ?l]) (simp_all add: s3_def)
  then show ?thesis by (rule exI [of _ ?t, OF conjI]) (simp add: s3_def s2_def s1_def h)
qed

subsection \<open>Properties\<close>

text \<open>
  C17. No two processes are between nvram_lock and nvram_unlock of a store at the same time, in any
  interleaving of their steps, as long as its lock file can be opened; and what the process that is inside has
  read is what the file holds. The steps run the code of nvram_lock, nvram_set and nvram_unlock; of the system it is used that
  lockf does not grant a lock that another process has.
\<close>

theorem store_mutual_exclusion:
  assumes "reach path job env fs s" "lockers path env"
  shows "(\<forall>i j. inside i s \<and> inside j s \<longrightarrow> i = j) \<and> (\<forall>i fd b. pcs s i = HasRead fd b \<longrightarrow> b = disk s path)"
  using store_lock.exclusive_steps [OF reach_steps [OF assms(1)] mutex_inv_start [OF assms(2)]] reach_fresh [OF assms] by blast

definition two_jobs :: "nat \<Rightarrow> string \<times> string" where
  "two_jobs i = (if i = 0 then (''a'', ''1'') else (''b'', ''2''))"

definition sample_fs :: "string \<Rightarrow> bytes option" where
  "sample_fs = [NVRAM_TMP_PATH \<mapsto> nv_image [''a=0'']]"

definition sample_proc :: nvram where
  "sample_proc = sample_nvram\<lparr>held := [], files := sample_fs\<rparr>"

lemma sample_procs_ok:
  "lockers NVRAM_TMP_PATH (\<lambda>_. sample_proc)" "\<forall>i::nat. env_ok NVRAM_TMP_PATH sample_proc"
  "wf_entries [''a=0'']" "jobs_ok two_jobs" "sample_fs NVRAM_TMP_PATH = Some (nv_image [''a=0''])"
  by (simp_all add: lockers_def sample_proc_def sample_defs env_ok_def sample_fs_def two_jobs_def jobs_ok_def nv_okk_def
      short_path_def nv_key_def before_def)

lemma sample_run:
  "\<exists>t. reach NVRAM_TMP_PATH two_jobs (\<lambda>_. sample_proc) sample_fs t \<and> written t = [1, 0] \<and> pcs t 0 = Finished \<and> pcs t 1 = Finished"
proof -
  let ?r = "reach NVRAM_TMP_PATH two_jobs (\<lambda>_. sample_proc) sample_fs"
  have h: "held sample_proc = []" by (simp add: sample_proc_def)
  from whole_call [OF reach.init [of NVRAM_TMP_PATH two_jobs "\<lambda>_. sample_proc" sample_fs] sample_procs_ok, of 1] h obtain s where s: "?r s" "pcs s = (\<lambda>_. Idle)(1 := Finished)"
    "written s = [1]" "\<And>j. held (procs s j) = []" by (auto simp: start_def split: if_splits)
  from whole_call [OF s(1) sample_procs_ok, of 0] s show ?thesis by auto
qed

theorem store_mutual_exclusion_witness:
  "\<exists>s. reach NVRAM_TMP_PATH two_jobs (\<lambda>_. sample_proc) sample_fs s \<and> inside 0 s \<and> \<not> inside 1 s"
proof -
  let ?s = "start (\<lambda>_. sample_proc) sample_fs"
  let ?l = "Some (lock_path NVRAM_TMP_PATH)" and ?p = "sample_proc\<lparr>held := [lock_path NVRAM_TMP_PATH]\<rparr>"
  have "nvram_lock NVRAM_TMP_PATH (procs ?s 0) = Ret ?l ?p" "lockf_grants ?s 0 ?p"
    using sample_procs_ok(1,2) by (simp_all add: start_def nvram_lock_Ret lockers_def env_ok_def lockf_grants_def)
  from reach.move [OF reach.init nv_step.acquire [OF _ this]] obtain t where
    t: "reach NVRAM_TMP_PATH two_jobs (\<lambda>_. sample_proc) sample_fs t" "pcs t 0 = Locked ?l"
    by (simp add: start_def) (metis (no_types, lifting) fun_upd_same sys.select_convs(1))
  then have "inside 0 t" by (simp add: inside_def)
  with store_mutual_exclusion [OF t(1) sample_procs_ok(1)] t(1) show ?thesis by (metis zero_neq_one)
qed

text \<open>
  C3. No update is lost: whatever the interleaving, no call dies, the store is at every moment the result
  of the calls that have written, one after the other in the order of their writes, other files are as
  they were, and a call that has returned is among those that have written. So every variable
  reads as the last value written for it.
\<close>

theorem no_lost_update:
  assumes "reach path job env fs s" "lockers path env" "\<forall>i. env_ok path (env i)" "wf_entries es" "jobs_ok job"
    "fs path = Some (nv_image es)"
  shows "disk s = fs(path \<mapsto> nv_image (nvs.updates (map job (written s)) es))
    \<and> (\<forall>i. pcs s i \<noteq> Dead) \<and> (\<forall>i. pcs s i = Finished \<longrightarrow> i \<in> set (written s)) \<and> distinct (written s)
    \<and> (\<forall>name. nv_okk name \<longrightarrow> nv_find name (the (disk s path)) =
        Ok (case map_of (rev (map job (written s))) name of Some v \<Rightarrow> Some v | None \<Rightarrow> nv_lookup es name))"
proof -
  have inv: "serial_inv path job es fs s" by (rule reach_serial [OF assms])
  moreover have "nv_find name (the (disk s path)) =
      Ok (case map_of (rev (map job (written s))) name of Some v \<Rightarrow> Some v | None \<Rightarrow> nv_lookup es name)"
    if "nv_okk name" for name
    using updates_ok(3) [OF assms(4,5) that]
      nv_find_image [OF updates_ok(1) [OF assms(4,5), of "written s"], of name "[]"] inv by (simp add: serial_inv_def)
  ultimately show ?thesis by (auto simp: serial_inv_def)
qed

theorem no_lost_update_witness:
  "\<exists>s. reach NVRAM_TMP_PATH two_jobs (\<lambda>_. sample_proc) sample_fs s \<and> written s = [1, 0]
    \<and> nv_find ''a'' (the (disk s NVRAM_TMP_PATH)) = Ok (Some ''1'') \<and> nv_find ''b'' (the (disk s NVRAM_TMP_PATH)) = Ok (Some ''2'')"
proof -
  obtain t where t: "reach NVRAM_TMP_PATH two_jobs (\<lambda>_. sample_proc) sample_fs t" "written t = [1, 0]"
    using sample_run by blast
  have "nv_okk ''a''" "nv_okk ''b''" by (simp_all add: nv_okk_def)
  then have "nv_find ''a'' (the (disk t NVRAM_TMP_PATH)) = Ok (Some ''1'')" "nv_find ''b'' (the (disk t NVRAM_TMP_PATH)) = Ok (Some ''2'')"
    using no_lost_update [OF t(1) sample_procs_ok, THEN conjunct2, THEN conjunct2, THEN conjunct2, THEN conjunct2] t(2)
    by (simp_all only: list.simps rev.simps two_jobs_def append.simps) simp_all
  with t show ?thesis by blast
qed

text \<open>
  When the lock file cannot be opened nvram_lock returns -1 and its callers carry on
  unprotected: two concurrent nvram_set calls can then both return while only one of the
  two variables is in the store.
\<close>

definition unlocked_proc :: nvram where
  "unlocked_proc = sample_proc\<lparr>can_lock := (\<lambda>_. False)\<rparr>"

definition unlocked_run :: "sys \<Rightarrow> bool" where
  "unlocked_run s \<longleftrightarrow> reach NVRAM_TMP_PATH two_jobs (\<lambda>_. unlocked_proc) sample_fs s
     \<and> (\<forall>i. \<exists>f. procs s i = unlocked_proc\<lparr>files := f\<rparr>)"

lemma unlocked_lock:
  assumes "unlocked_run s" "pcs s i = Idle"
  shows "\<exists>t. unlocked_run t \<and> pcs t = (pcs s)(i := Locked None) \<and> disk t = disk s"
proof -
  from assms(1) obtain f where f: "procs s i = unlocked_proc\<lparr>files := f\<rparr>" by (auto simp: unlocked_run_def)
  have "short_path NVRAM_TMP_PATH" using sample_procs_ok(2) by (simp add: env_ok_def)
  then have "nvram_lock NVRAM_TMP_PATH (procs s i) = Ret None (procs s i)" by (simp add: f nvram_lock_Ret unlocked_proc_def)
  moreover have "lockf_grants s i (procs s i)" by (simp add: lockf_grants_def f unlocked_proc_def sample_proc_def)
  ultimately have "nv_step NVRAM_TMP_PATH two_jobs s (s\<lparr>pcs := (pcs s)(i := Locked None), procs := (procs s)(i := procs s i)\<rparr>)"
    using assms(2) by (intro nv_step.acquire)
  with assms(1) show ?thesis unfolding unlocked_run_def
    by (intro exI [of _ "s\<lparr>pcs := (pcs s)(i := Locked None)\<rparr>"]) (auto intro: reach.move)
qed

lemma unlocked_read:
  assumes "unlocked_run s" "pcs s i = Locked None"
  shows "\<exists>t. unlocked_run t \<and> pcs t = (pcs s)(i := HasRead None (disk s NVRAM_TMP_PATH)) \<and> disk t = disk s"
  using assms nv_step.read_file [of s i None NVRAM_TMP_PATH two_jobs] unfolding unlocked_run_def
  by (intro exI [of _ "s\<lparr>pcs := (pcs s)(i := HasRead None (disk s NVRAM_TMP_PATH))\<rparr>"]) (auto intro: reach.move)

lemma unlocked_write:
  assumes "unlocked_run s" "pcs s i = HasRead None (Some (nv_image es))" "wf_entries es"
  shows "\<exists>t. unlocked_run t \<and> pcs t = (pcs s)(i := Written None)
    \<and> disk t NVRAM_TMP_PATH = Some (nv_image (nv_update (fst (two_jobs i)) (snd (two_jobs i)) es))"
proof -
  let ?p = NVRAM_TMP_PATH and ?c = "nv_image (nv_update (fst (two_jobs i)) (snd (two_jobs i)) es)"
  from assms(1) obtain f where f: "procs s i = unlocked_proc\<lparr>files := f\<rparr>" by (auto simp: unlocked_run_def)
  have env: "env_ok ?p (procs s i)" using sample_procs_ok(2) by (simp add: f unlocked_proc_def env_ok_def)
  define u where "u = (procs s i)\<lparr>files := (disk s)(?p \<mapsto> ?c)\<rparr>"
  have w: "nvram_set_func_unlock (fst (two_jobs i)) (Some (snd (two_jobs i))) ?p
      ((procs s i)\<lparr>files := (disk s)(?p := Some (nv_image es))\<rparr>) = Ret 0 u"
    using set_unlock_writes [OF env assms(3), of "fst (two_jobs i)" "snd (two_jobs i)" "(disk s)(?p := Some (nv_image es))"]
      sample_procs_ok(4) by (simp add: u_def jobs_ok_def)
  let ?t = "s\<lparr>pcs := (pcs s)(i := Written None), procs := (procs s)(i := u),
      disk := (if can_write u ?p then (disk s)(?p := files u ?p) else disk s), written := written s @ [i]\<rparr>"
  have "can_write u ?p" using env by (simp add: u_def env_ok_def)
  moreover have "nv_step ?p two_jobs s ?t" using assms(2) w by (rule nv_step.write_file)
  ultimately show ?thesis using assms(1) unfolding unlocked_run_def
    by (intro exI [of _ ?t]) (auto intro: reach.move simp: u_def f)
qed

lemma unlocked_release:
  assumes "unlocked_run s" "pcs s i = Written None"
  shows "\<exists>t. unlocked_run t \<and> pcs t = (pcs s)(i := Finished) \<and> disk t = disk s"
proof -
  have "nv_step NVRAM_TMP_PATH two_jobs s (s\<lparr>pcs := (pcs s)(i := Finished), procs := (procs s)(i := procs s i)\<rparr>)"
    using assms(2) by (rule nv_step.release) simp
  with assms(1) show ?thesis unfolding unlocked_run_def
    by (intro exI [of _ "s\<lparr>pcs := (pcs s)(i := Finished)\<rparr>"]) (auto intro: reach.move)
qed

theorem unlocked_update_lost:
  "\<exists>s. reach NVRAM_TMP_PATH two_jobs (\<lambda>_. unlocked_proc) sample_fs s \<and> pcs s 0 = Finished \<and> pcs s 1 = Finished
    \<and> nv_find ''a'' (the (disk s NVRAM_TMP_PATH)) = Ok (Some ''0'')"
proof -
  let ?i = "nv_image [''a=0'']"
  have "unlocked_run (start (\<lambda>_. unlocked_proc) sample_fs)"
    unfolding unlocked_run_def
    by (intro conjI allI reach.init exI [of _ "files unlocked_proc"]) (simp add: start_def)
  from unlocked_lock [OF this, of 0] obtain s1 where "unlocked_run s1" "pcs s1 0 = Locked None" "pcs s1 1 = Idle" "disk s1 = sample_fs"
    by (auto simp: start_def)
  from unlocked_lock [OF this(1,3)] this obtain s2 where "unlocked_run s2" "pcs s2 0 = Locked None" "pcs s2 1 = Locked None" "disk s2 = sample_fs"
    by auto
  from unlocked_read [OF this(1,2)] this obtain s3 where
    "unlocked_run s3" "pcs s3 0 = HasRead None (Some ?i)" "pcs s3 1 = Locked None" "disk s3 = sample_fs" by (auto simp: sample_procs_ok(5))
  from unlocked_read [OF this(1,3)] this obtain s4 where
    "unlocked_run s4" "pcs s4 0 = HasRead None (Some ?i)" "pcs s4 1 = HasRead None (Some ?i)" by (auto simp: sample_procs_ok(5))
  from unlocked_write [OF this(1,2) sample_procs_ok(3)] this obtain s5 where
    "unlocked_run s5" "pcs s5 0 = Written None" "pcs s5 1 = HasRead None (Some ?i)" by auto
  from unlocked_write [OF this(1,3) sample_procs_ok(3)] this obtain s6 where
    s6: "unlocked_run s6" "pcs s6 0 = Written None" "pcs s6 1 = Written None"
    "disk s6 NVRAM_TMP_PATH = Some (nv_image (nv_update ''b'' ''2'' [''a=0'']))" by (auto simp: two_jobs_def)
  from unlocked_release [OF s6(1,2)] s6 obtain s7 where
    s7: "unlocked_run s7" "pcs s7 0 = Finished" "pcs s7 1 = Written None" "disk s7 = disk s6" by auto
  from unlocked_release [OF s7(1,3)] s7 obtain s8 where
    s8: "unlocked_run s8" "pcs s8 0 = Finished" "pcs s8 1 = Finished" "disk s8 = disk s6" by auto
  have "wf_entries (nv_update ''b'' ''2'' [''a=0''])"
    using sample_procs_ok(3) by (intro wf_entries_update) (simp_all add: nv_okk_def)
  then have "nv_find ''a'' (the (disk s8 NVRAM_TMP_PATH)) = Ok (Some ''0'')"
    using nv_find_image [of "nv_update ''b'' ''2'' [''a=0'']" "''a''" "[]"] s6(4) s8(4)
    by (simp add: nv_update_def nv_match_def strneq_def char_at_def)
  with s8 show ?thesis by (auto simp: unlocked_run_def)
qed

end
