(* ===== verification/Nvram_Flash.thy ===== *)
theory Nvram_Flash
  imports Nvram_Store
begin

unbundle bit_operations_syntax

section \<open>The NVRAM flash partition: checksum, load and commit\<close>

text \<open>
  The second half of \<^verbatim>\<open>nvram.c\<close>: the CRC-32 over the store, the header of the flash
  partition, \<^verbatim>\<open>nvram_load\<close> (flash to \<^verbatim>\<open>/tmp/nvram\<close>) and \<^verbatim>\<open>nvram_commit\<close> (the way back).
  \<^verbatim>\<open>unsigned long\<close> is 32 bits wide and big-endian on the router's MIPS processor.
\<close>

subsection \<open>CRC-32\<close>

definition crc_poly :: u32 where "crc_poly = 0xEDB88320"

definition crc_step :: "u32 \<Rightarrow> u32" where
  "crc_step crc = (if crc AND 1 \<noteq> 0 then drop_bit 1 crc XOR crc_poly else drop_bit 1 crc)"

definition crcTable :: "u32 list" where
  "crcTable = map (\<lambda>i. (crc_step ^^ 8) (word_of_nat i)) [0..<256]"

text \<open>\<^verbatim>\<open>(char)*data\<close> is sign-extended when it meets the unsigned long.\<close>

definition schar :: "char \<Rightarrow> u32" where
  "schar c = word_of_int (let b = int (of_char c) in if b < 128 then b else b - 256)"

fun crc_loop :: "u32 \<Rightarrow> bytes \<Rightarrow> u32" where
  "crc_loop crc [] = crc"
| "crc_loop crc (c # cs) =
     crc_loop ((drop_bit 8 crc AND 0x00FFFFFF) XOR crcTable ! unat ((crc XOR schar c) AND 0xFF)) cs"

definition crc32 :: "bytes \<Rightarrow> u32" where
  "crc32 data = crc_loop 0xFFFFFFFF data XOR 0xFFFFFFFF"

subsection \<open>The header\<close>

definition NVRAM_MAGIC :: u32 where "NVRAM_MAGIC = 0x004E4F52"
definition NVRAM_HEADER_SIZE :: nat where "NVRAM_HEADER_SIZE = 40"

definition NVRAM_SUCCESS :: int where "NVRAM_SUCCESS = 0"
definition NVRAM_FLASH_ERR :: int where "NVRAM_FLASH_ERR = 1"
definition NVRAM_MAGIC_ERR :: int where "NVRAM_MAGIC_ERR = 2"
definition NVRAM_LEN_ERR :: int where "NVRAM_LEN_ERR = 3"
definition NVRAM_CRC_ERR :: int where "NVRAM_CRC_ERR = 4"
definition NVRAM_SHADOW_ERR :: int where "NVRAM_SHADOW_ERR = 5"

lemmas err_defs = NVRAM_SUCCESS_def NVRAM_FLASH_ERR_def NVRAM_MAGIC_ERR_def NVRAM_LEN_ERR_def
  NVRAM_CRC_ERR_def NVRAM_SHADOW_ERR_def

record nvram_header =
  h_magic :: u32
  h_len :: u32
  h_crc :: u32

definition u32_bytes :: "u32 \<Rightarrow> bytes" where
  "u32_bytes w = map (\<lambda>k. char_of (unat w div 256 ^ k)) [3, 2, 1, 0]"

definition bytes_u32 :: "bytes \<Rightarrow> u32" where
  "bytes_u32 b = word_of_nat (foldl (\<lambda>acc c. 256 * acc + of_char c) 0 (take 4 b))"

text \<open>The 16 bytes of \<^verbatim>\<open>nvram_header_t\<close>; the last four are the unset \<^verbatim>\<open>reserved\<close>.\<close>

definition header_bytes :: "nvram_header \<Rightarrow> bytes \<Rightarrow> bytes" where
  "header_bytes h junk = u32_bytes (h_magic h) @ u32_bytes (h_len h) @ u32_bytes (h_crc h) @ take 4 (junk @ replicate 4 NUL)"

definition parse_header :: "bytes \<Rightarrow> nvram_header" where
  "parse_header b = \<lparr>h_magic = bytes_u32 b, h_len = bytes_u32 (drop 4 b), h_crc = bytes_u32 (drop 8 b)\<rparr>"

subsection \<open>Load\<close>

text \<open>
  A header that the flash does not hold completely leaves the corresponding fields unset.
  The length is converted to \<^verbatim>\<open>int\<close> for the checksum and for the \<^verbatim>\<open>write\<close>: when that is
  not positive the checksum runs over no byte, and the store is left truncated.
\<close>

definition nvram_load_unlock :: "'z nvram_scheme \<Rightarrow> (int, 'z nvram_scheme) run" where
  "nvram_load_unlock s =
     (case (if can_read s NVRAM_PATH then files s NVRAM_PATH else None) of
        None \<Rightarrow> Ret NVRAM_FLASH_ERR s
      | Some flash \<Rightarrow>
          let h = parse_header flash; n = sint (h_len h)
          in if length flash < 4 then Halt (Crash Uninit_read) s
             else if h_magic h \<noteq> NVRAM_MAGIC then Ret NVRAM_MAGIC_ERR s
             else if length flash < 12 then Halt (Crash Uninit_read) s
             else if 0 < n \<and> \<not> can_alloc s (unat (h_len h + 1)) then Halt (Crash Null_deref) s
             else let data = take (nat n) (drop NVRAM_HEADER_SIZE flash)
                  in if 0 < n \<and> length data < nat n then Halt (Crash Uninit_read) s
                     else if crc32 data \<noteq> h_crc h then Ret NVRAM_CRC_ERR s
                     else Ret NVRAM_SUCCESS (writeFileBin_unlock NVRAM_TMP_PATH data s))"

definition nvram_load :: "'z nvram_scheme \<Rightarrow> (int, 'z nvram_scheme) run" where
  "nvram_load = with_lock NVRAM_TMP_PATH (with_lock NVRAM_PATH nvram_load_unlock)"

subsection \<open>Commit\<close>

text \<open>A \<^verbatim>\<open>write\<close> of \<open>bs\<close> at offset \<open>off\<close>; a gap reads as zero bytes.\<close>

definition overwrite :: "bytes \<Rightarrow> nat \<Rightarrow> bytes \<Rightarrow> bytes" where
  "overwrite f off bs = take off (f @ replicate (off - length f) NUL) @ bs @ drop (off + length bs) f"

text \<open>
  The partition is opened \<^verbatim>\<open>O_WRONLY | O_CREAT\<close>. A \<^verbatim>\<open>read\<close> on a write-only descriptor fails
  and leaves the buffer as it is.
\<close>

definition read_wronly :: "bytes \<Rightarrow> bytes" where
  "read_wronly buffer = buffer"

definition nvram_commit_unlock :: "'z nvram_scheme \<Rightarrow> (int, 'z nvram_scheme) run" where
  "nvram_commit_unlock s =
     (case readFileBin_unlock NVRAM_TMP_PATH s of
        None \<Rightarrow> Ret NVRAM_SHADOW_ERR s
      | Some data \<Rightarrow>
          if data = [] then Ret NVRAM_SHADOW_ERR s
          else
            let h = \<lparr>h_magic = NVRAM_MAGIC, h_len = word_of_nat (length data), h_crc = crc32 data\<rparr>
            in if \<not> can_write s NVRAM_PATH then Ret NVRAM_FLASH_ERR s
               else
                 let f0 = (case files s NVRAM_PATH of None \<Rightarrow> [] | Some f \<Rightarrow> f);
                     f1 = overwrite f0 0 (flash_put s (header_bytes h (header_junk s)));
                     f2 = overwrite f1 NVRAM_HEADER_SIZE (flash_put s data);
                     s' = s\<lparr>files := (files s)(NVRAM_PATH \<mapsto> f2)\<rparr>;
                     data' = read_wronly data
                 in if h_crc h \<noteq> crc32 data' then Ret NVRAM_FLASH_ERR s'
                    else Ret NVRAM_SUCCESS (s'\<lparr>cwmp_signals := Suc (cwmp_signals s')\<rparr>))"

definition nvram_commit :: "'z nvram_scheme \<Rightarrow> (int, 'z nvram_scheme) run" where
  "nvram_commit = with_lock NVRAM_TMP_PATH (with_lock NVRAM_PATH nvram_commit_unlock)"

subsection \<open>The table agrees with the bit-by-bit checksum\<close>

text \<open>
  The reference: xor the byte in, then shift eight times. One step is linear over
  exclusive or, and eight steps on a word with no low bits are a plain shift, which is
  what makes the table lookup equal to eight steps.
\<close>

fun crc_ref :: "u32 \<Rightarrow> bytes \<Rightarrow> u32" where
  "crc_ref crc [] = crc"
| "crc_ref crc (c # cs) = crc_ref ((crc_step ^^ 8) (crc XOR word_of_nat (of_char c))) cs"

lemma and_1_ne_0: "(w AND 1 \<noteq> 0) = bit w 0" for w :: u32
  by (simp add: and_one_eq odd_iff_mod_2_eq_one bit_0)

lemma crc_step_alt: "crc_step w = drop_bit 1 w XOR (if bit w 0 then crc_poly else 0)"
  by (simp add: crc_step_def and_1_ne_0)

lemma crc_step_xor: "crc_step (a XOR b) = crc_step a XOR crc_step b"
  by (auto simp: crc_step_alt bit_xor_iff drop_bit_xor xor.assoc xor.left_commute xor.commute)

lemma crc_steps_xor: "(crc_step ^^ n) (a XOR b) = (crc_step ^^ n) a XOR (crc_step ^^ n) b"
  by (induction n) (simp_all add: crc_step_xor)

lemma crc_steps_high:
  "(\<forall>i<n. \<not> bit w i) \<Longrightarrow> (crc_step ^^ n) w = drop_bit n w"
proof (induction n)
  case (Suc n)
  then have IH: "(crc_step ^^ n) w = drop_bit n w" by simp
  have "\<not> bit (drop_bit n w) 0" using Suc.prems by (simp add: bit_drop_bit_eq)
  then have "crc_step (drop_bit n w) = drop_bit (Suc n) w"
    by (simp add: crc_step_alt drop_bit_drop_bit)
  with IH show ?case by simp
qed simp

lemma mask8: "(0xFF :: u32) = mask 8"
  by (simp add: mask_eq_exp_minus_1)

lemma mask24: "(0x00FFFFFF :: u32) = mask 24"
  by (simp add: mask_eq_exp_minus_1)

lemma low_byte_split: "w = (w AND NOT (mask 8)) XOR (w AND mask 8)" for w :: u32
  by (rule bit_eqI) (auto simp: bit_xor_iff bit_and_iff bit_not_iff bit_mask_iff)

lemma unat_low_byte: "unat (w AND mask 8) < 256" for w :: u32
proof -
  have "unat (take_bit 8 w) < 2 ^ 8"
    using take_bit_nat_less_exp [of 8 "unat w"] by (simp add: unsigned_take_bit_eq)
  then show ?thesis by (simp add: take_bit_eq_mask)
qed

lemma crcTable_nth: "i < 256 \<Longrightarrow> crcTable ! i = (crc_step ^^ 8) (word_of_nat i)"
  by (simp add: crcTable_def)

lemma crc_steps8: "(crc_step ^^ 8) w = drop_bit 8 w XOR crcTable ! unat (w AND mask 8)"
proof -
  have "(crc_step ^^ 8) w = (crc_step ^^ 8) (w AND NOT (mask 8)) XOR (crc_step ^^ 8) (w AND mask 8)"
    by (subst low_byte_split) (rule crc_steps_xor)
  moreover have "(crc_step ^^ 8) (w AND NOT (mask 8)) = drop_bit 8 (w AND NOT (mask 8))"
    by (rule crc_steps_high) (simp add: bit_and_iff bit_not_iff bit_mask_iff)
  moreover have "drop_bit 8 (w AND NOT (mask 8)) = drop_bit 8 w"
    by (rule bit_eqI) (auto simp: bit_drop_bit_eq bit_and_iff bit_not_iff bit_mask_iff dest: bit_imp_le_length)
  moreover have "(crc_step ^^ 8) (w AND mask 8) = crcTable ! unat (w AND mask 8)"
    using unat_low_byte [of w] by (simp add: crcTable_nth)
  ultimately show ?thesis by simp
qed

lemma bit_byte_high: "b < 256 \<Longrightarrow> 8 \<le> n \<Longrightarrow> \<not> bit (b :: nat) n"
proof -
  assume "b < 256" "8 \<le> n"
  have "(256 :: nat) = 2 ^ 8" by simp
  also have "\<dots> \<le> 2 ^ n" using \<open>8 \<le> n\<close> by (intro power_increasing) simp_all
  finally have "b < 2 ^ n" using \<open>b < 256\<close> by simp
  then show ?thesis by (simp add: bit_iff_odd)
qed

lemma bit_u32_byte: "bit (word_of_nat (of_char c) :: u32) n = (n < 8 \<and> bit (of_char c :: nat) n)"
proof -
  have "bit (word_of_int (int (of_char c)) :: u32) n = (n < 32 \<and> bit (of_char c :: nat) n)"
    by (simp only: bit_word_of_int_iff bit_of_nat_iff_bit) simp
  then show ?thesis
    using bit_byte_high [of "of_char c" n] by (cases "n < 8") auto
qed

lemma schar_low: "schar c AND mask 8 = word_of_nat (of_char c)"
proof (rule bit_eqI)
  fix n
  let ?b = "of_char c :: nat"
  have "bit (int ?b - 256) n = bit ?b n" if "n < 8"
  proof -
    have "take_bit 8 (int ?b - 256) = take_bit 8 (int ?b)"
      by (simp add: take_bit_eq_mod)
    with that show ?thesis by (metis bit_of_nat_iff_bit bit_take_bit_iff)
  qed
  then show "bit (schar c AND mask 8) n = bit (word_of_nat ?b :: u32) n"
    unfolding schar_def Let_def bit_u32_byte bit_and_iff bit_mask_iff bit_word_of_int_iff
    by (auto simp: bit_of_nat_iff_bit)
qed

lemma crc_loop_ref: "crc_loop w data = crc_ref w data"
proof (induction data arbitrary: w)
  case (Cons c cs)
  have "(w XOR schar c) AND mask 8 = (w XOR word_of_nat (of_char c)) AND mask 8"
  proof -
    have "(w XOR schar c) AND mask 8 = (w AND mask 8) XOR (schar c AND mask 8)"
      by (simp add: bit.conj_xor_distrib2)
    moreover have "(word_of_nat (of_char c) :: u32) AND mask 8 = word_of_nat (of_char c)"
      by (rule bit_eqI) (auto simp: bit_and_iff bit_mask_iff bit_u32_byte)
    ultimately show ?thesis by (simp add: schar_low bit.conj_xor_distrib2)
  qed
  moreover have "drop_bit 8 w AND mask 24 = drop_bit 8 (w XOR word_of_nat (of_char c))"
    by (rule bit_eqI) (auto simp: bit_and_iff bit_mask_iff bit_drop_bit_eq bit_xor_iff bit_u32_byte
        dest: bit_imp_le_length)
  ultimately have "(drop_bit 8 w AND 0x00FFFFFF) XOR crcTable ! unat ((w XOR schar c) AND 0xFF) =
      (crc_step ^^ 8) (w XOR word_of_nat (of_char c))"
    by (simp only: mask8 mask24 crc_steps8)
  with Cons show ?case by simp
qed simp

subsection \<open>A single damaged byte always changes the checksum\<close>

lemma xor_left_cancel: "w XOR a = w XOR b \<Longrightarrow> a = b" for w :: u32
  by (metis xor.assoc xor.left_neutral xor_self_eq)

lemma xor_right_cancel: "a XOR w = b XOR w \<Longrightarrow> a = b" for w :: u32
  by (metis xor.commute xor_left_cancel)

lemma crc_step_inj: "crc_step a = crc_step b \<Longrightarrow> a = b"
proof -
  assume eq: "crc_step a = crc_step b"
  have "\<not> bit w 32" for w :: u32 by (auto dest: bit_imp_le_length)
  then have "bit (crc_step w) 31 = bit w 0" for w
    by (simp add: crc_step_alt bit_xor_iff bit_drop_bit_eq crc_poly_def)
  with eq have b0: "bit a 0 = bit b 0" by metis
  with eq have d: "drop_bit 1 a = drop_bit 1 b"
    by (auto simp: crc_step_alt split: if_splits dest: xor_right_cancel)
  show "a = b"
  proof (rule bit_eqI)
    fix n
    show "bit a n = bit b n"
    proof (cases n)
      case 0
      with b0 show ?thesis by simp
    next
      case (Suc m)
      from d have "bit (drop_bit 1 a) m = bit (drop_bit 1 b) m" by simp
      with Suc show ?thesis by (simp add: bit_drop_bit_eq)
    qed
  qed
qed

lemma crc_steps_inj: "(crc_step ^^ n) a = (crc_step ^^ n) b \<Longrightarrow> a = b"
  by (induction n) (auto dest: crc_step_inj)

lemma crc_ref_inj: "crc_ref a cs = crc_ref b cs \<Longrightarrow> a = b"
proof (induction cs arbitrary: a b)
  case (Cons c cs)
  then have "a XOR word_of_nat (of_char c) = b XOR word_of_nat (of_char c)"
    using crc_steps_inj by (metis crc_ref.simps(2))
  then show ?case by (rule xor_right_cancel)
qed simp

lemma crc_ref_append: "crc_ref w (xs @ ys) = crc_ref (crc_ref w xs) ys"
  by (induction xs arbitrary: w) simp_all

lemma word_of_byte_inj: "(word_of_nat (of_char c) :: u32) = word_of_nat (of_char d) \<Longrightarrow> c = d"
proof -
  assume "(word_of_nat (of_char c) :: u32) = word_of_nat (of_char d)"
  then have "bit (of_char c :: nat) n = bit (of_char d :: nat) n" for n
    using bit_u32_byte bit_byte_high by (metis nat_of_char_less_256 not_less)
  then have "(of_char c :: nat) = of_char d" by (rule bit_eqI)
  then show ?thesis by simp
qed

lemma crc_ref_change: "c \<noteq> d \<Longrightarrow> crc_ref w (xs @ c # ys) \<noteq> crc_ref w (xs @ d # ys)"
proof
  assume "c \<noteq> d" "crc_ref w (xs @ c # ys) = crc_ref w (xs @ d # ys)"
  then have "(crc_step ^^ 8) (crc_ref w xs XOR word_of_nat (of_char c)) =
      (crc_step ^^ 8) (crc_ref w xs XOR word_of_nat (of_char d))"
    by (auto simp: crc_ref_append dest: crc_ref_inj)
  then have "c = d" by (blast dest: crc_steps_inj xor_left_cancel word_of_byte_inj)
  with \<open>c \<noteq> d\<close> show False by contradiction
qed

lemma crc32_change: "c \<noteq> d \<Longrightarrow> crc32 (xs @ c # ys) \<noteq> crc32 (xs @ d # ys)"
  using crc_ref_change [of c d _ xs ys] by (auto simp: crc32_def crc_loop_ref dest: xor_right_cancel)

subsection \<open>The header survives the flash\<close>

lemma four_digits:
  "256 * (256 * (256 * (n div 16777216) + n div 65536 mod 256) + n div 256 mod 256) + n mod 256 = (n :: nat)"
proof -
  have "n div 16777216 = n div 256 div 256 div 256" "n div 65536 = n div 256 div 256"
    by (simp_all add: div_mult2_eq [symmetric])
  then show ?thesis by simp
qed

lemma bytes_u32_bytes [simp]: "bytes_u32 (u32_bytes w @ rest) = w"
proof -
  have "unat w < 2 ^ 32" using unsigned_less [of w] by simp
  then have "unat w div 16777216 mod 256 = unat w div 16777216" by simp
  with four_digits [of "unat w"]
  have "foldl (\<lambda>acc c. 256 * acc + of_char c) 0 (take 4 (u32_bytes w @ rest)) = unat w"
    by (simp add: u32_bytes_def)
  then show ?thesis unfolding bytes_u32_def by (simp only: of_nat_unat ucast_id)
qed

lemma length_u32_bytes [simp]: "length (u32_bytes w) = 4"
  by (simp add: u32_bytes_def)

lemma length_header_bytes [simp]: "length (header_bytes h j) = 16"
  by (simp add: header_bytes_def)

lemma parse_header_bytes [simp]: "parse_header (header_bytes h j @ rest) = h"
  by (simp add: parse_header_def header_bytes_def)

lemma overwrite_0: "overwrite f 0 b = b @ drop (length b) f"
  by (simp add: overwrite_def)

lemma overwrite_at:
  "drop off (overwrite f off b) = b @ drop (off + length b) f"
  "take off (overwrite f off b) = take off (f @ replicate (off - length f) NUL)"
  by (auto simp: overwrite_def)

lemma committed_flash:
  assumes "length hdr = 16"
  shows "\<exists>gap rest. overwrite (overwrite f 0 hdr) NVRAM_HEADER_SIZE data = hdr @ gap @ data @ rest
    \<and> length gap = 24"
proof -
  let ?g = "overwrite f 0 hdr"
  let ?pad = "?g @ replicate (40 - length ?g) NUL"
  have "take 40 ?pad = hdr @ take 24 (drop 16 f @ replicate (40 - length ?g) NUL)"
    using assms by (simp add: overwrite_0)
  moreover have "length (take 24 (drop 16 f @ replicate (40 - length ?g) NUL)) = 24"
    using assms by (simp add: overwrite_0)
  ultimately show ?thesis
    unfolding overwrite_def [of ?g] NVRAM_HEADER_SIZE_def by (metis append.assoc)
qed

subsection \<open>Commit and load as equations\<close>

lemma flash_not_tmp [simp]: "NVRAM_PATH \<noteq> NVRAM_TMP_PATH" "NVRAM_TMP_PATH \<noteq> NVRAM_PATH"
  by (simp_all add: NVRAM_PATH_def NVRAM_TMP_PATH_def)

lemma short_paths [simp]: "short_path NVRAM_TMP_PATH" "short_path NVRAM_PATH"
  by (simp_all add: short_path_def NVRAM_TMP_PATH_def NVRAM_PATH_def PATH_MAX_def)

text \<open>The flash image that \<^verbatim>\<open>nvram_commit\<close> produces from the store \<open>data\<close> in the state \<open>s\<close>.\<close>

definition commit_image :: "'z nvram_scheme \<Rightarrow> bytes \<Rightarrow> bytes" where
  "commit_image s data =
     overwrite
       (overwrite (case files s NVRAM_PATH of None \<Rightarrow> [] | Some f \<Rightarrow> f) 0
         (flash_put s (header_bytes
           \<lparr>h_magic = NVRAM_MAGIC, h_len = word_of_nat (length data), h_crc = crc32 data\<rparr> (header_junk s))))
       NVRAM_HEADER_SIZE (flash_put s data)"

lemma commit_unlock_eq:
  assumes "readFileBin_unlock NVRAM_TMP_PATH s = Some data" "data \<noteq> []" "can_write s NVRAM_PATH"
  shows "nvram_commit_unlock (s\<lparr>held := h\<rparr>) =
    Ret NVRAM_SUCCESS (s\<lparr>files := (files s)(NVRAM_PATH \<mapsto> commit_image s data),
      cwmp_signals := Suc (cwmp_signals s), held := h\<rparr>)"
  using assms by (simp add: nvram_commit_unlock_def commit_image_def read_wronly_def Let_def)

text \<open>The lock bracket of both functions.\<close>

lemma with_locks_Ret:
  assumes "\<And>h. m (s\<lparr>held := h\<rparr>) = Ret x (t\<lparr>held := h\<rparr>)"
  shows "\<exists>h. with_lock NVRAM_TMP_PATH (with_lock NVRAM_PATH m) s = Ret x (t\<lparr>held := h\<rparr>)"
proof -
  have inner: "\<exists>h'. with_lock NVRAM_PATH m (s\<lparr>held := h\<rparr>) = Ret x (t\<lparr>held := h'\<rparr>)" for h
    using with_lock_Ret [of NVRAM_PATH m "s\<lparr>held := h\<rparr>" x t] assms by auto
  show ?thesis
  proof (cases "can_lock s (lock_path NVRAM_TMP_PATH)")
    case True
    with inner [of "lock_path NVRAM_TMP_PATH # held s"] show ?thesis
      by (auto simp: with_lock_def [of NVRAM_TMP_PATH] nvram_lock_Ret)
  next
    case False
    with inner [of "held s"] show ?thesis
      by (auto simp: with_lock_def [of NVRAM_TMP_PATH] nvram_lock_Ret)
  qed
qed

lemma commit_eq:
  assumes "readFileBin_unlock NVRAM_TMP_PATH s = Some data" "data \<noteq> []" "can_write s NVRAM_PATH"
  obtains h where "nvram_commit s =
    Ret NVRAM_SUCCESS (s\<lparr>files := (files s)(NVRAM_PATH \<mapsto> commit_image s data),
      cwmp_signals := Suc (cwmp_signals s), held := h\<rparr>)"
  using with_locks_Ret [of nvram_commit_unlock s NVRAM_SUCCESS
      "s\<lparr>files := (files s)(NVRAM_PATH \<mapsto> commit_image s data), cwmp_signals := Suc (cwmp_signals s)\<rparr>"]
    commit_unlock_eq [OF assms]
  by (auto simp: nvram_commit_def)

lemma sint_len: "n < 2 ^ 31 \<Longrightarrow> sint (word_of_nat n :: u32) = int n"
  by (simp add: signed_of_nat signed_take_bit_int_eq_self)

text \<open>Loading a flash image with an intact header: only the checksum decides.\<close>

lemma load_unlock_eq:
  assumes flash: "files s NVRAM_PATH = Some (header_bytes h j @ gap @ data @ rest)" "length gap = 24"
    and h: "h_magic h = NVRAM_MAGIC" "h_len h = word_of_nat (length data)"
    and env: "can_read s NVRAM_PATH" "can_alloc s = (\<lambda>_. True)"
    and len: "0 < length data" "length data < 2 ^ 31"
  shows "nvram_load_unlock (s\<lparr>held := hl\<rparr>) =
    (if crc32 data = h_crc h then Ret NVRAM_SUCCESS ((writeFileBin_unlock NVRAM_TMP_PATH data s)\<lparr>held := hl\<rparr>)
     else Ret NVRAM_CRC_ERR (s\<lparr>held := hl\<rparr>))"
proof -
  let ?f = "header_bytes h j @ gap @ data @ rest"
  have p: "parse_header ?f = h" by simp
  have n: "sint (h_len h) = int (length data)" using h len by (simp add: sint_len)
  have d: "take (length data) (drop NVRAM_HEADER_SIZE ?f) = data"
    using flash(2) by (simp add: NVRAM_HEADER_SIZE_def)
  show ?thesis
    using flash h env len p n d by (simp add: nvram_load_unlock_def Let_def)
qed

lemma commit_image_split:
  assumes "flash_put s = id"
  obtains gap rest where "commit_image s data = header_bytes
      \<lparr>h_magic = NVRAM_MAGIC, h_len = word_of_nat (length data), h_crc = crc32 data\<rparr> (header_junk s)
      @ gap @ data @ rest" "length gap = 24"
  using committed_flash [OF length_header_bytes] assms by (auto simp: commit_image_def) metis

lemma load_eq:
  assumes flash: "files s NVRAM_PATH = Some (header_bytes h j @ gap @ data @ rest)" "length gap = 24"
    and h: "h_magic h = NVRAM_MAGIC" "h_len h = word_of_nat (length data)"
    and env: "can_read s NVRAM_PATH" "can_alloc s = (\<lambda>_. True)"
    and len: "0 < length data" "length data < 2 ^ 31"
  shows "\<exists>hl. nvram_load s =
    (if crc32 data = h_crc h then Ret NVRAM_SUCCESS ((writeFileBin_unlock NVRAM_TMP_PATH data s)\<lparr>held := hl\<rparr>)
     else Ret NVRAM_CRC_ERR (s\<lparr>held := hl\<rparr>))"
proof (cases "crc32 data = h_crc h")
  case True
  with load_unlock_eq [OF assms] have
    "nvram_load_unlock (s\<lparr>held := hl\<rparr>) = Ret NVRAM_SUCCESS ((writeFileBin_unlock NVRAM_TMP_PATH data s)\<lparr>held := hl\<rparr>)" for hl
    by simp
  from with_locks_Ret [OF this] True show ?thesis by (simp add: nvram_load_def)
next
  case False
  with load_unlock_eq [OF assms] have
    "nvram_load_unlock (s\<lparr>held := hl\<rparr>) = Ret NVRAM_CRC_ERR (s\<lparr>held := hl\<rparr>)" for hl
    by simp
  from with_locks_Ret [OF this] False show ?thesis by (simp add: nvram_load_def)
qed

lemma with_lock_files:
  assumes "with_lock p m s = Ret x t"
    and "\<And>s' t'. files s' = files s \<Longrightarrow> m s' = Ret x t' \<Longrightarrow> files t' = files s"
  shows "files t = files s"
proof -
  from assms(1) obtain fd s1 s2 where
    "nvram_lock p s = Ret fd s1" "m s1 = Ret x s2" "nvram_unlock fd s2 = Ret () t"
    by (auto simp: with_lock_def sbind_Ret_iff)
  moreover from this(1) have "files s1 = files s"
    by (auto simp: nvram_lock_def split: if_splits)
  moreover from \<open>nvram_unlock fd s2 = Ret () t\<close> have "files t = files s2"
    by (auto simp: nvram_unlock_def split: option.splits)
  ultimately show ?thesis using assms(2) by metis
qed

subsection \<open>Properties\<close>

text \<open>
  C15. The table-driven CRC-32 of nvram.c equals the bit-by-bit CRC-32 with the reflected
  polynomial 0xEDB88320, for every sequence of bytes, negative chars included.
\<close>

theorem crc32_table_equals_bitwise: "crc32 data = crc_ref 0xFFFFFFFF data XOR 0xFFFFFFFF"
  by (simp add: crc32_def crc_loop_ref)

text \<open>
  C2. What nvram_commit writes to flash, nvram_load brings back: after a successful commit
  any later state that still has that flash contents (for instance after a reboot, with an
  empty /tmp) loads successfully and gets the very store that was committed.
\<close>

theorem commit_then_load:
  assumes "readFileBin_unlock NVRAM_TMP_PATH s = Some data" "data \<noteq> []" "length data < 2 ^ 31"
    "can_write s NVRAM_PATH" "flash_put s = id"
  shows "\<exists>t. nvram_commit s = Ret NVRAM_SUCCESS t \<and>
    (\<forall>u. files u NVRAM_PATH = files t NVRAM_PATH \<and> can_read u NVRAM_PATH \<and> can_write u NVRAM_TMP_PATH
         \<and> can_alloc u = (\<lambda>_. True) \<longrightarrow>
      (\<exists>v. nvram_load u = Ret NVRAM_SUCCESS v \<and> files v NVRAM_TMP_PATH = Some data))"
proof -
  from commit_eq [OF assms(1,2,4)] obtain h where c: "nvram_commit s =
    Ret NVRAM_SUCCESS (s\<lparr>files := (files s)(NVRAM_PATH \<mapsto> commit_image s data),
      cwmp_signals := Suc (cwmp_signals s), held := h\<rparr>)" by metis
  from commit_image_split [OF assms(5)] obtain gap rest where
    im: "commit_image s data = header_bytes
      \<lparr>h_magic = NVRAM_MAGIC, h_len = word_of_nat (length data), h_crc = crc32 data\<rparr> (header_junk s)
      @ gap @ data @ rest" "length gap = 24" by metis
  have "\<exists>v. nvram_load u = Ret NVRAM_SUCCESS v \<and> files v NVRAM_TMP_PATH = Some data"
    if u: "files u NVRAM_PATH = Some (commit_image s data)" "can_read u NVRAM_PATH"
      "can_write u NVRAM_TMP_PATH" "can_alloc u = (\<lambda>_. True)" for u :: "'b nvram_scheme"
    using load_eq [OF u(1) [unfolded im(1)] im(2) _ _ u(2,4)] assms(2,3) u(3)
    by (auto simp: writeFileBin_unlock_def)
  with c show ?thesis by simp
qed

theorem commit_then_load_witness:
  "\<exists>t. nvram_commit sample_nvram = Ret NVRAM_SUCCESS t \<and>
    (\<exists>v. nvram_load (t\<lparr>files := (files t)(NVRAM_TMP_PATH := None)\<rparr>) = Ret NVRAM_SUCCESS v
      \<and> files v NVRAM_TMP_PATH = Some (nv_image [''lan_if=br0'', ''wan_mode=1'']))"
proof -
  have r: "readFileBin_unlock NVRAM_TMP_PATH sample_nvram = Some (nv_image [''lan_if=br0'', ''wan_mode=1''])"
    by (simp add: readFileBin_unlock_def sample_defs)
  have c: "can_write sample_nvram NVRAM_PATH" "flash_put sample_nvram = id"
    by (simp_all add: sample_nvram_def)
  obtain t where t: "nvram_commit sample_nvram = Ret NVRAM_SUCCESS t"
    "\<And>u :: nvram. files u NVRAM_PATH = files t NVRAM_PATH \<and> can_read u NVRAM_PATH
       \<and> can_write u NVRAM_TMP_PATH \<and> can_alloc u = (\<lambda>_. True) \<Longrightarrow>
      \<exists>v. nvram_load u = Ret NVRAM_SUCCESS v
        \<and> files v NVRAM_TMP_PATH = Some (nv_image [''lan_if=br0'', ''wan_mode=1''])"
    using commit_then_load [where ?'b = unit, OF r _ _ c] by auto
  from commit_eq [OF r _ c(1)] t(1) obtain h where
    "t = sample_nvram\<lparr>files := (files sample_nvram)(NVRAM_PATH \<mapsto> commit_image sample_nvram (nv_image [''lan_if=br0'', ''wan_mode=1''])),
      cwmp_signals := Suc (cwmp_signals sample_nvram), held := h\<rparr>" by auto
  then show ?thesis using t
    by (intro exI [of _ t]) (simp add: sample_nvram_def)
qed

text \<open>
  C16. A single damaged byte anywhere in the committed data is always found: nvram_load
  then returns NVRAM_CRC_ERR and leaves every file as it was.
\<close>

theorem load_rejects_damaged_byte:
  assumes "c \<noteq> d" "length xs + length ys + 1 < 2 ^ 31" "length gap = 24"
    "can_read s NVRAM_PATH" "can_alloc s = (\<lambda>_. True)"
    "files s NVRAM_PATH = Some (header_bytes
      \<lparr>h_magic = NVRAM_MAGIC, h_len = word_of_nat (length (xs @ c # ys)), h_crc = crc32 (xs @ c # ys)\<rparr> j
      @ gap @ (xs @ d # ys) @ rest)"
  shows "\<exists>t. nvram_load s = Ret NVRAM_CRC_ERR t \<and> files t = files s"
  using load_eq [OF assms(6,3) _ _ assms(4,5)] assms(2) crc32_change [of d c xs ys] assms(1) by auto

theorem load_rejects_damaged_byte_witness:
  "\<exists>t. nvram_load (sample_nvram\<lparr>files := [NVRAM_PATH \<mapsto> header_bytes
      \<lparr>h_magic = NVRAM_MAGIC, h_len = word_of_nat (length ''a=1''), h_crc = crc32 ''a=1''\<rparr> []
      @ replicate 24 NUL @ ''a=2'']\<rparr>) = Ret NVRAM_CRC_ERR t"
  using load_rejects_damaged_byte [of "CHR ''1''" "CHR ''2''" "''a=''" "[]" "replicate 24 NUL"
      "sample_nvram\<lparr>files := [NVRAM_PATH \<mapsto> header_bytes
      \<lparr>h_magic = NVRAM_MAGIC, h_len = word_of_nat (length ''a=1''), h_crc = crc32 ''a=1''\<rparr> []
      @ replicate 24 NUL @ ''a=2'']\<rparr>" "[]" "[]"]
  by (auto simp: sample_nvram_def)

text \<open>
  nvram_load changes no file unless it reports success: with every error code the
  store in /tmp is left alone.
\<close>

theorem load_error_keeps_files:
  assumes "nvram_load s = Ret err t" "err \<noteq> NVRAM_SUCCESS"
  shows "files t = files s"
proof -
  have inner: "files t' = files s" if "files s' = files s" "nvram_load_unlock s' = Ret err t'" for s' t'
    using that assms(2) by (auto simp: nvram_load_unlock_def Let_def split: option.splits if_splits)
  show ?thesis
    using assms(1) unfolding nvram_load_def
    by (rule with_lock_files) (metis inner with_lock_files)
qed

theorem load_error_keeps_files_witness:
  "\<exists>t. nvram_load (sample_nvram\<lparr>can_lock := \<lambda>_. False\<rparr>) = Ret NVRAM_FLASH_ERR t \<and> files t = files sample_nvram"
proof -
  let ?s = "sample_nvram\<lparr>can_lock := \<lambda>_. False\<rparr>"
  have l: "nvram_load ?s = Ret NVRAM_FLASH_ERR ?s"
    by (simp add: nvram_load_def with_lock_def nvram_lock_def nvram_load_unlock_def sample_defs)
  have "files ?s = files ?s"
    by (rule load_error_keeps_files [OF l]) (simp add: err_defs)
  with l show ?thesis by simp
qed

text \<open>
  nvram_commit reports NVRAM_SUCCESS whatever the flash made of the bytes written to
  it: the check that reads the data back works on a descriptor that is open for writing
  only, so it compares the buffer with itself.
\<close>

theorem commit_check_is_vacuous:
  assumes "readFileBin_unlock NVRAM_TMP_PATH s = Some data" "data \<noteq> []" "can_write s NVRAM_PATH"
  shows "\<exists>t. nvram_commit (s\<lparr>flash_put := put\<rparr>) = Ret NVRAM_SUCCESS t"
proof -
  have "readFileBin_unlock NVRAM_TMP_PATH (s\<lparr>flash_put := put\<rparr>) = Some data"
    using assms(1) by (auto simp: readFileBin_unlock_def split: option.splits if_splits)
  from commit_eq [OF this assms(2)] assms(3) show ?thesis by auto
qed

theorem commit_check_is_vacuous_witness:
  "\<exists>t. nvram_commit (sample_nvram\<lparr>flash_put := \<lambda>b. replicate (length b) NUL\<rparr>) = Ret NVRAM_SUCCESS t"
  by (rule commit_check_is_vacuous [of _ "nv_image [''lan_if=br0'', ''wan_mode=1'']"])
    (simp_all add: readFileBin_unlock_def sample_defs)

end
