(* ===== verification/Nvram_Cache.thy ===== *)
theory Nvram_Cache
  imports Nvram_Flash
begin

section \<open>The cache of NVRAM variables\<close>

text \<open>
  \<^verbatim>\<open>page-server/nvram_cache.c\<close>: variables are read once, those whose value holds the characters
  1 and 2 are split into rows and cells, pages read and change texts and cells, and the
  changed variables are put together again and written back. A row of \<open>ce_data\<close> has as many
  cells as memory was allocated for, so an access outside it is seen.
\<close>

subsection \<open>Data\<close>

datatype nvram_entry_type =
    NVRAM_ENTRY_TYPE_UNKNOWN | NVRAM_ENTRY_TYPE_TEXT | NVRAM_ENTRY_TYPE_ARRAY

record nvram_entry =
  ce_name :: string
  ce_value :: cptr
  ce_data :: "cptr list list"
  ce_type :: nvram_entry_type
  ce_rows_used :: nat
  ce_rows_avail :: nat
  ce_columns :: nat
  ce_changed :: bool

record nvram_cache =
  nc_num_avail :: nat
  nc_num_used :: nat
  nc_cache :: "nvram_entry option list"

record nvcache = nvram +
  nc :: "nvram_cache option"

definition NVRAM_POS_QUERY_FAILED :: int where "NVRAM_POS_QUERY_FAILED = - 1"

abbreviation ARRAY_ROW_END_CHAR :: char where "ARRAY_ROW_END_CHAR \<equiv> CHR 0x01"
abbreviation ARRAY_CELL_END_CHAR :: char where "ARRAY_CELL_END_CHAR \<equiv> CHR 0x02"

definition create_nvram_cache :: "'z nvcache_scheme \<Rightarrow> 'z nvcache_scheme" where
  "create_nvram_cache s =
     (if nc s \<noteq> None then s
      else s\<lparr>nc := Some \<lparr>nc_num_avail = 0, nc_num_used = 0, nc_cache = []\<rparr>\<rparr>)"

definition free_nvram_cache :: "'z nvcache_scheme \<Rightarrow> 'z nvcache_scheme" where
  "free_nvram_cache s = s\<lparr>nc := None\<rparr>"

text \<open>Entries are addressed by their index in the cache, which never changes.\<close>

definition entry_at :: "nat \<Rightarrow> 'z nvcache_scheme \<Rightarrow> nvram_entry option" where
  "entry_at i s =
     (case nc s of None \<Rightarrow> None
      | Some c \<Rightarrow> if i < length (nc_cache c) then nc_cache c ! i else None)"

definition put_entry :: "nat \<Rightarrow> nvram_entry \<Rightarrow> 'z nvcache_scheme \<Rightarrow> 'z nvcache_scheme" where
  "put_entry i e s = s\<lparr>nc := map_option (\<lambda>c. c\<lparr>nc_cache := (nc_cache c)[i := Some e]\<rparr>) (nc s)\<rparr>"

subsection \<open>Splitting a value into rows and cells\<close>

text \<open>Positions in the value stand for the pointers; \<^verbatim>\<open>my_strchrnul\<close> finds \<open>c\<close> or the end.\<close>

definition my_strchrnul :: "string \<Rightarrow> nat \<Rightarrow> char \<Rightarrow> nat" where
  "my_strchrnul v cp c = cp + length (takeWhile (\<lambda>x. x \<noteq> c) (drop cp v))"

text \<open>
  The length is a \<^verbatim>\<open>size_t\<close>: a negative difference of pointers becomes a huge number, one
  more than which is what is allocated (0 for -1), and \<^verbatim>\<open>memcpy\<close> of it leaves the string.
\<close>

definition my_strndup :: "(nat \<Rightarrow> bool) \<Rightarrow> string \<Rightarrow> int \<Rightarrow> cptr res" where
  "my_strndup alloc src num =
     (if \<not> alloc (nat ((num + 1) mod 2 ^ 32)) then Ok None
      else if num < 0 \<or> int (length src) < num then Fault Oob_read
      else Ok (Some (take (nat num) src)))"

definition nvram_cache_create_entry :: "string \<Rightarrow> cptr \<Rightarrow> nvram_entry" where
  "nvram_cache_create_entry name val =
     \<lparr>ce_name = name, ce_value = val, ce_data = [], ce_type = NVRAM_ENTRY_TYPE_UNKNOWN,
      ce_rows_used = 0, ce_rows_avail = 0, ce_columns = 0, ce_changed = False\<rparr>"

text \<open>The first pass counts rows and the cells of the longest row.\<close>

fun count_loop :: "string \<Rightarrow> nat \<Rightarrow> nat \<Rightarrow> nat \<Rightarrow> nat \<times> nat" where
  "count_loop [] rcount ccount cmax = (rcount, if cmax < ccount then ccount else cmax)"
| "count_loop (c # v) rcount ccount cmax =
     (if c = ARRAY_CELL_END_CHAR then count_loop v rcount (ccount + 1) cmax
      else if c = ARRAY_ROW_END_CHAR then
        count_loop v (rcount + 1) 1 (if cmax < ccount then ccount else cmax)
      else count_loop v rcount ccount cmax)"

text \<open>The second pass copies the cells; \<open>cp\<close> is where it is in the value.\<close>

primrec read_cells :: "(nat \<Rightarrow> bool) \<Rightarrow> string \<Rightarrow> nat \<Rightarrow> nat \<Rightarrow> nat \<Rightarrow> (cptr list \<times> nat) res" where
  "read_cells alloc v row_end 0 cp = Ok ([], cp)"
| "read_cells alloc v row_end (Suc n) cp =
     (let e = my_strchrnul v cp ARRAY_CELL_END_CHAR;
          col_end = (if row_end < e then row_end else e)
      in rbind (my_strndup alloc (drop cp v) (int col_end - int cp)) (\<lambda>cell.
         rbind (read_cells alloc v row_end n (if char_at v col_end \<noteq> NUL then col_end + 1 else col_end))
           (\<lambda>(cells, cp). Ok (cell # cells, cp))))"

primrec read_rows :: "(nat \<Rightarrow> bool) \<Rightarrow> string \<Rightarrow> nat \<Rightarrow> nat \<Rightarrow> nat \<Rightarrow> cptr list list res" where
  "read_rows alloc v columns 0 cp = Ok []"
| "read_rows alloc v columns (Suc n) cp =
     (let row_end = my_strchrnul v cp ARRAY_ROW_END_CHAR
      in rbind (read_cells alloc v row_end columns cp) (\<lambda>(row, cp).
         rbind (read_rows alloc v columns n cp) (\<lambda>rows. Ok (row # rows))))"

definition parse_entry :: "(nat \<Rightarrow> bool) \<Rightarrow> string \<Rightarrow> nvram_entry \<Rightarrow> nvram_entry res" where
  "parse_entry alloc v e =
     (let (rcount, cmax) = count_loop v 1 1 1
      in if length v < 1 then Ok (e\<lparr>ce_type := NVRAM_ENTRY_TYPE_UNKNOWN\<rparr>)
         else if rcount = 1 \<and> cmax = 1 then Ok (e\<lparr>ce_type := NVRAM_ENTRY_TYPE_TEXT\<rparr>)
         else rbind (read_rows alloc v cmax rcount 0) (\<lambda>rows.
           Ok (e\<lparr>ce_rows_used := rcount, ce_rows_avail := rcount, ce_columns := cmax,
                 ce_type := NVRAM_ENTRY_TYPE_ARRAY, ce_data := rows\<rparr>)))"

definition find_entry :: "string \<Rightarrow> nvram_cache \<Rightarrow> nat option" where
  "find_entry name c =
     first_index (\<lambda>slot. case slot of None \<Rightarrow> False | Some e \<Rightarrow> ce_name e = name)
       (take (nc_num_used c) (nc_cache c))"

definition nc_push :: "nvram_entry \<Rightarrow> nvram_cache \<Rightarrow> nvram_cache" where
  "nc_push e c =
     (let d = (if nc_num_avail c = nc_num_used c
               then c\<lparr>nc_num_avail := nc_num_avail c + 10, nc_cache := nc_cache c @ replicate 10 None\<rparr> else c)
      in d\<lparr>nc_cache := (nc_cache d)[nc_num_used d := Some e], nc_num_used := nc_num_used d + 1\<rparr>)"

definition cache_of :: "'z nvcache_scheme \<Rightarrow> nvram_cache" where
  "cache_of s = (case nc s of Some c \<Rightarrow> c
     | None \<Rightarrow> \<lparr>nc_num_avail = 0, nc_num_used = 0, nc_cache = []\<rparr>)"

definition nvram_cache_want_variable ::
  "cptr \<Rightarrow> 'z nvcache_scheme \<Rightarrow> (nat option, 'z nvcache_scheme) run" where
  "nvram_cache_want_variable namep s =
     (case namep of None \<Rightarrow> Ret None s
      | Some name \<Rightarrow>
          if name = [] then Ret None s
          else let s = create_nvram_cache s
               in case find_entry name (cache_of s) of
                    Some i \<Rightarrow> Ret (Some i) s
                  | None \<Rightarrow>
                      sbind (nvram_get name s) (\<lambda>val s.
                        let i = nc_num_used (cache_of s); e = nvram_cache_create_entry name val;
                            s = s\<lparr>nc := Some (nc_push e (cache_of s))\<rparr>
                        in case val of
                             None \<Rightarrow> Ret (Some i) s
                           | Some v \<Rightarrow> sbind (lift (parse_entry (can_alloc s) v e) s) (\<lambda>e s.
                               Ret (Some i) (put_entry i e s))))"

subsection \<open>Operations on one entry\<close>

text \<open>
  Growing an array, whose counts are of type \<^verbatim>\<open>int\<close> and whose sizes in bytes, at four bytes a pointer, are
  of type \<^verbatim>\<open>size_t\<close>: 32 bits both. \<open>alloc\<close> tells for which sizes memory can be had. First
  there are more rows, the new ones with the old number of columns: a failed \<^verbatim>\<open>realloc\<close> is not noticed
  and NULL is written through, a size that has wrapped is overrun, and a row for which \<^verbatim>\<open>calloc\<close> fails has no
  cells. Then the rows that were there before are made wider, in the same way.
\<close>

definition pointer_bytes :: "nat \<Rightarrow> nat" where
  "pointer_bytes n = (n * 4) mod 2 ^ 32"

definition resize_pointers :: "(nat \<Rightarrow> bool) \<Rightarrow> nat \<Rightarrow> unit res" where
  "resize_pointers alloc n =
     (if \<not> alloc (pointer_bytes n) then Fault Null_deref
      else if pointer_bytes n < n * 4 then Fault Oob_write
      else Ok ())"

definition grow_rows :: "(nat \<Rightarrow> bool) \<Rightarrow> nat \<Rightarrow> nvram_entry \<Rightarrow> cptr list list res" where
  "grow_rows alloc rmax e =
     (if rmax = ce_rows_avail e then Ok (ce_data e)
      else rbind (resize_pointers alloc rmax) (\<lambda>_.
        Ok (take (ce_rows_avail e) (ce_data e)
            @ replicate (rmax - ce_rows_avail e) (if alloc (ce_columns e * 4) then replicate (ce_columns e) None else []))))"

definition grow_columns :: "(nat \<Rightarrow> bool) \<Rightarrow> nat \<Rightarrow> nvram_entry \<Rightarrow> cptr list list \<Rightarrow> cptr list list res" where
  "grow_columns alloc cmax e d =
     (if cmax = ce_columns e \<or> ce_rows_avail e = 0 then Ok d
      else rbind (resize_pointers alloc cmax) (\<lambda>_.
        Ok (map (\<lambda>r. take (ce_columns e) r @ replicate (cmax - ce_columns e) None) (take (ce_rows_avail e) d)
            @ drop (ce_rows_avail e) d)))"

definition grow_data :: "(nat \<Rightarrow> bool) \<Rightarrow> nat \<Rightarrow> nat \<Rightarrow> nvram_entry \<Rightarrow> cptr list list res" where
  "grow_data alloc rmax cmax e =
     rbind (grow_rows alloc rmax e) (grow_columns alloc cmax e)"

text \<open>\<^verbatim>\<open>strdup\<close> for a cell, whose result is stored without a test.\<close>

definition dup_cell :: "(nat \<Rightarrow> bool) \<Rightarrow> cptr \<Rightarrow> cptr" where
  "dup_cell alloc val = (case val of None \<Rightarrow> None | Some v \<Rightarrow> if alloc (length v + 1) then Some v else None)"

text \<open>The cell at \<open>row\<close>, \<open>column\<close> is read before it is changed.\<close>

definition set_array_value_in_nvram_entry ::
  "(nat \<Rightarrow> bool) \<Rightarrow> nvram_entry \<Rightarrow> int \<Rightarrow> int \<Rightarrow> cptr \<Rightarrow> nvram_entry res" where
  "set_array_value_in_nvram_entry alloc e0 row column val =
     (let e = (if ce_type e0 = NVRAM_ENTRY_TYPE_UNKNOWN
               then e0\<lparr>ce_type := NVRAM_ENTRY_TYPE_ARRAY, ce_rows_avail := 0, ce_rows_used := 0, ce_columns := 0\<rparr>
               else e0)
      in if ce_type e \<noteq> NVRAM_ENTRY_TYPE_ARRAY then Ok e
         else if row < 0 \<or> column < 0 then Ok e
         else
           let r = nat row; c = nat column;
               rmax = (if ce_rows_avail e \<le> r then r + 5 else ce_rows_avail e);
               cmax = (if ce_columns e \<le> c then c + 1 else ce_columns e)
           in if ce_rows_avail e \<le> r \<and> 2 ^ 31 \<le> r + 5 \<or> ce_columns e \<le> c \<and> 2 ^ 31 \<le> c + 1 then Fault Signed_overflow
              else rbind (grow_data alloc rmax cmax e) (\<lambda>d.
              let e1 = e\<lparr>ce_data := d, ce_columns := cmax, ce_rows_avail := rmax\<rparr>
              in if length d \<le> r \<or> length (d ! r) \<le> c then Fault Oob_read
                 else
                   let old = d ! r ! c;
                       e2 = (if val = old then e1
                             else e1\<lparr>ce_data := d[r := (d ! r)[c := dup_cell alloc val]], ce_changed := True\<rparr>)
                   in Ok (if ce_rows_used e2 \<le> r then e2\<lparr>ce_rows_used := r + 1\<rparr> else e2)))"

text \<open>
  Putting the value of an array together: cells are separated by character 2, rows by
  character 1, a NULL cell is empty. The buffer has room for \<open>count + 11\<close> bytes.
\<close>

definition cell_text :: "cptr \<Rightarrow> string" where
  "cell_text c = (case c of None \<Rightarrow> [] | Some s \<Rightarrow> s)"

fun join_with :: "char \<Rightarrow> string list \<Rightarrow> string" where
  "join_with c [] = []"
| "join_with c [s] = s"
| "join_with c (s # t # ts) = s @ c # join_with c (t # ts)"

definition array_text :: "cptr list list \<Rightarrow> string" where
  "array_text rows =
     join_with ARRAY_ROW_END_CHAR (map (\<lambda>r. join_with ARRAY_CELL_END_CHAR (map cell_text r)) rows)"

definition text_count :: "cptr list list \<Rightarrow> nat" where
  "text_count rows = sum_list (map (\<lambda>r. sum_list (map (\<lambda>c. length (cell_text c) + 1) r)) rows)"

definition nvram_entry_sync_value_to_data :: "nvram_entry \<Rightarrow> nvram_entry res" where
  "nvram_entry_sync_value_to_data e =
     (if ce_type e \<noteq> NVRAM_ENTRY_TYPE_ARRAY then Ok e
      else if length (ce_data e) < ce_rows_used e
              \<or> list_ex (\<lambda>r. length r < ce_columns e) (take (ce_rows_used e) (ce_data e))
           then Fault Oob_read
      else let rows = map (take (ce_columns e)) (take (ce_rows_used e) (ce_data e));
               count = text_count rows
           in if count + 11 < length (array_text rows) + 1 then Fault Oob_write
              else Ok (e\<lparr>ce_value := Some (array_text rows)\<rparr>))"

subsection \<open>Operations on the cache\<close>

text \<open>Fetch the entry of a variable; \<open>dflt\<close> is returned when there is none.\<close>

definition with_entry ::
  "cptr \<Rightarrow> 'a \<Rightarrow> (nat \<Rightarrow> nvram_entry \<Rightarrow> 'z nvcache_scheme \<Rightarrow> ('a, 'z nvcache_scheme) run)
   \<Rightarrow> 'z nvcache_scheme \<Rightarrow> ('a, 'z nvcache_scheme) run" where
  "with_entry name dflt f s =
     sbind (nvram_cache_want_variable name s) (\<lambda>r s.
       case r of None \<Rightarrow> Ret dflt s
       | Some i \<Rightarrow> (case entry_at i s of None \<Rightarrow> Ret dflt s | Some e \<Rightarrow> f i e s))"

definition require_variable_in_nvram_cache ::
  "cptr \<Rightarrow> nvram_entry_type \<Rightarrow> 'z nvcache_scheme \<Rightarrow> (bool, 'z nvcache_scheme) run" where
  "require_variable_in_nvram_cache name ty =
     with_entry name False (\<lambda>i e s.
       if ce_type e = ty then Ret True s
       else (case ce_type e of
               NVRAM_ENTRY_TYPE_UNKNOWN \<Rightarrow> Ret True (put_entry i (e\<lparr>ce_type := ty\<rparr>) s)
             | NVRAM_ENTRY_TYPE_TEXT \<Rightarrow>
                 if ty = NVRAM_ENTRY_TYPE_ARRAY then
                   sbind (lift (set_array_value_in_nvram_entry (can_alloc s)
                       (e\<lparr>ce_type := NVRAM_ENTRY_TYPE_ARRAY\<rparr>) 0 0 (ce_value e)) s)
                     (\<lambda>e s. Ret True (put_entry i e s))
                 else Ret False s
             | NVRAM_ENTRY_TYPE_ARRAY \<Rightarrow> Ret False s))"

definition get_array_num_rows_from_nvram_cache ::
  "cptr \<Rightarrow> 'z nvcache_scheme \<Rightarrow> (int, 'z nvcache_scheme) run" where
  "get_array_num_rows_from_nvram_cache name s =
     with_entry name NVRAM_POS_QUERY_FAILED (\<lambda>i e s.
       Ret (if ce_type e \<noteq> NVRAM_ENTRY_TYPE_ARRAY then NVRAM_POS_QUERY_FAILED else int (ce_rows_used e)) s)
       (create_nvram_cache s)"

text \<open>The row is read at \<open>column\<close> when both are below the counts the entry keeps.\<close>

definition array_cell :: "nvram_entry \<Rightarrow> int \<Rightarrow> int \<Rightarrow> cptr res" where
  "array_cell e row column =
     (if ce_type e \<noteq> NVRAM_ENTRY_TYPE_ARRAY \<or> row < 0 \<or> column < 0
         \<or> int (ce_rows_used e) \<le> row \<or> int (ce_columns e) \<le> column \<or> ce_data e = [] then Ok None
      else if length (ce_data e) \<le> nat row \<or> length (ce_data e ! nat row) \<le> nat column then Fault Oob_read
      else Ok (ce_data e ! nat row ! nat column))"

definition get_array_value_from_nvram_cache ::
  "cptr \<Rightarrow> int \<Rightarrow> int \<Rightarrow> 'z nvcache_scheme \<Rightarrow> (cptr, 'z nvcache_scheme) run" where
  "get_array_value_from_nvram_cache name row column s =
     with_entry name None (\<lambda>i e s. lift (array_cell e row column) s) (create_nvram_cache s)"

definition get_value_from_nvram_cache :: "cptr \<Rightarrow> 'z nvcache_scheme \<Rightarrow> (cptr, 'z nvcache_scheme) run" where
  "get_value_from_nvram_cache name s =
     with_entry name None (\<lambda>i e s.
       Ret (if ce_type e \<noteq> NVRAM_ENTRY_TYPE_TEXT then None else ce_value e) s) (create_nvram_cache s)"

text \<open>\<^verbatim>\<open>strdup\<close> of a NULL value faults.\<close>

definition set_value_in_nvram_cache ::
  "cptr \<Rightarrow> cptr \<Rightarrow> 'z nvcache_scheme \<Rightarrow> (unit, 'z nvcache_scheme) run" where
  "set_value_in_nvram_cache name val s =
     with_entry name () (\<lambda>i e s.
       if ce_type e \<noteq> NVRAM_ENTRY_TYPE_TEXT then Ret () s
       else (case val of
               None \<Rightarrow> Halt (Crash Null_deref) s
             | Some v \<Rightarrow> Ret () (put_entry i (e\<lparr>ce_value := Some v, ce_changed := True\<rparr>) s)))
       (create_nvram_cache s)"

text \<open>Rows above the removed one move down by one; the last slot gets a fresh row.\<close>

definition remove_row :: "int \<Rightarrow> nvram_entry \<Rightarrow> nvram_entry" where
  "remove_row row e =
     (if ce_type e \<noteq> NVRAM_ENTRY_TYPE_ARRAY \<or> row < 0 \<or> int (ce_rows_used e) \<le> row then e
      else let r = nat row; n = ce_rows_used e - 1
           in e\<lparr>ce_rows_used := n, ce_changed := True,
                ce_data := take r (ce_data e) @ take (n - r) (drop (r + 1) (ce_data e))
                  @ replicate (ce_columns e) None # drop (n + 1) (ce_data e)\<rparr>)"

definition remove_row_from_array_in_nvram_cache ::
  "cptr \<Rightarrow> int \<Rightarrow> 'z nvcache_scheme \<Rightarrow> (unit, 'z nvcache_scheme) run" where
  "remove_row_from_array_in_nvram_cache name row s =
     with_entry name () (\<lambda>i e s. Ret () (put_entry i (remove_row row e) s)) (create_nvram_cache s)"

definition clear_rows :: "int \<Rightarrow> nvram_entry \<Rightarrow> nvram_entry" where
  "clear_rows row e =
     (if ce_type e \<noteq> NVRAM_ENTRY_TYPE_ARRAY \<or> row < 0 \<or> int (ce_rows_used e) \<le> row then e
      else e\<lparr>ce_rows_used := nat row\<rparr>)"

definition clear_array_rows_this_and_above_in_nvram_cache ::
  "cptr \<Rightarrow> int \<Rightarrow> 'z nvcache_scheme \<Rightarrow> (unit, 'z nvcache_scheme) run" where
  "clear_array_rows_this_and_above_in_nvram_cache name row s =
     (if nc s = None then Ret () s
      else with_entry name () (\<lambda>i e s. Ret () (put_entry i (clear_rows row e) s)) s)"

definition set_array_value_in_nvram_cache ::
  "cptr \<Rightarrow> int \<Rightarrow> int \<Rightarrow> cptr \<Rightarrow> 'z nvcache_scheme \<Rightarrow> (unit, 'z nvcache_scheme) run" where
  "set_array_value_in_nvram_cache name row column val s =
     (if nc s = None then Ret () s
      else with_entry name () (\<lambda>i e s.
        sbind (lift (set_array_value_in_nvram_entry (can_alloc s) e row column val) s) (\<lambda>e s.
          Ret () (put_entry i e s))) s)"

text \<open>Writing the changed entries back, then committing to flash.\<close>

definition sync_entry :: "nat \<Rightarrow> 'z nvcache_scheme \<Rightarrow> (unit, 'z nvcache_scheme) run" where
  "sync_entry i s =
     (case entry_at i s of
        None \<Rightarrow> Ret () s
      | Some e \<Rightarrow>
          if \<not> ce_changed e then Ret () s
          else sbind (lift (nvram_entry_sync_value_to_data e) s) (\<lambda>e s.
            let s = put_entry i e s
            in sbind (nvram_set (ce_name e) (ce_value e) s) (\<lambda>_ s.
              Ret () (put_entry i (e\<lparr>ce_changed := False\<rparr>) s))))"

fun sync_loop :: "nat list \<Rightarrow> 'z nvcache_scheme \<Rightarrow> (unit, 'z nvcache_scheme) run" where
  "sync_loop [] s = Ret () s"
| "sync_loop (i # is) s = sbind (sync_entry i s) (\<lambda>_ s. sync_loop is s)"

definition sync_nvram_cache_back_to_nvram :: "'z nvcache_scheme \<Rightarrow> (unit, 'z nvcache_scheme) run" where
  "sync_nvram_cache_back_to_nvram s =
     (case nc s of
        None \<Rightarrow> Ret () s
      | Some c \<Rightarrow>
          sbind (sync_loop [0..<nc_num_used c] s) (\<lambda>_ s.
          sbind (nvram_commit s) (\<lambda>_ s. Ret () s)))"

subsection \<open>Invariant of an entry\<close>

definition entry_inv :: "nvram_entry \<Rightarrow> bool" where
  "entry_inv e \<longleftrightarrow>
     length (ce_data e) = ce_rows_avail e \<and> (\<forall>r\<in>set (ce_data e). length r = ce_columns e)
     \<and> ce_rows_used e \<le> ce_rows_avail e \<and> (0 < ce_rows_used e \<longrightarrow> 0 < ce_columns e)
     \<and> (ce_type e = NVRAM_ENTRY_TYPE_ARRAY \<or> ce_data e = [] \<and> ce_columns e = 0)"

lemma entry_inv_row: "entry_inv e \<Longrightarrow> i < ce_rows_avail e \<Longrightarrow> length (ce_data e ! i) = ce_columns e"
  by (simp add: entry_inv_def)

text \<open>The data after a growth for which there was memory.\<close>

definition grown :: "nat \<Rightarrow> nat \<Rightarrow> nvram_entry \<Rightarrow> cptr list list" where
  "grown rmax cmax e =
     (let d = (if rmax = ce_rows_avail e then ce_data e
               else take (ce_rows_avail e) (ce_data e) @ replicate (rmax - ce_rows_avail e) (replicate (ce_columns e) None))
      in if cmax = ce_columns e then d
         else map (\<lambda>r. take (ce_columns e) r @ replicate (cmax - ce_columns e) None) (take (ce_rows_avail e) d)
              @ drop (ce_rows_avail e) d)"

text \<open>When a resizing succeeds, and which resizings a write needs.\<close>

lemma resize_pointers_ok: "resize_pointers alloc n = Ok () \<longleftrightarrow> alloc (n * 4) \<and> n < 2 ^ 30"
proof -
  have "n * 4 mod 2 ^ 32 < n * 4 \<longleftrightarrow> \<not> n < 2 ^ 30"
    by (cases "n * 4 < 2 ^ 32") (auto simp: not_less intro: less_le_trans [OF mod_less_divisor])
  moreover have "n < 2 ^ 30 \<Longrightarrow> n * 4 mod 2 ^ 32 = n * 4" by simp
  ultimately show ?thesis by (auto simp: resize_pointers_def pointer_bytes_def)
qed

definition array_fits :: "(nat \<Rightarrow> bool) \<Rightarrow> nvram_entry \<Rightarrow> int \<Rightarrow> int \<Rightarrow> bool" where
  "array_fits alloc e row column \<longleftrightarrow>
     (int (ce_rows_avail e) \<le> row \<longrightarrow>
        row + 5 < 2 ^ 30 \<and> alloc ((nat row + 5) * 4) \<and> alloc (ce_columns e * 4))
     \<and> (int (ce_columns e) \<le> column \<longrightarrow> column + 1 < 2 ^ 30 \<and> alloc ((nat column + 1) * 4))"

lemma grow_data_ok:
  assumes "rmax \<noteq> ce_rows_avail e \<Longrightarrow> rmax < 2 ^ 30 \<and> alloc (rmax * 4) \<and> alloc (ce_columns e * 4)"
    "cmax \<noteq> ce_columns e \<Longrightarrow> cmax < 2 ^ 30 \<and> alloc (cmax * 4)"
  shows "\<exists>d. grow_data alloc rmax cmax e = Ok d"
proof -
  have "rmax \<noteq> ce_rows_avail e \<Longrightarrow> resize_pointers alloc rmax = Ok ()"
    "cmax \<noteq> ce_columns e \<Longrightarrow> resize_pointers alloc cmax = Ok ()"
    using assms by (simp_all add: resize_pointers_ok)
  then show ?thesis by (simp add: grow_data_def grow_rows_def grow_columns_def)
qed

text \<open>A growth that succeeds gives the grown data, unless a new row could not be had.\<close>

lemma grow_data_grown:
  assumes "grow_data alloc rmax cmax e = Ok d" "entry_inv e" "rmax \<noteq> ce_rows_avail e \<Longrightarrow> alloc (ce_columns e * 4)"
    "ce_rows_avail e \<le> rmax"
  shows "d = grown rmax cmax e"
  using assms
  by (auto simp: grow_data_def grow_rows_def grow_columns_def grown_def Let_def entry_inv_def rbind_Ok_iff split: if_splits)

lemma grow_data_new_row:
  assumes "grow_data alloc rmax cmax e = Ok d" "length (ce_data e) = ce_rows_avail e" "ce_rows_avail e \<le> r" "r < rmax"
  shows "d ! r = (if alloc (ce_columns e * 4) then replicate (ce_columns e) None else [])"
  using assms
  by (auto simp: grow_data_def grow_rows_def grow_columns_def nth_append rbind_Ok_iff split: if_splits)

lemma grown_length:
  "entry_inv e \<Longrightarrow> ce_rows_avail e \<le> rmax \<Longrightarrow> length (grown rmax cmax e) = rmax"
  by (auto simp: grown_def Let_def entry_inv_def)

lemma grown_rows:
  assumes "entry_inv e" "ce_columns e \<le> cmax" "rmax = ce_rows_avail e \<or> cmax = ce_columns e" "ce_rows_avail e \<le> rmax"
  shows "\<forall>r\<in>set (grown rmax cmax e). length r = cmax"
  using assms by (auto simp: grown_def Let_def entry_inv_def dest: in_set_takeD in_set_dropD)

lemma grown_old:
  assumes "entry_inv e" "ce_columns e \<le> cmax" "ce_rows_avail e \<le> rmax" "i < ce_rows_avail e" "j < ce_columns e"
  shows "grown rmax cmax e ! i ! j = ce_data e ! i ! j"
  using assms entry_inv_row [of e i] by (auto simp: grown_def Let_def entry_inv_def nth_append)

text \<open>The steps of a write to an array.\<close>

lemma set_entry_steps:
  assumes "ce_type e = NVRAM_ENTRY_TYPE_ARRAY" "0 \<le> row" "0 \<le> column"
    "i = nat row" "j = nat column"
    "rmax = (if ce_rows_avail e \<le> i then i + 5 else ce_rows_avail e)"
    "cmax = (if ce_columns e \<le> j then j + 1 else ce_columns e)"
  shows "set_array_value_in_nvram_entry alloc e row column val =
    (if ce_rows_avail e \<le> i \<and> 2 ^ 31 \<le> i + 5 \<or> ce_columns e \<le> j \<and> 2 ^ 31 \<le> j + 1 then Fault Signed_overflow
     else rbind (grow_data alloc rmax cmax e) (\<lambda>d.
       if length d \<le> i \<or> length (d ! i) \<le> j then Fault Oob_read
       else Ok (e\<lparr>ce_data := d[i := (d ! i)[j := if val = d ! i ! j then val else dup_cell alloc val]], ce_columns := cmax,
         ce_rows_avail := rmax, ce_rows_used := max (ce_rows_used e) (i + 1),
         ce_changed := (ce_changed e \<or> val \<noteq> d ! i ! j)\<rparr>)))"
proof -
  have e0: "(if ce_type e = NVRAM_ENTRY_TYPE_UNKNOWN then e\<lparr>ce_type := NVRAM_ENTRY_TYPE_ARRAY,
      ce_rows_avail := 0, ce_rows_used := 0, ce_columns := 0\<rparr> else e) = e" using assms(1) by simp
  show ?thesis
    unfolding set_array_value_in_nvram_entry_def e0 Let_def assms(4) [symmetric] assms(5) [symmetric]
    unfolding assms(6) [symmetric] assms(7) [symmetric]
    using assms(1-3) by (auto simp: max_def not_le not_less rbind_def split: res.split)
qed

lemma set_entry_unknown:
  "set_array_value_in_nvram_entry alloc e row column val =
     set_array_value_in_nvram_entry alloc
       (if ce_type e = NVRAM_ENTRY_TYPE_UNKNOWN
        then e\<lparr>ce_type := NVRAM_ENTRY_TYPE_ARRAY, ce_rows_avail := 0, ce_rows_used := 0, ce_columns := 0\<rparr> else e) row column val"
  by (simp add: set_array_value_in_nvram_entry_def)

lemma set_entry_grows_both:
  assumes "entry_inv e" "ce_type e \<noteq> NVRAM_ENTRY_TYPE_TEXT" "int (ce_rows_avail e) \<le> row" "int (ce_columns e) \<le> column"
  shows "\<exists>c. set_array_value_in_nvram_entry alloc e row column val = Fault c"
proof -
  let ?e = "if ce_type e = NVRAM_ENTRY_TYPE_UNKNOWN
     then e\<lparr>ce_type := NVRAM_ENTRY_TYPE_ARRAY, ce_rows_avail := 0, ce_rows_used := 0, ce_columns := 0\<rparr> else e"
  have e: "ce_type ?e = NVRAM_ENTRY_TYPE_ARRAY" "ce_rows_avail ?e \<le> nat row" "ce_columns ?e \<le> nat column"
    "length (ce_data ?e) = ce_rows_avail ?e"
    using assms by (cases "ce_type e"; auto simp: entry_inv_def)+
  have "0 \<le> row" "0 \<le> column" using assms(3,4) by linarith+
  note st = set_entry_steps [OF e(1) this refl refl refl refl, of alloc val]
  show ?thesis
  proof (cases "grow_data alloc (nat row + 5) (nat column + 1) ?e")
    case (Ok d)
    with grow_data_new_row [OF Ok e(4), of "nat row"] e show ?thesis
      by (subst set_entry_unknown, subst st) simp
  qed (use e in \<open>subst set_entry_unknown, subst st, simp\<close>)
qed

lemma array_cell_eq:
  assumes "entry_inv e" "ce_type e = NVRAM_ENTRY_TYPE_ARRAY" "i < ce_rows_used e" "j < ce_columns e"
  shows "array_cell e (int i) (int j) = Ok (ce_data e ! i ! j)"
proof -
  have "i < length (ce_data e)" "length (ce_data e ! i) = ce_columns e"
    using assms entry_inv_row [OF assms(1), of i] by (auto simp: entry_inv_def)
  then show ?thesis using assms by (auto simp: array_cell_def)
qed

text \<open>A write that succeeds does not grow both ways, and had the memory for its new rows.\<close>

lemma set_entry_grown:
  assumes inv: "entry_inv e" and ty: "ce_type e = NVRAM_ENTRY_TYPE_ARRAY"
    and rc: "0 \<le> row" "0 \<le> column" and ok: "set_array_value_in_nvram_entry alloc e row column val = Ok e'"
    and ij: "i = nat row" "j = nat column"
      "rmax = (if ce_rows_avail e \<le> i then i + 5 else ce_rows_avail e)"
      "cmax = (if ce_columns e \<le> j then j + 1 else ce_columns e)"
  shows "grow_data alloc rmax cmax e = Ok (grown rmax cmax e)" "rmax = ce_rows_avail e \<or> cmax = ce_columns e"
    "rmax \<noteq> ce_rows_avail e \<Longrightarrow> alloc (ce_columns e * 4)"
proof -
  from ok obtain d where d: "grow_data alloc rmax cmax e = Ok d" "i < length d" "j < length (d ! i)"
    by (auto simp: set_entry_steps [OF ty rc ij] rbind_Ok_iff not_le split: if_splits)
  have len: "length (ce_data e) = ce_rows_avail e" using inv by (simp add: entry_inv_def)
  have new: "alloc (ce_columns e * 4) \<and> cmax = ce_columns e" if "rmax \<noteq> ce_rows_avail e"
    using grow_data_new_row [OF d(1) len, of i] d(3) that ij(3,4) by (auto split: if_splits)
  then show "rmax = ce_rows_avail e \<or> cmax = ce_columns e" "rmax \<noteq> ce_rows_avail e \<Longrightarrow> alloc (ce_columns e * 4)" by blast+
  show "grow_data alloc rmax cmax e = Ok (grown rmax cmax e)"
    using grow_data_grown [OF d(1) inv] new d(1) ij(3) by (simp split: if_splits)
qed

text \<open>What a successful write of a cell leaves behind.\<close>

lemma set_entry_result:
  assumes inv: "entry_inv e" and ty: "ce_type e = NVRAM_ENTRY_TYPE_ARRAY"
    and rc: "0 \<le> row" "0 \<le> column" and ok: "set_array_value_in_nvram_entry alloc e row column val = Ok e'"
  shows "entry_inv e'" "ce_type e' = NVRAM_ENTRY_TYPE_ARRAY" "ce_name e' = ce_name e"
    "array_cell e' row column = Ok val \<or> array_cell e' row column = Ok (dup_cell alloc val)"
    "\<And>r c. (r, c) \<noteq> (row, column) \<Longrightarrow> 0 \<le> r \<Longrightarrow> r < int (ce_rows_used e) \<Longrightarrow> 0 \<le> c \<Longrightarrow> c < int (ce_columns e) \<Longrightarrow>
       array_cell e' r c = array_cell e r c"
    "ce_rows_used e' = max (ce_rows_used e) (nat row + 1)"
    "ce_columns e' = max (ce_columns e) (nat column + 1)"
proof -
  define i j where "i = nat row" and "j = nat column"
  define rmax where "rmax = (if ce_rows_avail e \<le> i then i + 5 else ce_rows_avail e)"
  define cmax where "cmax = (if ce_columns e \<le> j then j + 1 else ce_columns e)"
  define d where "d = grown rmax cmax e"
  define w where "w = (if val = d ! i ! j then val else dup_cell alloc val)"
  define e1 where "e1 = e\<lparr>ce_data := d[i := (d ! i)[j := w]], ce_columns := cmax, ce_rows_avail := rmax,
    ce_rows_used := max (ce_rows_used e) (i + 1), ce_changed := (ce_changed e \<or> val \<noteq> d ! i ! j)\<rparr>"
  note g = set_entry_grown [OF inv ty rc ok i_def j_def rmax_def cmax_def]
  have b: "rmax = ce_rows_avail e \<or> cmax = ce_columns e" "ce_columns e \<le> cmax" "ce_rows_avail e \<le> rmax"
    "i < rmax" "j < cmax" "cmax = max (ce_columns e) (j + 1)"
    using g(2) by (auto simp: rmax_def cmax_def)
  have len: "length d = rmax" unfolding d_def using inv b by (intro grown_length)
  have rows: "\<forall>r\<in>set d. length r = cmax" unfolding d_def using inv b by (intro grown_rows) auto
  then have di: "length (d ! i) = cmax" using len b by simp
  have e1: "e' = e1"
    using ok unfolding set_entry_steps [OF ty rc i_def j_def rmax_def cmax_def] g(1) e1_def w_def d_def
    by (simp split: if_splits)
  have inv1: "entry_inv e1"
    using inv ty b len rows di by (auto simp: e1_def entry_inv_def dest!: set_update_subset_insert [THEN subsetD])
  have used: "ce_rows_used e \<le> ce_rows_avail e" using inv by (simp add: entry_inv_def)
  have ty1: "ce_type e1 = NVRAM_ENTRY_TYPE_ARRAY" and n1: "i < ce_rows_used e1" "j < ce_columns e1"
    using ty b(4,5) by (simp_all add: e1_def)
  show "entry_inv e'" "ce_type e' = NVRAM_ENTRY_TYPE_ARRAY" "ce_name e' = ce_name e"
    "ce_rows_used e' = max (ce_rows_used e) (nat row + 1)" "ce_columns e' = max (ce_columns e) (nat column + 1)"
    using inv1 ty1 b(6) unfolding e1 by (simp_all add: e1_def i_def j_def)
  have "ce_data e1 ! i ! j = w" using len di b by (simp add: e1_def)
  with array_cell_eq [OF inv1 ty1 n1] rc
  show "array_cell e' row column = Ok val \<or> array_cell e' row column = Ok (dup_cell alloc val)"
    by (simp add: i_def j_def w_def e1)
  show "array_cell e' r c = array_cell e r c"
    if h: "(r, c) \<noteq> (row, column)" "0 \<le> r" "r < int (ce_rows_used e)" "0 \<le> c" "c < int (ce_columns e)" for r c
  proof -
    define i' j' where "i' = nat r" and "j' = nat c"
    then have rc': "r = int i'" "c = int j'" using h(2,4) by simp_all
    with h have old: "i' < ce_rows_used e" "j' < ce_columns e" by auto
    then have new: "i' < ce_rows_used e1" "j' < ce_columns e1" using b(2) by (simp_all add: e1_def)
    have ne: "i' \<noteq> i \<or> j' \<noteq> j" using h(1) rc rc' by (auto simp: i_def j_def)
    have "d ! i' ! j' = ce_data e ! i' ! j'"
      unfolding d_def by (rule grown_old [OF inv b(2,3) less_le_trans [OF old(1) used] old(2)])
    moreover have "ce_data e1 ! i' ! j' = d ! i' ! j'"
      using ne len b(4) by (cases "i' = i") (simp_all add: e1_def)
    ultimately show ?thesis
      using array_cell_eq [OF inv ty old] array_cell_eq [OF inv1 ty1 new] by (simp add: rc' e1)
  qed
qed

lemma set_entry_ok:
  assumes inv: "entry_inv e" and ty: "ce_type e = NVRAM_ENTRY_TYPE_ARRAY"
    and rc: "0 \<le> row" "0 \<le> column" "row < int (ce_rows_avail e) \<or> column < int (ce_columns e)"
    and fits: "array_fits alloc e row column"
  shows "\<exists>e'. set_array_value_in_nvram_entry alloc e row column val = Ok e'"
proof -
  define i j where "i = nat row" and "j = nat column"
  define rmax where "rmax = (if ce_rows_avail e \<le> i then i + 5 else ce_rows_avail e)"
  define cmax where "cmax = (if ce_columns e \<le> j then j + 1 else ce_columns e)"
  have f: "ce_rows_avail e \<le> i \<Longrightarrow> i + 5 < 2 ^ 30 \<and> alloc ((i + 5) * 4) \<and> alloc (ce_columns e * 4)"
    "ce_columns e \<le> j \<Longrightarrow> j + 1 < 2 ^ 30 \<and> alloc ((j + 1) * 4)"
    using fits rc(1,2) by (auto simp: array_fits_def i_def j_def)
  have b: "rmax = ce_rows_avail e \<or> cmax = ce_columns e" "ce_columns e \<le> cmax" "ce_rows_avail e \<le> rmax" "i < rmax" "j < cmax"
    using rc by (auto simp: rmax_def cmax_def i_def j_def)
  have m: "rmax \<noteq> ce_rows_avail e \<Longrightarrow> rmax < 2 ^ 30 \<and> alloc (rmax * 4) \<and> alloc (ce_columns e * 4)"
    "cmax \<noteq> ce_columns e \<Longrightarrow> cmax < 2 ^ 30 \<and> alloc (cmax * 4)"
    using f unfolding rmax_def cmax_def by presburger+
  obtain d where d: "grow_data alloc rmax cmax e = Ok d" using grow_data_ok [OF m] by blast
  have "d = grown rmax cmax e"
    using f b(3) by (intro grow_data_grown [OF d inv]) (auto simp: rmax_def split: if_splits)
  then have "length d = rmax" "\<forall>r\<in>set d. length r = cmax"
    using grown_length [OF inv b(3)] grown_rows [OF inv b(2,1,3)] by simp_all
  then have "\<not> (length d \<le> i \<or> length (d ! i) \<le> j)" using b(4,5) by simp
  moreover have "\<not> (ce_rows_avail e \<le> i \<and> 2 ^ 31 \<le> i + 5 \<or> ce_columns e \<le> j \<and> 2 ^ 31 \<le> j + 1)"
    using f by fastforce
  ultimately show ?thesis
    unfolding set_entry_steps [OF ty rc(1,2) i_def j_def rmax_def cmax_def] d by simp
qed

lemma set_entry_needs:
  assumes inv: "entry_inv e" and ty: "ce_type e = NVRAM_ENTRY_TYPE_ARRAY"
    and rc: "0 \<le> row" "0 \<le> column" and ok: "set_array_value_in_nvram_entry alloc e row column val = Ok e'"
  shows "(row < int (ce_rows_avail e) \<or> column < int (ce_columns e)) \<and> array_fits alloc e row column"
proof -
  define i j where "i = nat row" and "j = nat column"
  define rmax where "rmax = (if ce_rows_avail e \<le> i then i + 5 else ce_rows_avail e)"
  define cmax where "cmax = (if ce_columns e \<le> j then j + 1 else ce_columns e)"
  note g = set_entry_grown [OF inv ty rc ok i_def j_def rmax_def cmax_def]
  have rows: "i + 5 < 2 ^ 30 \<and> alloc ((i + 5) * 4) \<and> alloc (ce_columns e * 4)" if "ce_rows_avail e \<le> i"
    using g that by (auto simp: rmax_def grow_data_def grow_rows_def rbind_Ok_iff resize_pointers_ok grown_def)
  have cols: "j + 1 < 2 ^ 30 \<and> alloc ((j + 1) * 4)" if "ce_columns e \<le> j"
    using g that by (auto simp: rmax_def cmax_def grow_data_def grow_rows_def grow_columns_def rbind_Ok_iff resize_pointers_ok
        split: if_splits)
  have ij: "row = int i" "column = int j" using rc by (simp_all add: i_def j_def)
  show ?thesis using rows cols g(2) unfolding array_fits_def ij by (auto simp: rmax_def cmax_def split: if_splits)
qed

subsection \<open>Rows and cells as text and back\<close>

definition clean_cell :: "string \<Rightarrow> bool" where
  "clean_cell s \<longleftrightarrow> is_cstr s \<and> ARRAY_ROW_END_CHAR \<notin> set s \<and> ARRAY_CELL_END_CHAR \<notin> set s"

lemma takeWhile_ne_append: "c \<notin> set a \<Longrightarrow> takeWhile (\<lambda>x. x \<noteq> c) (a @ suf) = a @ takeWhile (\<lambda>x. x \<noteq> c) suf"
  by (induction a) auto

lemma strchrnul_ge:
  "c \<notin> set a \<Longrightarrow> length pre + length a \<le> my_strchrnul (pre @ a @ suf) (length pre) c"
  by (simp add: my_strchrnul_def takeWhile_ne_append)

lemma strchrnul_hit:
  "c \<notin> set a \<Longrightarrow> my_strchrnul (pre @ a @ c # suf) (length pre) c = length pre + length a"
  by (simp add: my_strchrnul_def takeWhile_ne_append)

lemma strchrnul_end: "c \<notin> set a \<Longrightarrow> my_strchrnul (pre @ a) (length pre) c = length pre + length a"
  using takeWhile_ne_append [of c a "[]"] by (simp add: my_strchrnul_def del: takeWhile_eq_all_conv)




lemma count_loop_cell: "clean_cell s \<Longrightarrow> count_loop (s @ suf) rc cc cm = count_loop suf rc cc cm"
  by (induction s) (auto simp: clean_cell_def)






text \<open>The text fits into the buffer computed for it.\<close>

lemma length_join_with: "ss \<noteq> [] \<Longrightarrow> length (join_with c ss) + 1 = sum_list (map (\<lambda>s. length s + 1) ss)"
  by (induction c ss rule: join_with.induct) auto

lemma array_text_fits:
  assumes "\<forall>r\<in>set rows. r \<noteq> []"
  shows "length (array_text rows) \<le> text_count rows"
proof (cases "rows = []")
  case False
  let ?t = "\<lambda>r. join_with ARRAY_CELL_END_CHAR (map cell_text r)"
  have "length (array_text rows) + 1 = sum_list (map (\<lambda>r. length (?t r) + 1) rows)"
    using length_join_with [of "map ?t rows" ARRAY_ROW_END_CHAR] False by (simp add: array_text_def comp_def)
  also have "\<dots> = text_count rows"
    unfolding text_count_def
    by (rule arg_cong [where f = sum_list], rule map_cong [OF refl])
      (use assms length_join_with [of "map cell_text _" ARRAY_CELL_END_CHAR] in \<open>simp add: comp_def\<close>)
  finally show ?thesis by simp
qed (simp add: array_text_def)

definition entry_rows :: "nvram_entry \<Rightarrow> cptr list list" where
  "entry_rows e = take (ce_rows_used e) (ce_data e)"

lemma sync_value_ok:
  assumes "entry_inv e" "ce_type e = NVRAM_ENTRY_TYPE_ARRAY"
  shows "nvram_entry_sync_value_to_data e = Ok (e\<lparr>ce_value := Some (array_text (entry_rows e))\<rparr>)"
proof -
  have rows: "r \<in> set (entry_rows e) \<Longrightarrow> length r = ce_columns e" for r
    using assms by (auto simp: entry_inv_def entry_rows_def dest: in_set_takeD)
  then have m: "map (take (ce_columns e)) (entry_rows e) = entry_rows e"
    by (simp add: map_idI)
  have "\<forall>r\<in>set (entry_rows e). r \<noteq> []"
  proof
    fix r assume r: "r \<in> set (entry_rows e)"
    then have "0 < ce_rows_used e" by (cases "ce_rows_used e") (auto simp: entry_rows_def)
    with assms rows [OF r] show "r \<noteq> []" by (auto simp: entry_inv_def)
  qed
  from array_text_fits [OF this] have "\<not> text_count (entry_rows e) + 11 < length (array_text (entry_rows e)) + 1"
    by simp
  with assms rows m show ?thesis
    by (auto simp: nvram_entry_sync_value_to_data_def Let_def entry_inv_def list_ex_iff simp flip: entry_rows_def)
qed

lemma remove_row_rows:
  assumes "entry_inv e" "ce_type e = NVRAM_ENTRY_TYPE_ARRAY" "r < ce_rows_used e"
  shows "entry_inv (remove_row (int r) e)
    \<and> entry_rows (remove_row (int r) e) = take r (entry_rows e) @ drop (r + 1) (entry_rows e)"
proof -
  let ?n = "ce_rows_used e - 1"
  have n: "r \<le> ?n" "?n < length (ce_data e)" "0 < ce_columns e" using assms by (auto simp: entry_inv_def)
  have d: "remove_row (int r) e = e\<lparr>ce_rows_used := ?n, ce_changed := True,
      ce_data := take r (ce_data e) @ take (?n - r) (drop (r + 1) (ce_data e))
        @ replicate (ce_columns e) None # drop (?n + 1) (ce_data e)\<rparr>"
    using assms by (simp add: remove_row_def Let_def)
  have "entry_inv (remove_row (int r) e)"
    unfolding d using assms n by (auto simp: entry_inv_def dest!: in_set_takeD in_set_dropD)
  moreover have "entry_rows (remove_row (int r) e) = take r (entry_rows e) @ drop (r + 1) (entry_rows e)"
    unfolding d entry_rows_def using n assms(3) by (simp add: drop_take)
  ultimately show ?thesis ..
qed

text \<open>Reading a value whose first row has one cell and whose second has two.\<close>

lemma read_ragged:
  assumes clean: "clean_cell a" "clean_cell b" "clean_cell c"
    and alloc: "\<forall>n. 0 < n \<longrightarrow> alloc n" and len: "length (a @ b @ c) < 2 ^ 31"
  shows "read_rows alloc (a @ ARRAY_ROW_END_CHAR # b @ ARRAY_CELL_END_CHAR # c) 2 2 0 =
    (if alloc 0 then Fault Oob_read else Ok [[Some a, None], [Some b, Some c]])"
proof -
  let ?v = "a @ ARRAY_ROW_END_CHAR # b @ ARRAY_CELL_END_CHAR # c"
  let ?la = "length a" and ?lb = "length b" and ?lc = "length c"
  have n: "ARRAY_ROW_END_CHAR \<notin> set a" "ARRAY_CELL_END_CHAR \<notin> set a" "ARRAY_ROW_END_CHAR \<notin> set b"
      "ARRAY_CELL_END_CHAR \<notin> set b" "ARRAY_ROW_END_CHAR \<notin> set c" "ARRAY_CELL_END_CHAR \<notin> set c"
    using clean by (auto simp: clean_cell_def)
  have row1: "my_strchrnul ?v 0 ARRAY_ROW_END_CHAR = ?la"
    using strchrnul_hit [OF n(1), of "[]"] by simp
  have cell1: "?la < my_strchrnul ?v 0 ARRAY_CELL_END_CHAR"
    using strchrnul_ge [of ARRAY_CELL_END_CHAR "a @ [ARRAY_ROW_END_CHAR]" "[]" "b @ ARRAY_CELL_END_CHAR # c"] n(2)
    by simp
  have cell1': "?la < my_strchrnul ?v (Suc ?la) ARRAY_CELL_END_CHAR"
    using strchrnul_ge [of ARRAY_CELL_END_CHAR "[]" "a @ [ARRAY_ROW_END_CHAR]" "b @ ARRAY_CELL_END_CHAR # c"]
    by simp
  have row2: "my_strchrnul ?v (Suc ?la) ARRAY_ROW_END_CHAR = ?la + ?lb + ?lc + 2"
    using strchrnul_end [of ARRAY_ROW_END_CHAR "b @ ARRAY_CELL_END_CHAR # c" "a @ [ARRAY_ROW_END_CHAR]"] n(3,5) by simp
  have cell2: "my_strchrnul ?v (Suc ?la) ARRAY_CELL_END_CHAR = Suc (?la + ?lb)"
    using strchrnul_hit [OF n(4), of "a @ [ARRAY_ROW_END_CHAR]" c] by simp
  have cell3: "my_strchrnul ?v (Suc (Suc (?la + ?lb))) ARRAY_CELL_END_CHAR = ?la + ?lb + ?lc + 2"
    using strchrnul_end [OF n(6), of "a @ ARRAY_ROW_END_CHAR # b @ [ARRAY_CELL_END_CHAR]"] by simp
  have ch: "char_at ?v ?la = ARRAY_ROW_END_CHAR" "char_at ?v (Suc (?la + ?lb)) = ARRAY_CELL_END_CHAR"
    "char_at ?v (?la + ?lb + ?lc + 2) = NUL"
    by (simp_all add: char_at_def nth_append)
  have dup: "my_strndup alloc (x @ y) (int (length x)) = Ok (Some x)" if "length x < 2 ^ 31" for x y
  proof -
    have "nat ((int (length x) + 1) mod 2 ^ 32) = length x + 1" using that by simp
    with alloc show ?thesis by (simp add: my_strndup_def)
  qed
  have neg: "my_strndup alloc y (- 1) = (if alloc 0 then Fault Oob_read else Ok None)" for y
    by (simp add: my_strndup_def)
  have r1: "read_cells alloc ?v ?la 2 0 =
      (if alloc 0 then Fault Oob_read else Ok ([Some a, None], Suc ?la))"
    using cell1 cell1' ch dup [of a] len neg by (simp add: numeral_2_eq_2 Let_def)
  have r2: "read_cells alloc ?v (?la + ?lb + ?lc + 2) 2 (Suc ?la) = Ok ([Some b, Some c], ?la + ?lb + ?lc + 2)"
    using cell2 cell3 ch dup [of b "ARRAY_CELL_END_CHAR # c"] dup [of c "[]"] len
    by (simp add: numeral_2_eq_2 Let_def)
  have "read_rows alloc ?v 2 (Suc (Suc 0)) 0 =
      (if alloc 0 then Fault Oob_read else Ok [[Some a, None], [Some b, Some c]])"
    using r1 r2 row1 row2 by (simp add: Let_def)
  then show ?thesis by (simp add: numeral_2_eq_2 del: read_rows.simps read_cells.simps)
qed

subsection \<open>Properties\<close>

definition sample_entry :: nvram_entry where
  "sample_entry = \<lparr>ce_name = ''hosts'', ce_value = None, ce_data = [[Some ''pc'', Some ''1''], [Some ''tv'', Some ''2'']],
     ce_type = NVRAM_ENTRY_TYPE_ARRAY, ce_rows_used = 2, ce_rows_avail = 2, ce_columns = 2, ce_changed = False\<rparr>"

lemma sample_entry_inv: "entry_inv sample_entry"
  by (simp add: entry_inv_def sample_entry_def)

text \<open>
  C4. Writing a cell of an array succeeds exactly when the array need not grow in both directions at once,
  the numbers of rows and columns it grows to are below 2^30 (so that their sizes in bytes do not
  wrap) and there is memory for them. It then keeps the invariant of the entry, makes the cell
  read back as the value written (NULL included) if there was memory for the copy of it, and leaves every
  other cell of the rows in use as it was. In every other case the program accesses memory that is not the array's.
\<close>

theorem array_cell_write_read:
  assumes "entry_inv e" "ce_type e = NVRAM_ENTRY_TYPE_ARRAY" "0 \<le> row" "0 \<le> column"
  shows "if (row < int (ce_rows_avail e) \<or> column < int (ce_columns e)) \<and> array_fits alloc e row column
    then \<exists>e'. set_array_value_in_nvram_entry alloc e row column val = Ok e' \<and> entry_inv e'
      \<and> (dup_cell alloc val = val \<longrightarrow> array_cell e' row column = Ok val)
      \<and> (\<forall>r c. (r, c) \<noteq> (row, column) \<and> 0 \<le> r \<and> r < int (ce_rows_used e) \<and> 0 \<le> c \<and> c < int (ce_columns e)
           \<longrightarrow> array_cell e' r c = array_cell e r c)
    else \<exists>c. set_array_value_in_nvram_entry alloc e row column val = Fault c"
proof (cases "set_array_value_in_nvram_entry alloc e row column val")
  case (Ok e')
  then show ?thesis
    using set_entry_result [OF assms Ok] set_entry_needs [OF assms Ok] by auto
next
  case (Fault c)
  then show ?thesis using set_entry_ok [OF assms, of alloc val] by auto
qed

theorem array_cell_write_read_witness:
  "(\<exists>e'. set_array_value_in_nvram_entry (\<lambda>n. n < 1000) sample_entry 2 1 (Some ''9'') = Ok e' \<and> entry_inv e'
      \<and> array_cell e' 2 1 = Ok (Some ''9''))
   \<and> (\<exists>c. set_array_value_in_nvram_entry (\<lambda>n. n < 1000) sample_entry 1073741823 1 (Some ''9'') = Fault c)"
proof -
  have "ce_type sample_entry = NVRAM_ENTRY_TYPE_ARRAY" "(1 :: int) < int (ce_columns sample_entry)"
    "array_fits (\<lambda>n. n < 1000) sample_entry 2 1" "\<not> array_fits (\<lambda>n. n < 1000) sample_entry 1073741823 1"
    "dup_cell (\<lambda>n. n < 1000) (Some ''9'') = Some ''9''"
    by (simp_all add: sample_entry_def array_fits_def dup_cell_def)
  then show ?thesis
    using array_cell_write_read [OF sample_entry_inv, of 2 1 "\<lambda>n. n < 1000" "Some ''9''"]
      array_cell_write_read [OF sample_entry_inv, of 1073741823 1 "\<lambda>n. n < 1000" "Some ''9''"] by auto
qed



text \<open>
  C24. The buffer in which an array is put together is never overrun, and the text of the
  entry becomes that of its rows in use.
\<close>

theorem array_sync_in_bounds:
  assumes "entry_inv e" "ce_type e = NVRAM_ENTRY_TYPE_ARRAY"
  shows "nvram_entry_sync_value_to_data e = Ok (e\<lparr>ce_value := Some (array_text (entry_rows e))\<rparr>)"
  using assms by (rule sync_value_ok)

theorem array_sync_in_bounds_witness:
  "nvram_entry_sync_value_to_data sample_entry =
    Ok (sample_entry\<lparr>ce_value := Some [CHR ''p'', CHR ''c'', CHR 0x02, CHR ''1'', CHR 0x01, CHR ''t'', CHR ''v'', CHR 0x02, CHR ''2'']\<rparr>)"
  using array_sync_in_bounds [OF sample_entry_inv]
  by (simp add: sample_entry_def entry_rows_def array_text_def cell_text_def)

text \<open>
  Writing a cell beyond the last row and the last column at once reads and writes outside
  the new row, which was allocated with the old number of columns. Every first write into an
  empty array is such a write.
\<close>

theorem array_growth_overruns:
  assumes "entry_inv e" "ce_type e \<noteq> NVRAM_ENTRY_TYPE_TEXT" "int (ce_rows_avail e) \<le> row" "int (ce_columns e) \<le> column"
  shows "\<exists>c. set_array_value_in_nvram_entry alloc e row column val = Fault c"
  using assms by (rule set_entry_grows_both)

theorem array_growth_overruns_witness:
  "\<exists>c. set_array_value_in_nvram_entry (\<lambda>_. True) (nvram_cache_create_entry ''hosts'' None) 0 0 (Some ''pc'') = Fault c"
  using array_growth_overruns [of "nvram_cache_create_entry ''hosts'' None" 0 0 "\<lambda>_. True" "Some ''pc''"]
  by (simp add: nvram_cache_create_entry_def entry_inv_def)

text \<open>
  The size of a table of 2^30 rows wraps: a write to a row close below 2^30 or above, which a page can
  name, has memory for only a few pointers and overruns it, however much memory there is.
\<close>

theorem row_size_wraps:
  assumes "ce_type e = NVRAM_ENTRY_TYPE_ARRAY" "int (ce_rows_avail e) \<le> row" "2 ^ 30 - 5 \<le> row" "row + 5 < 2 ^ 31"
    "0 \<le> column" "column + 1 < 2 ^ 31" "\<forall>n. alloc n"
  shows "set_array_value_in_nvram_entry alloc e row column val = Fault Oob_write"
proof -
  have "0 \<le> row" using assms(2) by linarith
  note st = set_entry_steps [OF assms(1) this assms(5) refl refl refl refl, of alloc val]
  have "resize_pointers alloc (nat row + 5) \<noteq> Ok ()" using assms(3) by (auto simp: resize_pointers_ok)
  then have "resize_pointers alloc (nat row + 5) = Fault Oob_write" using assms(7) by (simp add: resize_pointers_def split: if_splits)
  moreover have "ce_rows_avail e \<le> nat row" "\<not> 2 ^ 31 \<le> nat row + 5" "\<not> 2 ^ 31 \<le> nat column + 1"
    using assms(2,4,5,6) \<open>0 \<le> row\<close> by auto
  ultimately show ?thesis unfolding st by (simp add: grow_data_def grow_rows_def)
qed

theorem row_size_wraps_witness:
  "set_array_value_in_nvram_entry (\<lambda>_. True) sample_entry 1073741823 0 (Some ''9'') = Fault Oob_write"
  using row_size_wraps [of sample_entry 1073741823 0 "\<lambda>_. True" "Some ''9''"] by (simp add: sample_entry_def)

text \<open>
  A row with fewer cells than the longest row, unless it is the last one, makes the parser
  copy a string of length -1: where malloc(0) returns memory the copy runs out of bounds,
  elsewhere the missing cell becomes NULL.
\<close>

theorem ragged_row_copies_minus_one:
  assumes "clean_cell a" "clean_cell b" "clean_cell c" "\<forall>n. 0 < n \<longrightarrow> alloc n" "length (a @ b @ c) < 2 ^ 31"
  shows "parse_entry alloc (a @ ARRAY_ROW_END_CHAR # b @ ARRAY_CELL_END_CHAR # c) e =
    (if alloc 0 then Fault Oob_read
     else Ok (e\<lparr>ce_rows_used := 2, ce_rows_avail := 2, ce_columns := 2, ce_type := NVRAM_ENTRY_TYPE_ARRAY,
       ce_data := [[Some a, None], [Some b, Some c]]\<rparr>))"
proof -
  let ?v = "a @ ARRAY_ROW_END_CHAR # b @ ARRAY_CELL_END_CHAR # c"
  have "count_loop ?v 1 1 1 = (2, 2)"
    using assms count_loop_cell [of a "ARRAY_ROW_END_CHAR # b @ ARRAY_CELL_END_CHAR # c"]
      count_loop_cell [of b "ARRAY_CELL_END_CHAR # c"] count_loop_cell [of c "[]"] by simp
  with read_ragged [OF assms] show ?thesis by (simp add: parse_entry_def)
qed

theorem ragged_row_copies_minus_one_witness:
  "parse_entry (\<lambda>_. True) (''a'' @ ARRAY_ROW_END_CHAR # ''b'' @ ARRAY_CELL_END_CHAR # ''c'') sample_entry = Fault Oob_read"
  using ragged_row_copies_minus_one [of "''a''" "''b''" "''c''" "\<lambda>_. True" sample_entry]
  by (simp add: clean_cell_def)

end
