(* ===== verification/Cache_Sync.thy ===== *)
theory Cache_Sync
  imports Nvram_Cache
begin

section \<open>The cache and the store behind it\<close>

text \<open>
  What the cache as a whole promises: its invariant and that every operation keeps it, that
  a variable is looked up in the store at most once, and that the changed variables reach
  the store and the flash when the cache is written back.
\<close>

subsection \<open>The NVRAM library leaves the client's part of the state alone\<close>

definition frame :: "('z nvram_scheme \<Rightarrow> ('a, 'z nvram_scheme) run) \<Rightarrow> bool" where
  "frame m \<longleftrightarrow> (\<forall>s. nvram.more (state_of (m s)) = nvram.more s)"

lemma frame_sbind: "frame m \<Longrightarrow> (\<And>x. frame (f x)) \<Longrightarrow> frame (\<lambda>s. sbind (m s) f)"
  unfolding frame_def by (metis run.exhaust sbind_simps state_of.simps)

lemma frame_Ret [simp, intro]: "frame (Ret x)"
  by (simp add: frame_def)

lemma frame_nvram_lock: "frame (nvram_lock p)"
  by (simp add: frame_def nvram_lock_def)

lemma frame_nvram_unlock: "frame (nvram_unlock fd)"
  by (simp add: frame_def nvram_unlock_def split: option.split)

lemma frame_with_lock: "frame m \<Longrightarrow> frame (with_lock p m)"
proof -
  assume m: "frame m"
  have "frame (\<lambda>s. sbind (nvram_lock p s) (\<lambda>lock s. sbind (m s) (\<lambda>r s. sbind (nvram_unlock lock s) (\<lambda>_ s. Ret r s))))"
    by (intro frame_sbind frame_nvram_lock frame_nvram_unlock m frame_Ret)
  then show ?thesis by (simp add: with_lock_def [abs_def])
qed

lemma frame_get_unlock: "frame (nvram_get_func_unlock name p)"
  unfolding frame_def nvram_get_func_unlock_def lift_def add_nv_entry_def
  by (auto split: option.splits res.splits)

lemma frame_set_unlock: "frame (nvram_set_func_unlock name v p)"
  unfolding frame_def nvram_set_func_unlock_def lift_def Let_def writeFileBin_unlock_def
  by (auto split: option.splits res.splits)

lemma frame_nvram_set: "frame (nvram_set name v)"
  by (simp add: nvram_set_def nvram_set_func_def frame_with_lock frame_set_unlock)

lemma frame_nvram_get: "frame (nvram_get name)"
proof -
  let ?g = "\<lambda>p. nvram_get_func name p"
  have g: "frame (?g p)" for p by (simp add: nvram_get_func_def frame_with_lock frame_get_unlock)
  have d: "frame (\<lambda>s. sbind (?g NVRAM_DEFAULT s) (\<lambda>pt s. case pt of None \<Rightarrow> Ret None s
      | Some v \<Rightarrow> sbind (nvram_set name (Some v) s) (\<lambda>_ s. Ret (hide_deleted v) s)))"
  proof (rule frame_sbind [OF g])
    fix pt :: cptr
    show "frame (\<lambda>s. case pt of None \<Rightarrow> Ret None s
        | Some v \<Rightarrow> sbind (nvram_set name (Some v) s) (\<lambda>_ s. Ret (hide_deleted v) s))"
      by (cases pt) (auto intro: frame_sbind [OF frame_nvram_set])
  qed
  have "frame (\<lambda>s. sbind (?g NVRAM_TMP_PATH s) (\<lambda>pt s. case pt of Some v \<Rightarrow> Ret (hide_deleted v) s
      | None \<Rightarrow> sbind (?g NVRAM_DEFAULT s) (\<lambda>pt s. case pt of None \<Rightarrow> Ret None s
        | Some v \<Rightarrow> sbind (nvram_set name (Some v) s) (\<lambda>_ s. Ret (hide_deleted v) s))))"
  proof (rule frame_sbind [OF g])
    fix pt :: cptr
    show "frame (\<lambda>s. case pt of Some v \<Rightarrow> Ret (hide_deleted v) s
        | None \<Rightarrow> sbind (?g NVRAM_DEFAULT s) (\<lambda>pt s. case pt of None \<Rightarrow> Ret None s
          | Some v \<Rightarrow> sbind (nvram_set name (Some v) s) (\<lambda>_ s. Ret (hide_deleted v) s)))"
      using d by (cases pt) auto
  qed
  then show ?thesis by (simp add: nvram_get_def [abs_def])
qed

lemma frame_commit_unlock: "frame nvram_commit_unlock"
  unfolding frame_def nvram_commit_unlock_def Let_def by (auto split: option.splits)

lemma frame_nvram_commit: "frame nvram_commit"
  unfolding nvram_commit_def by (intro frame_with_lock frame_commit_unlock)

lemma more_nc: "nvram.more t = nvram.more s \<Longrightarrow> nc t = nc (s :: 'z nvcache_scheme)"
  by (cases s, cases t) simp

lemma frame_nc: "frame m \<Longrightarrow> m s = Ret x t \<Longrightarrow> nc t = nc (s :: 'z nvcache_scheme)"
  unfolding frame_def by (metis more_nc state_of.simps(1))

subsection \<open>Invariant of the cache\<close>

definition nc_inv :: "nvram_cache \<Rightarrow> bool" where
  "nc_inv c \<longleftrightarrow>
     length (nc_cache c) = nc_num_avail c \<and> nc_num_used c \<le> nc_num_avail c
     \<and> nc_num_avail c \<le> nc_num_used c + 10 \<and> None \<notin> set (take (nc_num_used c) (nc_cache c))"

definition nc_list :: "nvram_cache \<Rightarrow> nvram_entry list" where
  "nc_list c = map the (take (nc_num_used c) (nc_cache c))"

lemma nc_push_take:
  "nc_inv c \<Longrightarrow>
   take (Suc (nc_num_used c)) (nc_cache (nc_push e c)) = take (nc_num_used c) (nc_cache c) @ [Some e]"
  by (auto simp: nc_push_def nc_inv_def Let_def take_Suc_conv_app_nth)

lemma nc_push_counts:
  "nc_num_used (nc_push e c) = nc_num_used c + 1"
  "nc_num_avail (nc_push e c) = (if nc_num_avail c = nc_num_used c then nc_num_avail c + 10 else nc_num_avail c)"
  "length (nc_cache (nc_push e c)) =
     (if nc_num_avail c = nc_num_used c then length (nc_cache c) + 10 else length (nc_cache c))"
  by (simp_all add: nc_push_def Let_def)

interpretation nvc: growable nc_inv nc_num_used "length \<circ> nc_cache" nc_list nc_push
proof unfold_locales
  fix c e
  assume c: "nc_inv c"
  note t = nc_push_take [OF c, of e]
  show "nc_inv (nc_push e c)"
    using c t by (auto simp: nc_inv_def nc_push_counts)
  show "nc_list (nc_push e c) = nc_list c @ [e]"
    using t by (simp add: nc_list_def nc_push_counts)
qed (auto simp: nc_inv_def nc_list_def nc_push_counts)

definition cache_ok :: "nvram_cache \<Rightarrow> bool" where
  "cache_ok c \<longleftrightarrow> nc_inv c \<and> (\<forall>e\<in>set (nc_list c). entry_inv e) \<and> distinct (map ce_name (nc_list c))"

definition cached :: "'z nvcache_scheme \<Rightarrow> bool" where
  "cached s \<longleftrightarrow> cache_ok (cache_of s)"

lemma cache_ok_empty [simp]: "cache_ok \<lparr>nc_num_avail = 0, nc_num_used = 0, nc_cache = []\<rparr>"
  by (simp add: cache_ok_def nc_inv_def nc_list_def)

lemma cached_None: "nc s = None \<Longrightarrow> cached s"
  by (simp add: cached_def cache_of_def)

lemma nc_slots: "nc_inv c \<Longrightarrow> take (nc_num_used c) (nc_cache c) = map Some (nc_list c)"
proof -
  have "map Some (map the xs) = xs" if "None \<notin> set xs" for xs :: "nvram_entry option list"
    using that by (induction xs) auto
  then show "nc_inv c \<Longrightarrow> ?thesis" by (metis nc_inv_def nc_list_def)
qed

lemma nc_nth:
  assumes "nc_inv c" "i < nc_num_used c"
  shows "nc_cache c ! i = Some (nc_list c ! i)" "i < length (nc_cache c)" "i < length (nc_list c)"
proof -
  show l: "i < length (nc_list c)" using assms nvc.used_elems by fastforce
  show "i < length (nc_cache c)" using assms by (auto simp: nc_inv_def)
  from nc_slots [OF assms(1)] l assms(2) show "nc_cache c ! i = Some (nc_list c ! i)"
    by (metis nth_map nth_take)
qed

lemma find_entry_list:
  "nc_inv c \<Longrightarrow> find_entry name c = first_index (\<lambda>e. ce_name e = name) (nc_list c)"
proof -
  have "first_index (\<lambda>slot. case slot of None \<Rightarrow> False | Some e \<Rightarrow> ce_name e = name) (map Some es) =
      first_index (\<lambda>e. ce_name e = name) es" for es by (induction es) auto
  then show "nc_inv c \<Longrightarrow> ?thesis" by (simp add: find_entry_def nc_slots)
qed

text \<open>Replacing an entry by one of the same name that keeps the invariant.\<close>

definition upd_entry :: "nat \<Rightarrow> nvram_entry \<Rightarrow> nvram_cache \<Rightarrow> nvram_cache" where
  "upd_entry i e c = c\<lparr>nc_cache := (nc_cache c)[i := Some e]\<rparr>"

lemma nc_list_upd:
  assumes "nc_inv c" "i < nc_num_used c"
  shows "nc_inv (upd_entry i e c) \<and> nc_list (upd_entry i e c) = (nc_list c)[i := e]"
proof -
  have t: "take (nc_num_used c) ((nc_cache c)[i := Some e]) = map Some ((nc_list c)[i := e])"
    using nc_slots [OF assms(1)] assms(2) by (simp add: take_update_swap map_update)
  then have "None \<notin> set (take (nc_num_used c) ((nc_cache c)[i := Some e]))" by auto
  with assms t show ?thesis by (simp add: nc_inv_def nc_list_def upd_entry_def comp_def)
qed

lemma cache_ok_upd:
  assumes c: "cache_ok c" and i: "i < nc_num_used c"
    and e: "entry_inv e" "ce_name e = ce_name (nc_list c ! i)"
  shows "cache_ok (upd_entry i e c)"
proof -
  have inv: "nc_inv c" using c by (simp add: cache_ok_def)
  have l: "i < length (nc_list c)" by (rule nc_nth(3) [OF inv i])
  have "map ce_name ((nc_list c)[i := e]) = map ce_name (nc_list c)"
    using l e(2) by (metis list_update_id map_update)
  with c e(1) nc_list_upd [OF inv i, of e] show ?thesis
    by (auto simp: cache_ok_def dest!: set_update_subset_insert [THEN subsetD])
qed

lemma parse_entry_inv:
  assumes "parse_entry alloc v (nvram_cache_create_entry name val) = Ok e"
  shows "entry_inv e \<and> ce_name e = name"
proof -
  have cells: "read_cells alloc v re n cp = Ok (cs, cp') \<Longrightarrow> length cs = n" for re n cp cs cp'
    by (induction n arbitrary: cp cs) (auto simp: Let_def rbind_Ok_iff)
  have rows: "read_rows alloc v n m cp = Ok rs \<Longrightarrow> length rs = m \<and> (\<forall>r\<in>set rs. length r = n)" for n m cp rs
    by (induction m arbitrary: cp rs) (auto simp: Let_def rbind_Ok_iff dest: cells)
  have cnt: "count_loop v rc cc cm = (r, m) \<Longrightarrow> 0 < cm \<Longrightarrow> 0 < m" for rc cc cm r m
    by (induction v rc cc cm rule: count_loop.induct) (auto split: if_splits)
  show ?thesis
    using assms cnt [of 1 1 1] rows
    by (cases "count_loop v 1 1 1")
      (fastforce simp: parse_entry_def nvram_cache_create_entry_def entry_inv_def rbind_Ok_iff split: if_splits)
qed

subsection \<open>Fetching a variable\<close>

lemma cache_of_create [simp]: "cache_of (create_nvram_cache s) = cache_of s"
  by (simp add: create_nvram_cache_def cache_of_def)

lemma cache_of_nc: "nc t = nc s \<Longrightarrow> cache_of t = cache_of s"
  by (simp add: cache_of_def)

lemma nc_create: "nc (create_nvram_cache s) = Some (cache_of s)"
  by (auto simp: create_nvram_cache_def cache_of_def)

lemma cache_of_put:
  "nc s \<noteq> None \<Longrightarrow> cache_of (put_entry i e s) = upd_entry i e (cache_of s)"
  by (auto simp: put_entry_def cache_of_def upd_entry_def)

lemma entry_at_eq: "nc s \<noteq> None \<Longrightarrow> entry_at i s = (if i < length (nc_cache (cache_of s)) then nc_cache (cache_of s) ! i else None)"
  by (auto simp: entry_at_def cache_of_def)

text \<open>
  The result is an index below the fill count whose entry has the name asked for; the
  entries already there are kept, and the invariant holds.
\<close>

lemma want_variable_cases:
  assumes s: "cached s" and r: "nvram_cache_want_variable (Some name) s = Ret ri t" and name: "name \<noteq> []"
  shows "\<exists>i. ri = Some i \<and> cached t \<and> nc t \<noteq> None \<and> i < nc_num_used (cache_of t)
    \<and> ce_name (nc_list (cache_of t) ! i) = name
    \<and> (\<exists>es. nc_list (cache_of t) = nc_list (cache_of s) @ es)"
proof (cases "find_entry name (cache_of s)")
  case (Some i)
  have inv: "nc_inv (cache_of s)" using s by (simp add: cached_def cache_ok_def)
  from Some r name have t: "ri = Some i" "t = create_nvram_cache s"
    by (auto simp: nvram_cache_want_variable_def Let_def)
  from Some inv have "i < length (nc_list (cache_of s)) \<and> ce_name (nc_list (cache_of s) ! i) = name"
    using first_index_SomeD [of "\<lambda>e. ce_name e = name" "nc_list (cache_of s)" i] by (simp add: find_entry_list)
  with t s inv show ?thesis by (simp add: cached_def nvc.used_elems [OF inv] nc_create)
next
  case None
  let ?c = "cache_of s" and ?s1 = "create_nvram_cache s"
  have inv: "nc_inv ?c" using s by (simp add: cached_def cache_ok_def)
  from None r name obtain val s2 where g: "nvram_get name ?s1 = Ret val s2"
    and rest: "(let i = nc_num_used (cache_of s2); e = nvram_cache_create_entry name val;
        s = s2\<lparr>nc := Some (nc_push e (cache_of s2))\<rparr>
      in case val of None \<Rightarrow> Ret (Some i) s
         | Some v \<Rightarrow> sbind (lift (parse_entry (can_alloc s) v e) s) (\<lambda>e s. Ret (Some i) (put_entry i e s))) = Ret ri t"
    by (auto simp: nvram_cache_want_variable_def Let_def sbind_Ret_iff)
  have c2: "cache_of s2 = ?c" using frame_nc [OF frame_nvram_get g] by (metis cache_of_create cache_of_nc)
  let ?i = "nc_num_used ?c" and ?e = "nvram_cache_create_entry name val"
  let ?c3 = "nc_push ?e ?c"
  have fresh: "name \<notin> ce_name ` set (nc_list ?c)"
    using None inv by (auto simp: find_entry_list first_index_None_iff)
  have l3: "nc_list ?c3 = nc_list ?c @ [?e]" "nc_inv ?c3" "?i = length (nc_list ?c)"
    using inv nvc.elems_add nvc.invar_add nvc.used_elems by auto
  then have ok3: "cache_ok ?c3" and i3: "?i < nc_num_used ?c3" and n3: "nc_list ?c3 ! ?i = ?e"
    using s fresh by (auto simp: cached_def cache_ok_def nc_push_counts nvram_cache_create_entry_def entry_inv_def)
  have "\<exists>e. ri = Some ?i \<and> ce_name e = name \<and> entry_inv e \<and> nc t = Some (upd_entry ?i e ?c3)"
  proof (cases val)
    case None
    have "upd_entry ?i ?e ?c3 = ?c3"
    proof -
      have "(nc_cache ?c3)[?i := Some ?e] = nc_cache ?c3"
        using nc_nth(1) [OF l3(2) i3] n3 by (metis list_update_id)
      then show ?thesis by (simp only: upd_entry_def) simp
    qed
    with rest None c2 show ?thesis
      by (intro exI [of _ ?e]) (auto simp: Let_def nvram_cache_create_entry_def entry_inv_def)
  next
    case (Some v)
    with rest c2 obtain e where "parse_entry (can_alloc s2) v ?e = Ok e" "ri = Some ?i"
      "t = put_entry ?i e (s2\<lparr>nc := Some ?c3\<rparr>)"
      by (auto simp: Let_def sbind_Ret_iff lift_Ret_iff)
    with parse_entry_inv show ?thesis by (fastforce simp: put_entry_def upd_entry_def)
  qed
  then obtain e where e: "ri = Some ?i" "ce_name e = name" "entry_inv e" "nc t = Some (upd_entry ?i e ?c3)" by auto
  then have ct: "cache_of t = upd_entry ?i e ?c3" by (simp add: cache_of_def)
  have "cache_ok (upd_entry ?i e ?c3)"
    using ok3 i3 e n3 by (intro cache_ok_upd) (auto simp: nvram_cache_create_entry_def)
  moreover have "nc_list (upd_entry ?i e ?c3) = nc_list ?c @ [e]"
    using nc_list_upd [OF l3(2) i3, of e] l3 by simp
  ultimately show ?thesis
    using e ct i3 l3 by (auto simp: cached_def upd_entry_def)
qed

text \<open>An operation on the entry of a variable: it runs on an entry of the cache or not at all.\<close>

lemma with_entry_named:
  assumes s: "cached s" and r: "with_entry (Some name) dflt f s = Ret x t" and name: "name \<noteq> []"
  shows "\<exists>i u. cached u \<and> nc u \<noteq> None \<and> i < nc_num_used (cache_of u)
       \<and> ce_name (nc_list (cache_of u) ! i) = name
       \<and> (\<exists>es. nc_list (cache_of u) = nc_list (cache_of s) @ es)
       \<and> f i (nc_list (cache_of u) ! i) u = Ret x t"
proof -
  from r obtain ri u where u: "nvram_cache_want_variable (Some name) s = Ret ri u"
    "(case ri of None \<Rightarrow> Ret dflt u
      | Some i \<Rightarrow> (case entry_at i u of None \<Rightarrow> Ret dflt u | Some e \<Rightarrow> f i e u)) = Ret x t"
    by (auto simp: with_entry_def sbind_Ret_iff)
  from want_variable_cases [OF s u(1) name] obtain i es where i: "ri = Some i" "cached u" "nc u \<noteq> None"
    "i < nc_num_used (cache_of u)" "ce_name (nc_list (cache_of u) ! i) = name"
    "nc_list (cache_of u) = nc_list (cache_of s) @ es" by auto
  have inv: "nc_inv (cache_of u)" using i(2) by (simp add: cached_def cache_ok_def)
  have "entry_at i u = Some (nc_list (cache_of u) ! i)"
    using nc_nth [OF inv i(4)] i(3) by (simp add: entry_at_eq)
  with u(2) i(1) have "f i (nc_list (cache_of u) ! i) u = Ret x t" by simp
  with i show ?thesis by blast
qed

lemma with_entry_cases:
  assumes s: "cached s" and r: "with_entry namep dflt f s = Ret x t"
  shows "cached t \<and> x = dflt \<or>
    (\<exists>i u. cached u \<and> nc u \<noteq> None \<and> i < nc_num_used (cache_of u)
       \<and> Some (ce_name (nc_list (cache_of u) ! i)) = namep
       \<and> (\<exists>es. nc_list (cache_of u) = nc_list (cache_of s) @ es)
       \<and> f i (nc_list (cache_of u) ! i) u = Ret x t)"
proof (cases "namep = None \<or> namep = Some []")
  case True
  with s r show ?thesis by (auto simp: with_entry_def nvram_cache_want_variable_def)
next
  case False
  then obtain name where "namep = Some name" "name \<noteq> []" by auto
  with with_entry_named [OF s, of name dflt f x t] r show ?thesis by blast
qed

lemma cached_put:
  assumes "cached u" "nc u \<noteq> None" "i < nc_num_used (cache_of u)" "entry_inv e"
    "ce_name e = ce_name (nc_list (cache_of u) ! i)"
  shows "cached (put_entry i e u)"
  using assms cache_ok_upd [of "cache_of u" i e] by (simp add: cached_def cache_of_put)

lemma entry_inv_nth: "cached u \<Longrightarrow> i < nc_num_used (cache_of u) \<Longrightarrow> entry_inv (nc_list (cache_of u) ! i)"
  using nc_nth(3) by (auto simp: cached_def cache_ok_def)

lemma cached_create [simp]: "cached (create_nvram_cache s) = cached s"
  by (simp add: cached_def)

lemma set_entry_inv:
  assumes "entry_inv e" "set_array_value_in_nvram_entry alloc e row column val = Ok e'"
  shows "entry_inv e' \<and> ce_name e' = ce_name e"
proof -
  let ?e = "if ce_type e = NVRAM_ENTRY_TYPE_UNKNOWN
     then e\<lparr>ce_type := NVRAM_ENTRY_TYPE_ARRAY, ce_rows_avail := 0, ce_rows_used := 0, ce_columns := 0\<rparr> else e"
  have inv: "entry_inv ?e" and name: "ce_name ?e = ce_name e" using assms(1) by (auto simp: entry_inv_def)
  from assms(2) have set: "set_array_value_in_nvram_entry alloc ?e row column val = Ok e'" by (subst (asm) set_entry_unknown)
  show ?thesis
  proof (cases "ce_type ?e \<noteq> NVRAM_ENTRY_TYPE_ARRAY \<or> row < 0 \<or> column < 0")
    case True
    with set have "e' = ?e" by (auto simp: set_array_value_in_nvram_entry_def Let_def split: if_splits)
    with inv name show ?thesis by simp
  next
    case False
    with set_entry_result [OF inv _ _ _ set] name show ?thesis by simp
  qed
qed

lemma remove_row_inv: "entry_inv e \<Longrightarrow> entry_inv (remove_row row e) \<and> ce_name (remove_row row e) = ce_name e"
proof (cases "ce_type e \<noteq> NVRAM_ENTRY_TYPE_ARRAY \<or> row < 0 \<or> int (ce_rows_used e) \<le> row")
  case False
  assume "entry_inv e"
  with False remove_row_rows [of e "nat row"] show ?thesis by (auto simp: remove_row_def Let_def)
qed (simp add: remove_row_def)

lemma clear_rows_inv: "entry_inv e \<Longrightarrow> entry_inv (clear_rows row e) \<and> ce_name (clear_rows row e) = ce_name e"
  by (auto simp: clear_rows_def entry_inv_def)

lemma type_change_inv:
  "entry_inv e \<Longrightarrow> ce_type e \<noteq> NVRAM_ENTRY_TYPE_ARRAY \<Longrightarrow> entry_inv (e\<lparr>ce_type := ty\<rparr>)"
  by (auto simp: entry_inv_def)

lemma value_change_inv: "entry_inv e \<Longrightarrow> entry_inv (e\<lparr>ce_value := v, ce_changed := b\<rparr>)"
  by (simp add: entry_inv_def)

text \<open>\<open>at u i e\<close>: the cache of \<open>u\<close> keeps its invariant and has \<open>e\<close> as its entry \<open>i\<close>.\<close>

definition at :: "'z nvcache_scheme \<Rightarrow> nat \<Rightarrow> nvram_entry \<Rightarrow> bool" where
  "at u i e \<longleftrightarrow> cached u \<and> nc u \<noteq> None \<and> i < nc_num_used (cache_of u) \<and> nc_list (cache_of u) ! i = e"

lemma at_inv: "at u i e \<Longrightarrow> entry_inv e"
  by (auto simp: at_def entry_inv_nth)

lemma at_cached: "at u i e \<Longrightarrow> cached u"
  by (simp add: at_def)

lemma at_put: "at u i e \<Longrightarrow> entry_inv e' \<and> ce_name e' = ce_name e \<Longrightarrow> cached (put_entry i e' u)"
  by (auto simp: at_def cached_put)

lemma with_entry_keeps:
  assumes "cached s" "with_entry namep dflt f s = Ret x t"
    and "\<And>i e u. at u i e \<Longrightarrow> f i e u = Ret x t \<Longrightarrow> cached t"
  shows "cached t"
  using with_entry_cases [OF assms(1,2)] assms(3) unfolding at_def by blast

lemma cached_want: "cached s \<Longrightarrow> nvram_cache_want_variable namep s = Ret r t \<Longrightarrow> cached t"
proof (cases "namep = None \<or> namep = Some []")
  case False
  assume "cached s" "nvram_cache_want_variable namep s = Ret r t"
  moreover from False obtain name where "namep = Some name" "name \<noteq> []" by auto
  ultimately show ?thesis using want_variable_cases by blast
qed (auto simp: nvram_cache_want_variable_def)

lemma cached_require:
  fixes s :: "'z nvcache_scheme"
  assumes "cached s" "require_variable_in_nvram_cache namep ty s = Ret r t"
  shows "cached t"
proof (rule with_entry_keeps [OF assms(1) assms(2) [unfolded require_variable_in_nvram_cache_def]])
  fix i e and u :: "'z nvcache_scheme"
  assume u: "at u i e"
  assume r: "(if ce_type e = ty then Ret True u
       else (case ce_type e of
               NVRAM_ENTRY_TYPE_UNKNOWN \<Rightarrow> Ret True (put_entry i (e\<lparr>ce_type := ty\<rparr>) u)
             | NVRAM_ENTRY_TYPE_TEXT \<Rightarrow>
                 if ty = NVRAM_ENTRY_TYPE_ARRAY then
                   sbind (lift (set_array_value_in_nvram_entry (can_alloc u)
                       (e\<lparr>ce_type := NVRAM_ENTRY_TYPE_ARRAY\<rparr>) 0 0 (ce_value e)) u)
                     (\<lambda>e s. Ret True (put_entry i e s))
                 else Ret False u
             | NVRAM_ENTRY_TYPE_ARRAY \<Rightarrow> Ret False u)) = Ret r t"
  have keep: "cached u" using u by (simp add: at_def)
  show "cached t"
  proof (cases "ce_type e")
    case NVRAM_ENTRY_TYPE_UNKNOWN
    with r keep u show ?thesis
      by (auto split: if_splits intro!: at_put [OF u] type_change_inv at_inv [OF u])
  next
    case NVRAM_ENTRY_TYPE_TEXT
    then have inv: "entry_inv (e\<lparr>ce_type := NVRAM_ENTRY_TYPE_ARRAY\<rparr>)"
      by (intro type_change_inv at_inv [OF u]) simp
    from NVRAM_ENTRY_TYPE_TEXT r keep set_entry_inv [OF inv] show ?thesis
      by (auto split: if_splits simp: sbind_Ret_iff lift_Ret_iff intro!: at_put [OF u])
  qed (use r keep in \<open>auto split: if_splits\<close>)
qed

lemma cached_set_value:
  assumes "cached s" "set_value_in_nvram_cache namep val s = Ret r t"
  shows "cached t"
  using assms(2) unfolding set_value_in_nvram_cache_def
  by (rule with_entry_keeps [rotated])
    (use assms(1) in \<open>auto split: if_splits option.splits intro: at_cached at_put simp: value_change_inv [OF at_inv]\<close>)

lemma cached_set_array_value:
  assumes "cached s" "set_array_value_in_nvram_cache namep row column val s = Ret r t"
  shows "cached t"
proof (cases "nc s = None")
  case False
  with assms(2) have "with_entry namep () (\<lambda>i e s.
      sbind (lift (set_array_value_in_nvram_entry (can_alloc s) e row column val) s) (\<lambda>e s. Ret () (put_entry i e s))) s = Ret r t"
    by (simp add: set_array_value_in_nvram_cache_def)
  from assms(1) this show ?thesis
    by (rule with_entry_keeps) (auto simp: sbind_Ret_iff lift_Ret_iff intro: at_put [OF _ set_entry_inv [OF at_inv]])
qed (use assms in \<open>simp add: set_array_value_in_nvram_cache_def\<close>)

lemma cached_remove_row:
  assumes "cached s" "remove_row_from_array_in_nvram_cache namep row s = Ret r t"
  shows "cached t"
  using assms(2) unfolding remove_row_from_array_in_nvram_cache_def
  by (rule with_entry_keeps [rotated]) (use assms(1) in \<open>auto intro: at_put [OF _ remove_row_inv [OF at_inv]]\<close>)

lemma cached_clear_rows:
  assumes "cached s" "clear_array_rows_this_and_above_in_nvram_cache namep row s = Ret r t"
  shows "cached t"
proof (cases "nc s = None")
  case False
  with assms(2) have "with_entry namep () (\<lambda>i e s. Ret () (put_entry i (clear_rows row e) s)) s = Ret r t"
    by (simp add: clear_array_rows_this_and_above_in_nvram_cache_def)
  from assms(1) this show ?thesis
    by (rule with_entry_keeps) (auto intro: at_put [OF _ clear_rows_inv [OF at_inv]])
qed (use assms in \<open>simp add: clear_array_rows_this_and_above_in_nvram_cache_def\<close>)

lemma cached_get_array_value:
  assumes "cached s" "get_array_value_from_nvram_cache namep row column s = Ret r t"
  shows "cached t"
  using assms(2) unfolding get_array_value_from_nvram_cache_def
  by (rule with_entry_keeps [rotated]) (use assms(1) in \<open>auto simp: lift_Ret_iff at_def\<close>)

lemma cached_get_value:
  assumes "cached s" "get_value_from_nvram_cache namep s = Ret r t"
  shows "cached t"
  using assms(2) unfolding get_value_from_nvram_cache_def
  by (rule with_entry_keeps [rotated]) (use assms(1) in \<open>auto simp: at_def\<close>)

lemma cached_get_num_rows:
  assumes "cached s" "get_array_num_rows_from_nvram_cache namep s = Ret r t"
  shows "cached t"
  using assms(2) unfolding get_array_num_rows_from_nvram_cache_def
  by (rule with_entry_keeps [rotated]) (use assms(1) in \<open>auto simp: at_def\<close>)

subsection \<open>Writing back\<close>

text \<open>The value under which an entry is saved, and the entries that can be.\<close>

definition entry_text :: "nvram_entry \<Rightarrow> cptr" where
  "entry_text e = (if ce_type e = NVRAM_ENTRY_TYPE_ARRAY then Some (array_text (entry_rows e)) else ce_value e)"

definition savable :: "nvram_entry \<Rightarrow> bool" where
  "savable e \<longleftrightarrow> entry_inv e \<and> nv_okk (ce_name e)
     \<and> (case entry_text e of None \<Rightarrow> False | Some v \<Rightarrow> is_cstr v)"

lemma savable_okk: "savable e \<Longrightarrow> nv_okk (ce_name e) \<and> is_cstr (the (entry_text e))"
  by (auto simp: savable_def split: option.splits)

definition pending :: "nvram_entry list \<Rightarrow> (string \<times> string) list" where
  "pending es = map (\<lambda>e. (ce_name e, the (entry_text e))) (filter ce_changed es)"

definition saved :: "nvram_entry \<Rightarrow> nvram_entry" where
  "saved e = (if ce_changed e then e\<lparr>ce_value := entry_text e, ce_changed := False\<rparr> else e)"

text \<open>States that differ in the store file, the handed-out values, locks and the cache only.\<close>

definition same_env :: "'z nvcache_scheme \<Rightarrow> 'z nvcache_scheme \<Rightarrow> bool" where
  "same_env s t \<longleftrightarrow>
     t = s\<lparr>files := files t, nv_list := nv_list t, held := held t, nc := nc t\<rparr>
     \<and> (\<forall>q. q \<noteq> NVRAM_TMP_PATH \<longrightarrow> files t q = files s q)"

lemma same_env_refl [simp]: "same_env s s"
  by (simp add: same_env_def)

lemma same_envE:
  assumes "same_env s t"
  obtains f l h c where "t = s\<lparr>files := f, nv_list := l, held := h, nc := c\<rparr>"
    "\<And>q. q \<noteq> NVRAM_TMP_PATH \<Longrightarrow> f q = files s q"
  using assms unfolding same_env_def by blast

lemma same_env_trans: "same_env s t \<Longrightarrow> same_env t u \<Longrightarrow> same_env s u"
  by (erule same_envE, erule same_envE) (simp add: same_env_def)

lemma sync_value_text:
  "entry_inv e \<Longrightarrow> nvram_entry_sync_value_to_data e = Ok (e\<lparr>ce_value := entry_text e\<rparr>)"
  using sync_value_ok [of e]
  by (cases "ce_type e = NVRAM_ENTRY_TYPE_ARRAY") (simp_all add: entry_text_def nvram_entry_sync_value_to_data_def)

lemma put_entry_counts: "nc s \<noteq> None \<Longrightarrow> nc (put_entry i e s) \<noteq> None \<and> nc_num_used (cache_of (put_entry i e s)) = nc_num_used (cache_of s)"
  by (auto simp: put_entry_def cache_of_def)

lemma nc_list_put:
  "cached u \<Longrightarrow> nc u \<noteq> None \<Longrightarrow> i < nc_num_used (cache_of u) \<Longrightarrow>
   nc_list (cache_of (put_entry i e u)) = (nc_list (cache_of u))[i := e] \<and> i < length (nc_list (cache_of u))"
  using nc_list_upd [of "cache_of u" i e] nc_nth(3) [of "cache_of u" i] by (simp add: cache_of_put cached_def cache_ok_def)

lemma at_entry: "at s i e \<Longrightarrow> entry_at i s = Some e"
  using nc_nth [of "cache_of s" i] by (auto simp: at_def cached_def cache_ok_def entry_at_eq)

text \<open>Replacing an entry by one of its name, and calls that leave the cache alone, keep an entry in its place.\<close>

lemma at_put_at: "at s i e \<Longrightarrow> entry_inv e' \<and> ce_name e' = ce_name e \<Longrightarrow> at (put_entry i e' s) i e'"
  using at_put [of s i e e'] nc_list_put [of s i e'] put_entry_counts [of s i e'] by (auto simp: at_def)

lemma at_nc: "at s i e \<Longrightarrow> nc t = nc s \<Longrightarrow> at t i e"
  by (simp add: at_def cached_def cache_of_def)

lemma cached_sync_entry:
  assumes s: "cached s" "nc s \<noteq> None" "i < nc_num_used (cache_of s)" and r: "sync_entry i s = Ret x t"
  shows "cached t \<and> nc t \<noteq> None \<and> nc_num_used (cache_of t) = nc_num_used (cache_of s)"
proof -
  let ?e = "nc_list (cache_of s) ! i"
  let ?e1 = "?e\<lparr>ce_value := entry_text ?e\<rparr>"
  let ?e2 = "?e1\<lparr>ce_changed := False\<rparr>"
  have at: "at s i ?e" using s by (simp add: at_def)
  have inv: "entry_inv ?e" "entry_inv ?e1" "entry_inv ?e2" using at_inv [OF at] by (simp_all add: entry_inv_def)
  show ?thesis
  proof (cases "ce_changed ?e")
    case True
    with r obtain y u where u: "nvram_set (ce_name ?e) (entry_text ?e) (put_entry i ?e1 s) = Ret y u" "t = put_entry i ?e2 u"
      by (auto simp: sync_entry_def at_entry [OF at] sync_value_text [OF inv(1)] sbind_Ret_iff Let_def)
    have nc: "nc u = nc (put_entry i ?e1 s)" by (rule frame_nc [OF frame_nvram_set u(1)])
    have "at u i ?e1" using at_nc [OF at_put_at [OF at] nc] inv by simp
    then have "cached t" unfolding u(2) using inv(3) by (intro at_put [where e = ?e1]) simp_all
    moreover have "nc t \<noteq> None \<and> nc_num_used (cache_of t) = nc_num_used (cache_of s)"
      using nc put_entry_counts [OF s(2), of i ?e1] put_entry_counts [of u i ?e2] cache_of_nc [OF nc] u(2) by simp
    ultimately show ?thesis by simp
  qed (use r s at in \<open>simp add: sync_entry_def at_entry\<close>)
qed

lemma cached_sync_loop:
  "cached s \<Longrightarrow> nc s \<noteq> None \<Longrightarrow> \<forall>i\<in>set is. i < nc_num_used (cache_of s) \<Longrightarrow> sync_loop is s = Ret x t \<Longrightarrow> cached t \<and> nc t \<noteq> None"
proof (induction "is" arbitrary: s)
  case (Cons i "is")
  from Cons.prems(4) obtain y u where u: "sync_entry i s = Ret y u" "sync_loop is u = Ret x t" by (auto simp: sbind_Ret_iff)
  from cached_sync_entry [OF Cons.prems(1,2) _ u(1)] Cons.prems(3) Cons.IH [OF _ _ _ u(2)] show ?case by simp
qed auto

lemma cached_sync_back:
  assumes "cached s" "sync_nvram_cache_back_to_nvram s = Ret x t"
  shows "cached t"
proof (cases "nc s")
  case (Some c)
  with assms(2) obtain y u z where u: "sync_loop [0..<nc_num_used c] s = Ret y u" "nvram_commit u = Ret z t"
    by (auto simp: sync_nvram_cache_back_to_nvram_def sbind_Ret_iff)
  have "cached u" using cached_sync_loop [OF assms(1) _ _ u(1)] Some by (simp add: cache_of_def)
  with frame_nc [OF frame_nvram_commit u(2)] show ?thesis by (simp add: cached_def cache_of_def)
qed (use assms in \<open>simp add: sync_nvram_cache_back_to_nvram_def\<close>)

lemma sync_entry_spec:
  assumes ready: "nv_ready es ds s" and e: "entry_at i s = Some e" "ce_changed e" "savable e"
  obtains t where "sync_entry i s = Ret () t" "nv_ready (nv_update (ce_name e) (the (entry_text e)) es) ds t"
    "same_env s t" "nc t = nc (put_entry i (saved e) s)"
proof -
  from e(3) obtain v where v: "entry_text e = Some v" "is_cstr v" "entry_inv e" "nv_okk (ce_name e)"
    by (auto simp: savable_def split: option.splits)
  let ?e = "e\<lparr>ce_value := Some v\<rparr>"
  let ?s = "put_entry i ?e s"
  have r: "nv_ready es ds ?s" using ready by (simp add: nv_ready_def put_entry_def env_ok_def stores_def)
  from nvram_set_spec [OF r v(4,2)] obtain t where
    t: "nvram_set (ce_name e) (Some v) ?s = Ret 0 t" "nv_ready (nv_update (ce_name e) v es) ds t"
      "same_but NVRAM_TMP_PATH ?s t" by metis
  let ?t = "put_entry i (saved e) t"
  have nct: "nc t = nc ?s" by (rule frame_nc [OF frame_nvram_set t(1)])
  have sy: "sync_entry i s = Ret () ?t"
    using e v t(1) sync_value_text [OF v(3)] by (simp add: sync_entry_def Let_def saved_def)
  have "nv_ready (nv_update (ce_name e) v es) ds ?t"
    using t(2) by (simp add: nv_ready_def put_entry_def env_ok_def stores_def)
  moreover have "same_env s ?t"
    using t(3) by (elim same_butE) (simp add: same_env_def put_entry_def)
  moreover have "nc ?t = nc (put_entry i (saved e) s)"
    using nct by (simp add: put_entry_def option.map_comp comp_def)
  ultimately show thesis using that [of ?t] sy v(1) by simp
qed

lemma take_Suc_nth: "n < length xs \<Longrightarrow> take (Suc n) xs = take n xs @ [xs ! n]"
  by (rule take_Suc_conv_app_nth)

text \<open>After the loop has handled the first \<open>n\<close> entries they are saved and the rest is untouched.\<close>

lemma sync_loop_spec:
  assumes ready: "nv_ready es ds s" and s: "nc s = Some c" "nc_inv c"
    and ok: "\<And>e. e \<in> set (nc_list c) \<Longrightarrow> ce_changed e \<Longrightarrow> savable e"
  shows "n \<le> nc_num_used c \<Longrightarrow>
    \<exists>t. sync_loop [0..<n] s = Ret () t \<and> nv_ready (nvs.updates (pending (take n (nc_list c))) es) ds t
      \<and> same_env s t \<and> (\<exists>d. nc t = Some d \<and> nc_inv d \<and> nc_num_used d = nc_num_used c
        \<and> nc_list d = map saved (take n (nc_list c)) @ drop n (nc_list c))"
proof (induction n)
  case 0
  then show ?case using ready s by (simp add: pending_def)
next
  case (Suc n)
  let ?l = "nc_list c"
  let ?e = "?l ! n"
  have n: "n < length ?l" using Suc.prems nvc.used_elems [OF s(2)] by simp
  from Suc obtain t d where t: "sync_loop [0..<n] s = Ret () t"
      "nv_ready (nvs.updates (pending (take n ?l)) es) ds t" "same_env s t"
    and d: "nc t = Some d" "nc_inv d" "nc_num_used d = nc_num_used c" "nc_list d = map saved (take n ?l) @ drop n ?l"
    by auto
  have loop_append: "sync_loop (is @ js) u = sbind (sync_loop is u) (\<lambda>_ u. sync_loop js u)" for "is" js u
    by (induction "is" arbitrary: u) (auto simp: sbind_def split: run.splits)
  have step: "sync_loop [0..<Suc n] s = sync_entry n t"
    using t(1) by (cases "sync_entry n t") (auto simp: loop_append)
  have dn: "nc_list d ! n = ?e" using d(4) n by (simp add: nth_append)
  have nd: "n < nc_num_used d" using Suc.prems d(3) by simp
  have at: "entry_at n t = Some ?e" using nc_nth [OF d(2) nd] d(1) dn by (simp add: entry_at_def)
  have tk: "take (Suc n) ?l = take n ?l @ [?e]" by (rule take_Suc_nth [OF n])
  have upd: "(nc_list d)[n := saved ?e] = map saved (take (Suc n) ?l) @ drop (Suc n) ?l"
    using n unfolding d(4) tk by (simp add: list_update_append Cons_nth_drop_Suc [symmetric])
  show ?case
  proof (cases "ce_changed ?e")
    case False
    then have "sync_entry n t = Ret () t" using at by (simp add: sync_entry_def)
    moreover have "nc_list d = map saved (take (Suc n) ?l) @ drop (Suc n) ?l"
      using upd False dn by (simp add: saved_def) (metis list_update_id)
    ultimately show ?thesis using step t d False tk by (auto simp: pending_def)
  next
    case True
    have sv: "savable ?e" using ok True n by simp
    from sync_entry_spec [OF t(2) at True sv] obtain u where u: "sync_entry n t = Ret () u"
      "nv_ready (nv_update (ce_name ?e) (the (entry_text ?e)) (nvs.updates (pending (take n ?l)) es)) ds u"
      "same_env t u" "nc u = nc (put_entry n (saved ?e) t)" .
    have nu: "nc u = Some (upd_entry n (saved ?e) d)" using u(4) d(1) by (simp add: put_entry_def upd_entry_def)
    have up: "nvs.updates (ps @ [(k, v)]) st = nv_update k v (nvs.updates ps st)" for ps k v st
      by (induction ps arbitrary: st) auto
    have pd: "pending (take (Suc n) ?l) = pending (take n ?l) @ [(ce_name ?e, the (entry_text ?e))]"
      using True tk by (simp add: pending_def)
    let ?d = "upd_entry n (saved ?e) d"
    have "nc_inv ?d \<and> nc_num_used ?d = nc_num_used c \<and> nc_list ?d = map saved (take (Suc n) ?l) @ drop (Suc n) ?l"
      using nc_list_upd [OF d(2) nd, of "saved ?e"] upd d(3) by (simp add: upd_entry_def)
    moreover have "nv_ready (nvs.updates (pending (take (Suc n) ?l)) es) ds u" using u(2) by (simp add: pd up)
    ultimately show ?thesis
      using step u(1) nu same_env_trans [OF t(3) u(3)] by (intro exI [of _ u]) auto
  qed
qed

lemma commit_spec:
  assumes ready: "nv_ready es ds s" and w: "can_write s NVRAM_PATH"
  obtains t data where "nvram_commit s = Ret NVRAM_SUCCESS t" "nv_ready es ds t" "nc t = nc (s :: 'z nvcache_scheme)"
    "nvcache.more t = nvcache.more s" "files s NVRAM_TMP_PATH = Some data" "files t NVRAM_PATH = Some (commit_image s data)" "files t NVRAM_TMP_PATH = Some data"
proof -
  from ready obtain rest where f: "files s NVRAM_TMP_PATH = Some (nv_image es @ rest)"
    by (auto simp: nv_ready_def elim: storesE)
  let ?data = "nv_image es @ rest"
  have "readFileBin_unlock NVRAM_TMP_PATH s = Some ?data"
    using ready f by (simp add: readFileBin_unlock_def nv_ready_def env_ok_def)
  from commit_eq [OF this _ w] obtain h where c: "nvram_commit s =
    Ret NVRAM_SUCCESS (s\<lparr>files := (files s)(NVRAM_PATH \<mapsto> commit_image s ?data),
      cwmp_signals := Suc (cwmp_signals s), held := h\<rparr>)" by auto
  let ?t = "s\<lparr>files := (files s)(NVRAM_PATH \<mapsto> commit_image s ?data),
      cwmp_signals := Suc (cwmp_signals s), held := h\<rparr>"
  have "NVRAM_PATH \<noteq> NVRAM_TMP_PATH" "NVRAM_PATH \<noteq> NVRAM_DEFAULT"
    by (simp_all add: NVRAM_PATH_def NVRAM_TMP_PATH_def NVRAM_DEFAULT_def)
  then have "nv_ready es ds ?t"
    using ready by (simp add: nv_ready_def env_ok_def stores_def)
  with c f \<open>NVRAM_PATH \<noteq> NVRAM_TMP_PATH\<close> show thesis by (intro that [of ?t ?data]) simp_all
qed

lemma sync_back_spec:
  assumes ready: "nv_ready es ds s" and s: "nc s = Some c" "nc_inv c"
    and ok: "\<And>e. e \<in> set (nc_list c) \<Longrightarrow> ce_changed e \<Longrightarrow> savable e"
    and w: "can_write s NVRAM_PATH"
  obtains t u data where "sync_nvram_cache_back_to_nvram s = Ret () u" "nv_ready (nvs.updates (pending (nc_list c)) es) ds u"
    "nc_list (cache_of u) = map saved (nc_list c)" "nvcache.more u = nvcache.more s" "same_env s t"
    "nv_ready (nvs.updates (pending (nc_list c)) es) ds t"
    "files t NVRAM_TMP_PATH = Some data" "files u NVRAM_PATH = Some (commit_image t data)" "files u NVRAM_TMP_PATH = Some data"
proof -
  have n: "nc_num_used c = length (nc_list c)" by (rule nvc.used_elems [OF s(2)])
  from sync_loop_spec [OF ready s ok order_refl] n obtain t d where
    t: "sync_loop [0..<nc_num_used c] s = Ret () t" "nv_ready (nvs.updates (pending (nc_list c)) es) ds t" "same_env s t"
    and d: "nc t = Some d" "nc_list d = map saved (nc_list c)" by auto
  have "can_write t NVRAM_PATH" using t(3) w by (elim same_envE) simp
  from commit_spec [OF t(2) this] obtain u data where
    "nvram_commit t = Ret NVRAM_SUCCESS u" "nv_ready (nvs.updates (pending (nc_list c)) es) ds u" "nc u = nc t"
    "nvcache.more u = nvcache.more t" "files t NVRAM_TMP_PATH = Some data" "files u NVRAM_PATH = Some (commit_image t data)" "files u NVRAM_TMP_PATH = Some data" .
  moreover have "nvcache.more t = nvcache.more s" using t(3) by (elim same_envE) simp
  ultimately show thesis using t d s
    by (intro that [of u t data]) (simp_all add: sync_nvram_cache_back_to_nvram_def cache_of_def)
qed

text \<open>What a variable reads as after the pending changes.\<close>

lemma get_spec_pending:
  assumes "nv_ready es ds s" "\<forall>e\<in>set l. ce_changed e \<longrightarrow> savable e" "nv_okk name"
  shows "get_spec (nvs.updates (pending l) es) ds name =
    (case map_of (rev (pending l)) name of Some v \<Rightarrow> hide_deleted v | None \<Rightarrow> get_spec es ds name)"
proof -
  have "wf_entries es" using assms(1) by (simp add: nv_ready_def stores_def)
  moreover have "\<And>k v. (k, v) \<in> set (pending l) \<Longrightarrow> nv_okk k \<and> is_cstr v"
    using assms(2) savable_okk by (auto simp: pending_def)
  ultimately have "nv_lookup (nvs.updates (pending l) es) name =
      (case map_of (rev (pending l)) name of Some v \<Rightarrow> Some v | None \<Rightarrow> nv_lookup es name)"
    using assms(3) by (intro nvs.lookup_updates) auto
  then show ?thesis by (simp add: get_spec_def split: option.splits)
qed

subsection \<open>Properties\<close>

text \<open>
  C10. Every operation of the cache keeps its invariant: the array of entries fits its
  counters, names are distinct, the rows of every array entry have as many cells as
  the entry says, and an entry of another type has none. The operations are all that
  nvram_cache.h offers: making and freeing the cache, fetching and requiring a variable, reading and
  writing texts and cells, removing rows, and writing everything back.
\<close>

theorem cache_operations_keep_invariant:
  assumes "cached s"
  shows "cached (create_nvram_cache s) \<and> cached (free_nvram_cache s)
    \<and> (\<forall>t r. nvram_cache_want_variable name s = Ret r t \<longrightarrow> cached t)
    \<and> (\<forall>t r. require_variable_in_nvram_cache name ty s = Ret r t \<longrightarrow> cached t)
    \<and> (\<forall>t. set_value_in_nvram_cache name val s = Ret () t \<longrightarrow> cached t)
    \<and> (\<forall>t. set_array_value_in_nvram_cache name row column val s = Ret () t \<longrightarrow> cached t)
    \<and> (\<forall>t. remove_row_from_array_in_nvram_cache name row s = Ret () t \<longrightarrow> cached t)
    \<and> (\<forall>t. clear_array_rows_this_and_above_in_nvram_cache name row s = Ret () t \<longrightarrow> cached t)
    \<and> (\<forall>t r. get_array_num_rows_from_nvram_cache name s = Ret r t \<longrightarrow> cached t)
    \<and> (\<forall>t r. get_array_value_from_nvram_cache name row column s = Ret r t \<longrightarrow> cached t)
    \<and> (\<forall>t r. get_value_from_nvram_cache name s = Ret r t \<longrightarrow> cached t)
    \<and> (\<forall>t. sync_nvram_cache_back_to_nvram s = Ret () t \<longrightarrow> cached t)"
proof -
  have "cached (create_nvram_cache s)" "cached (free_nvram_cache s)"
    using assms by (simp_all add: cached_None free_nvram_cache_def)
  then show ?thesis
    by (intro conjI allI impI)
      (assumption | erule cached_want [OF assms] cached_require [OF assms] cached_set_value [OF assms]
        cached_set_array_value [OF assms] cached_remove_row [OF assms] cached_clear_rows [OF assms]
        cached_get_num_rows [OF assms] cached_get_array_value [OF assms] cached_get_value [OF assms]
        cached_sync_back [OF assms])+
qed

definition sample_cached :: nvcache where
  "sample_cached = nvram.extend sample_nvram \<lparr>nc = Some \<lparr>nc_num_avail = 10, nc_num_used = 1,
     nc_cache = Some sample_entry # replicate 9 None\<rparr>\<rparr>"

lemma sample_cached_simps:
  "nc sample_cached = Some \<lparr>nc_num_avail = 10, nc_num_used = 1, nc_cache = Some sample_entry # replicate 9 None\<rparr>"
  "cache_of sample_cached = \<lparr>nc_num_avail = 10, nc_num_used = 1, nc_cache = Some sample_entry # replicate 9 None\<rparr>"
  "can_write sample_cached = (\<lambda>_. True)"
  by (simp_all add: sample_cached_def sample_nvram_def nvram.extend_def cache_of_def)

lemma sample_cached_ok: "cached sample_cached"
  using sample_entry_inv by (simp add: cached_def sample_cached_simps cache_ok_def nc_inv_def nc_list_def)

lemma sample_cached_ready: "nv_ready [''lan_if=br0'', ''wan_mode=1''] [''adblock_enable=0''] sample_cached"
  by (simp add: nv_ready_def env_ok_def stores_def sample_defs sample_cached_def nvram.extend_def)

theorem cache_operations_keep_invariant_witness:
  "cached sample_cached \<and>
   (\<exists>t. remove_row_from_array_in_nvram_cache (Some ''hosts'') 0 sample_cached = Ret () t \<and> cached t)"
proof -
  have "\<exists>t. remove_row_from_array_in_nvram_cache (Some ''hosts'') 0 sample_cached = Ret () t"
    by (simp add: remove_row_from_array_in_nvram_cache_def with_entry_def nvram_cache_want_variable_def
        find_entry_def sample_cached_simps create_nvram_cache_def entry_at_def sample_entry_def)
  moreover note cache_operations_keep_invariant [OF sample_cached_ok, of "Some ''hosts''" undefined None 0 0]
  ultimately show ?thesis using sample_cached_ok by auto
qed

text \<open>
  C11. Writing the cache back stores every changed variable: afterwards nvram_get returns the
  text of the entry (for an array, its rows and cells joined), variables that were not
  changed read as before, and no entry is marked as changed any more.
\<close>

theorem cache_saves_changes:
  assumes "nv_ready es ds s" "nc s = Some c" "cached s" "can_write s NVRAM_PATH" "nv_okk name"
    "\<forall>e\<in>set (nc_list c). ce_changed e \<longrightarrow> savable e"
  shows "\<exists>t u. sync_nvram_cache_back_to_nvram s = Ret () t
    \<and> (\<forall>e\<in>set (nc_list (cache_of t)). \<not> ce_changed e)
    \<and> nvram_get name t =
        Ret (case map_of (rev (pending (nc_list c))) name of
               Some v \<Rightarrow> hide_deleted v | None \<Rightarrow> get_spec es ds name) u"
proof -
  have inv: "nc_inv c" using assms(2,3) by (simp add: cached_def cache_of_def cache_ok_def)
  have sv: "\<And>e. e \<in> set (nc_list c) \<Longrightarrow> ce_changed e \<Longrightarrow> savable e" using assms(6) by blast
  from sync_back_spec [OF assms(1,2) inv sv assms(4)] obtain t where
    t: "sync_nvram_cache_back_to_nvram s = Ret () t" "nv_ready (nvs.updates (pending (nc_list c)) es) ds t"
      "nc_list (cache_of t) = map saved (nc_list c)" by metis
  from nvram_get_spec [OF t(2) assms(5)] obtain u where
    u: "nvram_get name t = Ret (get_spec (nvs.updates (pending (nc_list c)) es) ds name) u" by metis
  from t u get_spec_pending [OF assms(1,6,5)] show ?thesis by (auto simp: saved_def)
qed

definition sample_changed :: nvcache where
  "sample_changed = put_entry 0 (sample_entry\<lparr>ce_changed := True\<rparr>) sample_cached"

lemma sample_changed_facts:
  "nc sample_changed = Some \<lparr>nc_num_avail = 10, nc_num_used = 1,
     nc_cache = Some (sample_entry\<lparr>ce_changed := True\<rparr>) # replicate 9 None\<rparr>"
  "cached sample_changed" "can_write sample_changed NVRAM_PATH"
  "nv_ready [''lan_if=br0'', ''wan_mode=1''] [''adblock_enable=0''] sample_changed"
  using sample_entry_inv sample_cached_ready
  by (simp_all add: sample_changed_def put_entry_def sample_cached_simps cached_def cache_of_def cache_ok_def
      nc_inv_def nc_list_def entry_inv_def nv_ready_def env_ok_def stores_def)

abbreviation hosts_text :: string where
  "hosts_text \<equiv> [CHR ''p'', CHR ''c'', CHR 0x02, CHR ''1'', CHR 0x01, CHR ''t'', CHR ''v'', CHR 0x02, CHR ''2'']"

lemma sample_changed_pending:
  "\<exists>c. nc sample_changed = Some c \<and> (\<forall>e\<in>set (nc_list c). ce_changed e \<longrightarrow> savable e)
     \<and> pending (nc_list c) = [(''hosts'', hosts_text)]"
proof -
  let ?e = "sample_entry\<lparr>ce_changed := True\<rparr>"
  let ?c = "\<lparr>nc_num_avail = 10, nc_num_used = 1, nc_cache = Some ?e # replicate 9 None\<rparr>"
  have l: "nc_list ?c = [?e]" by (simp add: nc_list_def)
  have tx: "entry_text ?e = Some hosts_text"
    by (simp add: entry_text_def entry_rows_def sample_entry_def array_text_def cell_text_def)
  have n: "ce_name ?e = ''hosts''" by (simp add: sample_entry_def)
  have "savable ?e"
    unfolding savable_def tx n using sample_entry_inv by (simp add: entry_inv_def nv_okk_def)
  then have "\<forall>e\<in>set (nc_list ?c). ce_changed e \<longrightarrow> savable e" unfolding l by simp
  moreover have "pending (nc_list ?c) = [(''hosts'', hosts_text)]" unfolding l pending_def using n tx by simp
  ultimately show ?thesis using sample_changed_facts(1) by blast
qed

theorem cache_saves_changes_witness:
  "\<exists>t u. sync_nvram_cache_back_to_nvram sample_changed = Ret () t \<and> nvram_get ''hosts'' t = Ret (Some hosts_text) u"
proof -
  obtain c where c: "nc sample_changed = Some c" "\<forall>e\<in>set (nc_list c). ce_changed e \<longrightarrow> savable e"
    "pending (nc_list c) = [(''hosts'', hosts_text)]" using sample_changed_pending by blast
  with cache_saves_changes [OF sample_changed_facts(4) c(1) sample_changed_facts(2,3) _ c(2), of "''hosts''"]
  show ?thesis by (auto simp: nv_okk_def hide_deleted_def is_deleted_def strneq_def)
qed

text \<open>
  A variable is read from the store at most once: asking for it again returns the same
  entry and leaves the whole state, the store included, as it is.
\<close>

theorem variable_read_once:
  assumes "cached s" "name \<noteq> []" "nvram_cache_want_variable (Some name) s = Ret r t"
  shows "nvram_cache_want_variable (Some name) t = Ret r t"
proof -
  from want_variable_cases [OF assms(1,3,2)] obtain i where i: "r = Some i" "cached t" "nc t \<noteq> None"
    "i < nc_num_used (cache_of t)" "ce_name (nc_list (cache_of t) ! i) = name" by auto
  let ?l = "nc_list (cache_of t)"
  have inv: "nc_inv (cache_of t)" and d: "distinct (map ce_name ?l)"
    using i(2) by (simp_all add: cached_def cache_ok_def)
  have li: "i < length ?l" by (rule nc_nth(3) [OF inv i(4)])
  have "first_index (\<lambda>e. ce_name e = name) ?l = Some i"
  proof (cases "first_index (\<lambda>e. ce_name e = name) ?l")
    case None
    with i li show ?thesis by (auto simp: first_index_None_iff)
  next
    case (Some j)
    from first_index_SomeD [OF this] i(5) li d have "j = i"
      by (metis length_map nth_eq_iff_index_eq nth_map)
    with Some show ?thesis by simp
  qed
  with i(1,3) assms(2) show ?thesis
    by (auto simp: nvram_cache_want_variable_def Let_def create_nvram_cache_def find_entry_list [OF inv])
qed

theorem variable_read_once_witness:
  "nvram_cache_want_variable (Some ''hosts'') sample_cached = Ret (Some 0) sample_cached"
proof -
  have w: "nvram_cache_want_variable (Some ''hosts'') sample_cached = Ret (Some 0) sample_cached"
    by (simp add: nvram_cache_want_variable_def find_entry_def sample_cached_simps create_nvram_cache_def sample_entry_def)
  show ?thesis by (rule variable_read_once [OF sample_cached_ok _ w]) simp
qed

text \<open>
  Shortening a list does not mark the entry as changed: after
  clear_array_rows_this_and_above_in_nvram_cache on a cache without other changes, writing
  the cache back leaves the store with all the rows it had.
\<close>

theorem cleared_rows_are_not_saved:
  assumes "nv_ready es ds s" "nc s = Some c" "cached s" "can_write s NVRAM_PATH"
    "\<forall>e\<in>set (nc_list c). \<not> ce_changed e" "name \<in> ce_name ` set (nc_list c)" "name \<noteq> []"
  shows "\<exists>t u. clear_array_rows_this_and_above_in_nvram_cache (Some name) row s = Ret () t
    \<and> sync_nvram_cache_back_to_nvram t = Ret () u \<and> stores NVRAM_TMP_PATH es u"
proof -
  have co: "cache_of s = c" using assms(2) by (simp add: cache_of_def)
  have inv: "nc_inv c" using assms(3) co by (simp add: cached_def cache_ok_def)
  from assms(6) obtain i where i: "first_index (\<lambda>e. ce_name e = name) (nc_list c) = Some i"
    by (metis (mono_tags, lifting) first_index_None_iff imageE not_None_eq)
  have li: "i < nc_num_used c" using first_index_SomeD [OF i] nvc.used_elems [OF inv] by simp
  let ?e = "nc_list c ! i"
  have want: "nvram_cache_want_variable (Some name) s = Ret (Some i) s"
    using assms(2,7) i co by (simp add: nvram_cache_want_variable_def Let_def create_nvram_cache_def find_entry_list [OF inv])
  have "entry_at i s = Some ?e" using nc_nth [OF inv li] assms(2) by (simp add: entry_at_def)
  let ?t = "put_entry i (clear_rows row ?e) s"
  let ?c = "upd_entry i (clear_rows row ?e) c"
  have t: "clear_array_rows_this_and_above_in_nvram_cache (Some name) row s = Ret () ?t"
    using want \<open>entry_at i s = Some ?e\<close> assms(2)
    by (simp add: clear_array_rows_this_and_above_in_nvram_cache_def with_entry_def)
  have nt: "nc ?t = Some ?c" using assms(2) by (simp add: put_entry_def upd_entry_def)
  have ct: "nc_inv ?c" "nc_list ?c = (nc_list c)[i := clear_rows row ?e]"
    using nc_list_upd [OF inv li] by auto
  have un: "\<forall>e\<in>set (nc_list ?c). \<not> ce_changed e"
  proof -
    have "\<not> ce_changed ?e" using assms(5) li nc_nth(3) [OF inv li] by auto
    then have "\<not> ce_changed (clear_rows row ?e)" by (simp add: clear_rows_def)
    with assms(5) show ?thesis unfolding ct(2) by (auto dest!: set_update_subset_insert [THEN subsetD])
  qed
  then have "pending (nc_list ?c) = []" by (simp add: pending_def filter_empty_conv)
  moreover have "nv_ready es ds ?t" "can_write ?t NVRAM_PATH"
    using assms(1,4) by (simp_all add: nv_ready_def put_entry_def env_ok_def stores_def)
  ultimately obtain u where "sync_nvram_cache_back_to_nvram ?t = Ret () u" "nv_ready es ds u"
    using sync_back_spec [of es ds ?t ?c] nt ct(1) un by (metis nvs.updates.simps(1))
  with t show ?thesis by (auto simp: nv_ready_def)
qed

theorem cleared_rows_are_not_saved_witness:
  "\<exists>t u. clear_array_rows_this_and_above_in_nvram_cache (Some ''hosts'') 1 sample_cached = Ret () t
    \<and> sync_nvram_cache_back_to_nvram t = Ret () u \<and> stores NVRAM_TMP_PATH [''lan_if=br0'', ''wan_mode=1''] u"
  by (rule cleared_rows_are_not_saved [OF sample_cached_ready sample_cached_simps(1) sample_cached_ok])
    (simp_all add: sample_cached_simps nc_list_def sample_entry_def)


text \<open>What requiring a variable does once its entry \<open>e\<close> is in the cache.\<close>

lemma require_at:
  assumes "nvram_cache_want_variable (Some name) s = Ret (Some i) u" "at u i e"
  shows "require_variable_in_nvram_cache (Some name) ty s =
    (if ce_type e = ty then Ret True u
     else (case ce_type e of
             NVRAM_ENTRY_TYPE_UNKNOWN \<Rightarrow> Ret True (put_entry i (e\<lparr>ce_type := ty\<rparr>) u)
           | NVRAM_ENTRY_TYPE_TEXT \<Rightarrow>
               if ty = NVRAM_ENTRY_TYPE_ARRAY then
                 sbind (lift (set_array_value_in_nvram_entry (can_alloc u)
                     (e\<lparr>ce_type := NVRAM_ENTRY_TYPE_ARRAY\<rparr>) 0 0 (ce_value e)) u)
                   (\<lambda>e s. Ret True (put_entry i e s))
               else Ret False u
           | NVRAM_ENTRY_TYPE_ARRAY \<Rightarrow> Ret False u))"
  using assms(1) at_entry [OF assms(2)] by (simp add: require_variable_in_nvram_cache_def with_entry_def)

lemma text_to_array_crashes:
  assumes "entry_inv e" "ce_type e = NVRAM_ENTRY_TYPE_TEXT"
  obtains c where "set_array_value_in_nvram_entry alloc (e\<lparr>ce_type := NVRAM_ENTRY_TYPE_ARRAY\<rparr>) 0 0 val = Fault c"
proof -
  have "entry_inv (e\<lparr>ce_type := NVRAM_ENTRY_TYPE_ARRAY\<rparr>)" "ce_rows_avail e = 0" "ce_columns e = 0"
    using assms by (auto simp: entry_inv_def)
  then show thesis using set_entry_grows_both [of "e\<lparr>ce_type := NVRAM_ENTRY_TYPE_ARRAY\<rparr>" 0 0] that by auto
qed

lemma require_outcome:
  assumes w: "nvram_cache_want_variable (Some name) s = Ret (Some i) u" and at: "at u i e" and ty: "ty \<noteq> NVRAM_ENTRY_TYPE_UNKNOWN"
  shows "if ce_type e = NVRAM_ENTRY_TYPE_TEXT \<and> ty = NVRAM_ENTRY_TYPE_ARRAY
    then \<exists>c t. require_variable_in_nvram_cache (Some name) ty s = Halt (Crash c) t
    else \<exists>r t e'. require_variable_in_nvram_cache (Some name) ty s = Ret r t \<and> cached t
      \<and> nc_list (cache_of t) = (nc_list (cache_of u))[i := e'] \<and> ce_name e' = ce_name e
      \<and> (r \<longleftrightarrow> ce_type e \<noteq> NVRAM_ENTRY_TYPE_ARRAY \<or> ty = NVRAM_ENTRY_TYPE_ARRAY) \<and> (r \<longleftrightarrow> ce_type e' = ty)
      \<and> (ce_type e \<noteq> NVRAM_ENTRY_TYPE_UNKNOWN \<longrightarrow> e' = e)"
proof -
  have same: "(nc_list (cache_of u))[i := e] = nc_list (cache_of u)" "cached u" using at by (auto simp: at_def)
  show ?thesis
  proof (cases "ce_type e")
    case NVRAM_ENTRY_TYPE_UNKNOWN
    let ?e = "e\<lparr>ce_type := ty\<rparr>"
    have "entry_inv ?e" using NVRAM_ENTRY_TYPE_UNKNOWN by (intro type_change_inv at_inv [OF at]) simp
    then have "cached (put_entry i ?e u)" by (intro at_put [OF at]) simp
    moreover have "nc_list (cache_of (put_entry i ?e u)) = (nc_list (cache_of u))[i := ?e]"
      using at nc_list_put [of u i ?e] by (simp add: at_def)
    moreover have "require_variable_in_nvram_cache (Some name) ty s = Ret True (put_entry i ?e u)"
      using ty NVRAM_ENTRY_TYPE_UNKNOWN by (simp add: require_at [OF w at])
    ultimately have "require_variable_in_nvram_cache (Some name) ty s = Ret True (put_entry i ?e u) \<and> cached (put_entry i ?e u)
      \<and> nc_list (cache_of (put_entry i ?e u)) = (nc_list (cache_of u))[i := ?e]" by blast
    with NVRAM_ENTRY_TYPE_UNKNOWN show ?thesis
      by (intro if_not_P [THEN iffD2] exI [of _ True] exI [of _ "put_entry i ?e u"] exI [of _ ?e]) simp_all
  next
    case NVRAM_ENTRY_TYPE_TEXT
    with text_to_array_crashes [OF at_inv [OF at]] obtain c where
      "set_array_value_in_nvram_entry (can_alloc u) (e\<lparr>ce_type := NVRAM_ENTRY_TYPE_ARRAY\<rparr>) 0 0 (ce_value e) = Fault c"
      by blast
    with same ty NVRAM_ENTRY_TYPE_TEXT show ?thesis unfolding require_at [OF w at]
      by (cases ty) (auto intro!: exI [of _ e])
  next
    case NVRAM_ENTRY_TYPE_ARRAY
    with same ty show ?thesis unfolding require_at [OF w at] by (cases ty) (auto intro!: exI [of _ e])
  qed
qed

text \<open>
  C27. What requiring a variable as a text or as an array does, for each type its entry has when
  it is in the cache. The answer is true if the entry has the type, or had none yet and gets it; it is
  false, and nothing changes, for an array required as a text. A text required as an array
  ends the program: the conversion to an array of one cell, which the comments of the code say
  caters for this case, writes a first row that has no columns. Entries of other variables are as before.
\<close>

theorem required_variable_has_type:
  assumes "cached s" "name \<noteq> []" "ty \<noteq> NVRAM_ENTRY_TYPE_UNKNOWN"
    "nvram_cache_want_variable (Some name) s = Ret ri u"
  shows "\<exists>i e. ri = Some i \<and> i < length (nc_list (cache_of u)) \<and> nc_list (cache_of u) ! i = e \<and> ce_name e = name
    \<and> (\<exists>es. nc_list (cache_of u) = nc_list (cache_of s) @ es)
    \<and> (if ce_type e = NVRAM_ENTRY_TYPE_TEXT \<and> ty = NVRAM_ENTRY_TYPE_ARRAY
       then \<exists>c t. require_variable_in_nvram_cache (Some name) ty s = Halt (Crash c) t
       else \<exists>r t e'. require_variable_in_nvram_cache (Some name) ty s = Ret r t \<and> cached t
         \<and> nc_list (cache_of t) = (nc_list (cache_of u))[i := e'] \<and> ce_name e' = name
         \<and> (r \<longleftrightarrow> ce_type e \<noteq> NVRAM_ENTRY_TYPE_ARRAY \<or> ty = NVRAM_ENTRY_TYPE_ARRAY) \<and> (r \<longleftrightarrow> ce_type e' = ty)
         \<and> (ce_type e \<noteq> NVRAM_ENTRY_TYPE_UNKNOWN \<longrightarrow> e' = e))"
proof -
  from want_variable_cases [OF assms(1,4,2)] obtain i es where i: "ri = Some i" "cached u" "nc u \<noteq> None"
    "i < nc_num_used (cache_of u)" "ce_name (nc_list (cache_of u) ! i) = name"
    "nc_list (cache_of u) = nc_list (cache_of s) @ es" by auto
  then have at: "at u i (nc_list (cache_of u) ! i)" by (simp add: at_def)
  have "i < length (nc_list (cache_of u))" using nc_list_put [OF i(2-4)] by simp
  with require_outcome [OF assms(4) [unfolded i(1)] at assms(3)] i(1,5,6) show ?thesis by metis
qed

definition sample_text_entry :: nvram_entry where
  "sample_text_entry = \<lparr>ce_name = ''lan_if'', ce_value = Some ''br0'', ce_data = [], ce_type = NVRAM_ENTRY_TYPE_TEXT,
     ce_rows_used = 0, ce_rows_avail = 0, ce_columns = 0, ce_changed = False\<rparr>"

definition sample_text_cached :: nvcache where
  "sample_text_cached = sample_cached\<lparr>nc := Some \<lparr>nc_num_avail = 10, nc_num_used = 1,
     nc_cache = Some sample_text_entry # replicate 9 None\<rparr>\<rparr>"

lemma sample_text_cached_facts:
  "cached sample_text_cached" "nvram_cache_want_variable (Some ''lan_if'') sample_text_cached = Ret (Some 0) sample_text_cached"
  "nc_list (cache_of sample_text_cached) = [sample_text_entry]"
  by (simp_all add: sample_text_cached_def cached_def cache_of_def cache_ok_def nc_inv_def nc_list_def entry_inv_def
      sample_text_entry_def nvram_cache_want_variable_def create_nvram_cache_def find_entry_def)

lemma sample_cached_want:
  "nvram_cache_want_variable (Some ''hosts'') sample_cached = Ret (Some 0) sample_cached"
  "nc_list (cache_of sample_cached) = [sample_entry]"
  by (simp_all add: nvram_cache_want_variable_def find_entry_def sample_cached_simps create_nvram_cache_def sample_entry_def
      nc_list_def)

theorem required_variable_has_type_witness:
  "(\<exists>t. require_variable_in_nvram_cache (Some ''hosts'') NVRAM_ENTRY_TYPE_ARRAY sample_cached = Ret True t
      \<and> nc_list (cache_of t) = [sample_entry])
   \<and> (\<exists>t. require_variable_in_nvram_cache (Some ''hosts'') NVRAM_ENTRY_TYPE_TEXT sample_cached = Ret False t)
   \<and> (\<exists>c t. require_variable_in_nvram_cache (Some ''lan_if'') NVRAM_ENTRY_TYPE_ARRAY sample_text_cached = Halt (Crash c) t)"
proof -
  have "ce_type sample_entry = NVRAM_ENTRY_TYPE_ARRAY" "ce_type sample_text_entry = NVRAM_ENTRY_TYPE_TEXT"
    by (simp_all add: sample_entry_def sample_text_entry_def)
  then show ?thesis
    using required_variable_has_type [OF sample_cached_ok _ _ sample_cached_want(1), of NVRAM_ENTRY_TYPE_ARRAY]
      required_variable_has_type [OF sample_cached_ok _ _ sample_cached_want(1), of NVRAM_ENTRY_TYPE_TEXT]
      required_variable_has_type [OF sample_text_cached_facts(1) _ _ sample_text_cached_facts(2), of NVRAM_ENTRY_TYPE_ARRAY]
    unfolding sample_cached_want(2) sample_text_cached_facts(3) by auto
qed

end
