(* ===== verification/Var_Val_Pair.thy ===== *)
theory Var_Val_Pair
  imports Key_Value
begin

unbundle bit_operations_syntax

section \<open>Arrays of variable/value pairs\<close>

text \<open>
  \<^verbatim>\<open>page-server/var_val_pair.c\<close> without its parser: pairs, pairs with attributes, the arrays
  of both that grow by ten slots, the searches in them, their log output and the
  environment built from them. Memory allocation is taken to succeed; what \<^verbatim>\<open>free\<close> releases
  is no part of the state (the parameter \<open>usable\<close> below is the only thing the model says
  about the allocator).
\<close>

subsection \<open>Data\<close>

record var_val_pair =
  vp_var :: cptr
  vp_value :: cptr

text \<open>\<open>vvps\<close> has one element per allocated slot; \<open>None\<close> is a slot nothing was written to.\<close>

record var_val_pair_array =
  num_alloc :: nat
  num_used :: nat
  vvps :: "var_val_pair option list"

datatype vvpp_type =
    VVPP_TYPE_TEXT | VVPP_TYPE_OPTS | VVPP_TYPE_OPTION_LIST | VVPP_TYPE_ARRAY_ENTRY | VVPP_TYPE_LIST

record var_val_pair_plus =
  pp_var :: cptr
  pp_value :: cptr
  pp_type :: vvpp_type
  pp_has :: "32 word"
  pp_row :: int
  pp_column :: int
  pp_row_identifier :: cptr
  pp_translate_vvpa :: "var_val_pair_array option"

record var_val_pair_plus_array =
  pnum_alloc :: nat
  pnum_used :: nat
  vvpps :: "var_val_pair_plus option list"

definition VVPP_HAS_NO_EXTRAS :: "32 word" where "VVPP_HAS_NO_EXTRAS = 0"
definition VVPP_HAS_RC_INFO :: "32 word" where "VVPP_HAS_RC_INFO = 1"
definition VVPP_HAS_IP_START :: "32 word" where "VVPP_HAS_IP_START = 2"
definition VVPP_HAS_IP_END :: "32 word" where "VVPP_HAS_IP_END = 4"
definition VVPP_HAS_TRANSLATE :: "32 word" where "VVPP_HAS_TRANSLATE = 8"
definition VVPP_HAS_ROW_ID :: "32 word" where "VVPP_HAS_ROW_ID = 16"
definition VVPP_HAS_IP_NUM :: "32 word" where "VVPP_HAS_IP_NUM = 32"
definition VVPP_HAS_IP_PORT :: "32 word" where "VVPP_HAS_IP_PORT = 64"

lemmas vvpp_has_defs = VVPP_HAS_NO_EXTRAS_def VVPP_HAS_RC_INFO_def VVPP_HAS_IP_START_def
  VVPP_HAS_IP_END_def VVPP_HAS_TRANSLATE_def VVPP_HAS_ROW_ID_def VVPP_HAS_IP_NUM_def
  VVPP_HAS_IP_PORT_def

definition VVPP_HAS_IP_RANGE :: "32 word" where
  "VVPP_HAS_IP_RANGE = VVPP_HAS_IP_START OR VVPP_HAS_IP_END"

definition VVPP_HAS_IP_NUM_PORT :: "32 word" where
  "VVPP_HAS_IP_NUM_PORT = VVPP_HAS_IP_NUM OR VVPP_HAS_IP_PORT"

definition VVPP_ALL_ROWS :: int where "VVPP_ALL_ROWS = - 1"
definition VVPP_SELECTED_ROW :: int where "VVPP_SELECTED_ROW = - 2"
definition VVPP_ALL_COLUMNS :: int where "VVPP_ALL_COLUMNS = - 1"

text \<open>\<^verbatim>\<open>vvpp->has & FLAG\<close>\<close>

definition has_flag :: "var_val_pair_plus \<Rightarrow> 32 word \<Rightarrow> bool" where
  "has_flag p f \<longleftrightarrow> pp_has p AND f \<noteq> 0"

subsection \<open>Construction and update\<close>

text \<open>
  \<^verbatim>\<open>calloc(l, 1)\<close> is followed by a write at index \<open>l\<close>. \<open>usable l\<close> is the number of bytes the
  allocator in fact sets aside for a request of \<open>l\<close> bytes: the write is harmless only when
  that is more than was asked for.
\<close>

definition my_strchrdup :: "(nat \<Rightarrow> nat) \<Rightarrow> string \<Rightarrow> char \<Rightarrow> cptr res" where
  "my_strchrdup usable src eow =
     (if eow \<noteq> NUL \<and> eow \<notin> set src then Ok None
      else (let l = length (before src eow)
            in if usable l \<le> l then Fault Oob_write else Ok (Some (take l src))))"

definition create_var_val_pair :: "cptr \<Rightarrow> cptr \<Rightarrow> var_val_pair" where
  "create_var_val_pair var val = \<lparr>vp_var = var, vp_value = val\<rparr>"

definition create_var_val_pair_array :: var_val_pair_array where
  "create_var_val_pair_array = \<lparr>num_alloc = 0, num_used = 0, vvps = []\<rparr>"

definition create_var_val_pair_plus :: "cptr \<Rightarrow> cptr \<Rightarrow> var_val_pair_plus" where
  "create_var_val_pair_plus var val =
     \<lparr>pp_var = var, pp_value = val, pp_type = VVPP_TYPE_TEXT, pp_has = VVPP_HAS_NO_EXTRAS,
      pp_row = 0, pp_column = 0, pp_row_identifier = None, pp_translate_vvpa = None\<rparr>"

definition create_var_val_pair_plus_array :: var_val_pair_plus_array where
  "create_var_val_pair_plus_array = \<lparr>pnum_alloc = 0, pnum_used = 0, vvpps = []\<rparr>"

definition vvp_update_value :: "cptr \<Rightarrow> var_val_pair \<Rightarrow> var_val_pair" where
  "vvp_update_value new_value vvp = vvp\<lparr>vp_value := new_value\<rparr>"

definition set_var_val_pair_plus_type :: "vvpp_type \<Rightarrow> var_val_pair_plus \<Rightarrow> var_val_pair_plus" where
  "set_var_val_pair_plus_type ty p = p\<lparr>pp_type := ty\<rparr>"

definition add_var_val_pair_plus_attribute ::
  "32 word \<Rightarrow> int \<Rightarrow> int \<Rightarrow> var_val_pair_plus \<Rightarrow> var_val_pair_plus" where
  "add_var_val_pair_plus_attribute attribute val1 val2 p =
     (let q = p\<lparr>pp_has := pp_has p OR attribute\<rparr>
      in if attribute = VVPP_HAS_RC_INFO then q\<lparr>pp_row := val1, pp_column := val2\<rparr> else q)"

definition add_var_val_pair_plus_text_attribute ::
  "(nat \<Rightarrow> nat) \<Rightarrow> 32 word \<Rightarrow> cptr \<Rightarrow> char \<Rightarrow> var_val_pair_plus \<Rightarrow> var_val_pair_plus res" where
  "add_var_val_pair_plus_text_attribute usable code attribute eow p =
     (case attribute of
        None \<Rightarrow> Ok p
      | Some a \<Rightarrow>
          if code = VVPP_HAS_ROW_ID then
            rbind (my_strchrdup usable a eow) (\<lambda>r.
              Ok (p\<lparr>pp_row_identifier := r,
                    pp_has := if r = None then pp_has p else pp_has p OR VVPP_HAS_ROW_ID\<rparr>))
          else Ok p)"

definition set_var_val_pair_plus_translation_vvpa ::
  "var_val_pair_array option \<Rightarrow> var_val_pair_plus \<Rightarrow> var_val_pair_plus" where
  "set_var_val_pair_plus_translation_vvpa tr p =
     p\<lparr>pp_translate_vvpa := tr, pp_has := pp_has p OR VVPP_HAS_TRANSLATE\<rparr>"

subsection \<open>Growing arrays\<close>

definition vvpa_push :: "var_val_pair \<Rightarrow> var_val_pair_array \<Rightarrow> var_val_pair_array" where
  "vvpa_push vvp a =
     (let b = (if num_alloc a = num_used a
               then a\<lparr>num_alloc := num_alloc a + 10, vvps := vvps a @ replicate 10 None\<rparr> else a)
      in b\<lparr>vvps := (vvps b)[num_used b := Some vvp], num_used := num_used b + 1\<rparr>)"

definition addto_var_val_pair_array ::
  "var_val_pair_array option \<Rightarrow> cptr \<Rightarrow> cptr \<Rightarrow> var_val_pair_array" where
  "addto_var_val_pair_array ap var val =
     vvpa_push (create_var_val_pair var val)
       (case ap of None \<Rightarrow> create_var_val_pair_array | Some a \<Rightarrow> a)"

text \<open>
  The caller of \<^verbatim>\<open>addto_var_val_pair_plus_array\<close> goes on to set attributes of the new element
  through the pointer it returns; here the element is appended by \<open>vvppa_push\<close> once they
  are set, or changed in place by its index.
\<close>

definition vvppa_push :: "var_val_pair_plus \<Rightarrow> var_val_pair_plus_array \<Rightarrow> var_val_pair_plus_array" where
  "vvppa_push p a =
     (let b = (if pnum_alloc a = pnum_used a
               then a\<lparr>pnum_alloc := pnum_alloc a + 10, vvpps := vvpps a @ replicate 10 None\<rparr> else a)
      in b\<lparr>vvpps := (vvpps b)[pnum_used b := Some p], pnum_used := pnum_used b + 1\<rparr>)"

definition addto_var_val_pair_plus_array ::
  "var_val_pair_plus_array \<Rightarrow> cptr \<Rightarrow> cptr \<Rightarrow> var_val_pair_plus_array" where
  "addto_var_val_pair_plus_array a var val = vvppa_push (create_var_val_pair_plus var val) a"

subsection \<open>Searches\<close>

definition has_var :: "string \<Rightarrow> var_val_pair option \<Rightarrow> bool" where
  "has_var v slot \<longleftrightarrow> (case slot of None \<Rightarrow> False | Some vvp \<Rightarrow> vp_var vvp = Some v)"

text \<open>\<open>None\<close> is \<^verbatim>\<open>VVPA_NOT_FOUND\<close>.\<close>

definition first_var_occurence_in_vvpa :: "var_val_pair_array option \<Rightarrow> cptr \<Rightarrow> nat option" where
  "first_var_occurence_in_vvpa ap var =
     (case (var, ap) of
        (Some v, Some a) \<Rightarrow> first_index (has_var v) (take (num_used a) (vvps a))
      | _ \<Rightarrow> None)"

definition var_exists_in_vvpa :: "var_val_pair_array option \<Rightarrow> cptr \<Rightarrow> bool" where
  "var_exists_in_vvpa ap var \<longleftrightarrow> first_var_occurence_in_vvpa ap var \<noteq> None"

definition find_index_of_var_in_vvpa :: "var_val_pair_array option \<Rightarrow> cptr \<Rightarrow> nat option" where
  "find_index_of_var_in_vvpa ap var =
     (case ap of None \<Rightarrow> None
      | Some a \<Rightarrow> (case var of None \<Rightarrow> None
          | Some v \<Rightarrow> first_index (has_var v) (take (num_used a) (vvps a))))"

definition find_index_of_var_in_vvppa :: "var_val_pair_plus_array option \<Rightarrow> cptr \<Rightarrow> nat option" where
  "find_index_of_var_in_vvppa ap var =
     (case ap of None \<Rightarrow> None
      | Some a \<Rightarrow> (case var of None \<Rightarrow> None
          | Some v \<Rightarrow> first_index (\<lambda>slot. case slot of None \<Rightarrow> False | Some p \<Rightarrow> pp_var p = Some v)
                        (take (pnum_used a) (vvpps a))))"

fun find_value_loop :: "var_val_pair option list \<Rightarrow> string \<Rightarrow> cptr" where
  "find_value_loop [] v = None"
| "find_value_loop (slot # slots) v =
     (case slot of None \<Rightarrow> find_value_loop slots v
      | Some vvp \<Rightarrow> if vp_var vvp = Some v then vp_value vvp else find_value_loop slots v)"

definition find_value_from_var :: "var_val_pair_array option \<Rightarrow> cptr \<Rightarrow> cptr" where
  "find_value_from_var ap var =
     (case (ap, var) of
        (Some a, Some v) \<Rightarrow> find_value_loop (take (num_used a) (vvps a)) v
      | _ \<Rightarrow> None)"

text \<open>
  The three ways a translation entry accepts a value: the entry \<^verbatim>\<open>*\<close>, the value itself, and
  \<^verbatim>\<open>!c\<close> for a value without the character \<^verbatim>\<open>c\<close>.
\<close>

definition value_matches :: "string \<Rightarrow> string \<Rightarrow> bool" where
  "value_matches ref val \<longleftrightarrow>
     char_at ref 0 = CHR ''*'' \<and> char_at ref 1 = NUL
     \<or> ref = val
     \<or> char_at ref 0 = CHR ''!'' \<and> strchr val (char_at ref 1) = None"

fun find_var_loop :: "var_val_pair option list \<Rightarrow> string \<Rightarrow> cptr" where
  "find_var_loop [] val = None"
| "find_var_loop (slot # slots) val =
     (case slot of
        None \<Rightarrow> find_var_loop slots val
      | Some vvp \<Rightarrow>
          (case vp_value vvp of
             None \<Rightarrow> find_var_loop slots val
           | Some ref \<Rightarrow> if value_matches ref val then vp_var vvp else find_var_loop slots val))"

definition find_var_from_value :: "var_val_pair_array option \<Rightarrow> cptr \<Rightarrow> cptr" where
  "find_var_from_value ap val =
     (case (ap, val) of
        (Some a, Some v) \<Rightarrow> find_var_loop (take (num_used a) (vvps a)) v
      | _ \<Rightarrow> None)"

definition update_or_add_value_in_var_val_pair_array ::
  "var_val_pair_array option \<Rightarrow> cptr \<Rightarrow> cptr \<Rightarrow> bool \<Rightarrow> var_val_pair_array option" where
  "update_or_add_value_in_var_val_pair_array ap var new_value add_if_missing =
     (case ap of None \<Rightarrow> None
      | Some a \<Rightarrow>
          (case find_index_of_var_in_vvpa (Some a) var of
             None \<Rightarrow> if add_if_missing then Some (addto_var_val_pair_array (Some a) var new_value) else Some a
           | Some i \<Rightarrow>
               Some (a\<lparr>vvps := (vvps a)[i := map_option (vvp_update_value new_value) (vvps a ! i)]\<rparr>)))"

definition update_value_in_var_val_pair_array ::
  "var_val_pair_array option \<Rightarrow> cptr \<Rightarrow> cptr \<Rightarrow> var_val_pair_array option" where
  "update_value_in_var_val_pair_array ap var new_value =
     update_or_add_value_in_var_val_pair_array ap var new_value False"

subsection \<open>Log output\<close>

text \<open>
  \<^verbatim>\<open>printf\<close> of a line whose conversions are all \<^verbatim>\<open>%s\<close>; a NULL argument prints as
  \<^verbatim>\<open>(null)\<close>.
\<close>

fun format_s :: "string \<Rightarrow> string list \<Rightarrow> string" where
  "format_s (c # d # r) (a # as) =
     (if c = CHR ''%'' \<and> d = CHR ''s'' then a @ format_s r as else c # format_s (d # r) (a # as))"
| "format_s r as = r"

definition null_shown :: "cptr \<Rightarrow> string" where
  "null_shown p = (case p of None \<Rightarrow> ''(null)'' | Some s \<Rightarrow> s)"

text \<open>\<^verbatim>\<open>strcat\<close> or \<^verbatim>\<open>sprintf\<close> into an array of \<open>n\<close> bytes that holds \<open>b\<close>.\<close>

definition bcat :: "nat \<Rightarrow> string \<Rightarrow> string \<Rightarrow> string res" where
  "bcat n b s = (if length b + length s < n then Ok (b @ s) else Fault Oob_write)"

definition or_NULL :: "cptr \<Rightarrow> string" where
  "or_NULL p = (case p of None \<Rightarrow> ''NULL'' | Some s \<Rightarrow> s)"

definition type_name :: "vvpp_type \<Rightarrow> string" where
  "type_name ty =
     (case ty of VVPP_TYPE_TEXT \<Rightarrow> ''text'' | VVPP_TYPE_OPTS \<Rightarrow> ''opts''
      | VVPP_TYPE_OPTION_LIST \<Rightarrow> ''httpoptionlistfromarray''
      | VVPP_TYPE_ARRAY_ENTRY \<Rightarrow> ''array_entry'' | VVPP_TYPE_LIST \<Rightarrow> ''listfromarray'')"

definition log_number :: "int \<Rightarrow> string \<Rightarrow> string res" where
  "log_number i b = rbind (bcat 7 [] (show_int i)) (bcat 256 b)"

definition log_rc :: "var_val_pair_plus \<Rightarrow> string \<Rightarrow> string res" where
  "log_rc p b =
     rbind (bcat 256 b '':#'') (\<lambda>b.
     rbind (if pp_row p = VVPP_ALL_ROWS then bcat 256 b ''ALLR''
            else if pp_row p = VVPP_SELECTED_ROW then
              (case pp_row_identifier p of None \<Rightarrow> Fault Null_deref | Some r \<Rightarrow> bcat 256 b r)
            else log_number (pp_row p) b) (\<lambda>b.
     rbind (bcat 256 b '','') (\<lambda>b.
     if pp_column p = VVPP_ALL_COLUMNS then bcat 256 b ''ALLC'' else log_number (pp_column p) b)))"

fun log_translate :: "bool \<Rightarrow> var_val_pair option list \<Rightarrow> string \<Rightarrow> string res" where
  "log_translate first [] b = Ok b"
| "log_translate first (slot # slots) b =
     (case slot of
        None \<Rightarrow> Fault Uninit_read
      | Some vvp \<Rightarrow>
          rbind (if first then Ok b else bcat 256 b '';'') (\<lambda>b.
          rbind (bcat 256 b (or_NULL (vp_var vvp))) (\<lambda>b.
          rbind (bcat 256 b ''='') (\<lambda>b.
          rbind (bcat 256 b (or_NULL (vp_value vvp))) (\<lambda>b.
          log_translate False slots b)))))"

definition vvpp_log_to_file :: "var_val_pair_plus option \<Rightarrow> string \<Rightarrow> string res" where
  "vvpp_log_to_file pp line =
     (case pp of
        None \<Rightarrow> Ok ''vvpp_log_to_file: NULL struct sent, nothing doing''
      | Some p \<Rightarrow>
          rbind (bcat 256 [] (''@'' @ null_shown (pp_var p) @ ''# '' @ null_shown (pp_value p) @ '' '')) (\<lambda>b.
          rbind (bcat 256 b (type_name (pp_type p))) (\<lambda>b.
          rbind (if has_flag p VVPP_HAS_RC_INFO then log_rc p b else Ok b) (\<lambda>b.
          rbind (if has_flag p VVPP_HAS_IP_START then bcat 256 b '':@ipstart'' else Ok b) (\<lambda>b.
          rbind (if has_flag p VVPP_HAS_IP_END then bcat 256 b '':@ipend'' else Ok b) (\<lambda>b.
          rbind (if has_flag p VVPP_HAS_TRANSLATE then
                   rbind (bcat 256 b '':'') (\<lambda>b.
                     case pp_translate_vvpa p of
                       None \<Rightarrow> Fault Null_deref
                     | Some tr \<Rightarrow> log_translate True (take (num_used tr) (vvps tr)) b)
                 else Ok b) (\<lambda>b.
          Ok (format_s line [b]))))))))"

fun vvppa_log_loop :: "nat \<Rightarrow> var_val_pair_plus option list \<Rightarrow> string \<Rightarrow> string res" where
  "vvppa_log_loop i [] line = Ok []"
| "vvppa_log_loop i (p # ps) line =
     rbind (vvpp_log_to_file p line) (\<lambda>x.
     rbind (vvppa_log_loop (i + 1) ps line) (\<lambda>y.
       Ok (''vvppa_log_to_file - entry '' @ show_nat i @ [CHR 0x0A] @ x @ y)))"

definition vvppa_log_to_file :: "var_val_pair_plus_array \<Rightarrow> string \<Rightarrow> string res" where
  "vvppa_log_to_file a line =
     rbind (vvppa_log_loop 0 (take (pnum_used a) (vvpps a)) line) (\<lambda>x.
       Ok (''vvppa_log_to_file - starting up'' @ [CHR 0x0A] @ x))"

fun vvpa_log_loop :: "var_val_pair option list \<Rightarrow> string \<Rightarrow> string res" where
  "vvpa_log_loop [] line = Ok []"
| "vvpa_log_loop (slot # slots) line =
     (case slot of
        None \<Rightarrow> Fault Uninit_read
      | Some vvp \<Rightarrow>
          rbind (vvpa_log_loop slots line) (\<lambda>y.
            Ok (format_s line [or_NULL (vp_var vvp), or_NULL (vp_value vvp)] @ y)))"

definition vvpa_log_to_file :: "var_val_pair_array option \<Rightarrow> string \<Rightarrow> string res" where
  "vvpa_log_to_file ap line =
     (case ap of None \<Rightarrow> Ok (format_s line [''array sent'', ''NULL''])
      | Some a \<Rightarrow> vvpa_log_loop (take (num_used a) (vvps a)) line)"

subsection \<open>Environment variables\<close>

text \<open>
  The array of \<open>env_size\<close> pointers that \<^verbatim>\<open>calloc\<close> returns, all NULL, is filled from index 0; a
  write at an index outside it is a fault.
\<close>

fun env_fill :: "cptr list \<Rightarrow> nat \<Rightarrow> string list \<Rightarrow> (cptr list \<times> nat) res" where
  "env_fill result index [] = Ok (result, index)"
| "env_fill result index (e # es) =
     (if index < length result then env_fill (result[index := Some e]) (index + 1) es
      else Fault Oob_write)"

definition env_entry :: "var_val_pair \<Rightarrow> string" where
  "env_entry vvp =
     (case vp_var vvp of None \<Rightarrow> [] | Some s \<Rightarrow> s) @ ''='' @ (case vp_value vvp of None \<Rightarrow> [] | Some s \<Rightarrow> s)"

fun env_entries :: "var_val_pair option list \<Rightarrow> string list res" where
  "env_entries [] = Ok []"
| "env_entries (slot # slots) =
     (case slot of None \<Rightarrow> Fault Uninit_read
      | Some vvp \<Rightarrow> rbind (env_entries slots) (\<lambda>es. Ok (env_entry vvp # es)))"

definition used_slots :: "var_val_pair_array option \<Rightarrow> var_val_pair option list" where
  "used_slots ap = (case ap of None \<Rightarrow> [] | Some a \<Rightarrow> take (num_used a) (vvps a))"

definition vvpas_into_environment_variables ::
  "string list option \<Rightarrow> var_val_pair_array option \<Rightarrow> var_val_pair_array option \<Rightarrow> cptr list res" where
  "vvpas_into_environment_variables env vvpa1 vvpa2 =
     (let env_in = (case env of None \<Rightarrow> [] | Some e \<Rightarrow> e);
          used = (\<lambda>ap. case ap of None \<Rightarrow> 0 | Some a \<Rightarrow> num_used a);
          env_size = length env_in + 1 + used vvpa1 + used vvpa2
      in rbind (env_fill (replicate env_size None) 0 env_in) (\<lambda>(result, index).
         rbind (env_entries (used_slots vvpa1)) (\<lambda>es1.
         rbind (env_fill result index es1) (\<lambda>(result, index).
         rbind (env_entries (used_slots vvpa2)) (\<lambda>es2.
         rbind (env_fill result index es2) (\<lambda>(result, index).
         Ok (result[env_size - 1 := None])))))))"

subsection \<open>Invariant and abstraction\<close>

definition vvpa_inv :: "var_val_pair_array \<Rightarrow> bool" where
  "vvpa_inv a \<longleftrightarrow>
     length (vvps a) = num_alloc a \<and> num_used a \<le> num_alloc a \<and> num_alloc a \<le> num_used a + 10
     \<and> None \<notin> set (take (num_used a) (vvps a))"

definition vvpa_list :: "var_val_pair_array \<Rightarrow> var_val_pair list" where
  "vvpa_list a = map the (take (num_used a) (vvps a))"

definition vvppa_inv :: "var_val_pair_plus_array \<Rightarrow> bool" where
  "vvppa_inv a \<longleftrightarrow>
     length (vvpps a) = pnum_alloc a \<and> pnum_used a \<le> pnum_alloc a \<and> pnum_alloc a \<le> pnum_used a + 10
     \<and> None \<notin> set (take (pnum_used a) (vvpps a))"

definition vvppa_list :: "var_val_pair_plus_array \<Rightarrow> var_val_pair_plus list" where
  "vvppa_list a = map the (take (pnum_used a) (vvpps a))"

lemma take_update_same: "n < length xs \<Longrightarrow> take (Suc n) (xs[n := x]) = take n xs @ [x]"
  by (simp add: take_Suc_conv_app_nth)

lemma map_Some_the: "None \<notin> set xs \<Longrightarrow> map Some (map the xs) = xs"
  by (induction xs) auto

lemma vvpa_slots: "vvpa_inv a \<Longrightarrow> take (num_used a) (vvps a) = map Some (vvpa_list a)"
  unfolding vvpa_inv_def vvpa_list_def by (metis map_Some_the)

lemma vvpa_push_take:
  "vvpa_inv a \<Longrightarrow>
   take (Suc (num_used a)) (vvps (vvpa_push x a)) = take (num_used a) (vvps a) @ [Some x]"
  by (auto simp: vvpa_push_def vvpa_inv_def Let_def take_update_same)

lemma vvpa_inv_create [simp]: "vvpa_inv create_var_val_pair_array"
  by (simp add: vvpa_inv_def create_var_val_pair_array_def)

lemma vvpa_list_create [simp]: "vvpa_list create_var_val_pair_array = []"
  by (simp add: vvpa_list_def create_var_val_pair_array_def)

lemma vvpa_push_counts:
  "num_used (vvpa_push x a) = num_used a + 1"
  "num_alloc (vvpa_push x a) = (if num_alloc a = num_used a then num_alloc a + 10 else num_alloc a)"
  "length (vvps (vvpa_push x a)) = (if num_alloc a = num_used a then length (vvps a) + 10 else length (vvps a))"
  by (simp_all add: vvpa_push_def Let_def)

lemma vvppa_push_take:
  "vvppa_inv a \<Longrightarrow>
   take (Suc (pnum_used a)) (vvpps (vvppa_push x a)) = take (pnum_used a) (vvpps a) @ [Some x]"
  by (auto simp: vvppa_push_def vvppa_inv_def Let_def take_update_same)

lemma vvppa_inv_create [simp]: "vvppa_inv create_var_val_pair_plus_array"
  by (simp add: vvppa_inv_def create_var_val_pair_plus_array_def)

lemma vvppa_push_counts:
  "pnum_used (vvppa_push x a) = pnum_used a + 1"
  "pnum_alloc (vvppa_push x a) = (if pnum_alloc a = pnum_used a then pnum_alloc a + 10 else pnum_alloc a)"
  "length (vvpps (vvppa_push x a)) = (if pnum_alloc a = pnum_used a then length (vvpps a) + 10 else length (vvpps a))"
  by (simp_all add: vvppa_push_def Let_def)

interpretation vvpa: growable vvpa_inv num_used "length \<circ> vvps" vvpa_list vvpa_push
proof unfold_locales
  fix a x
  assume a: "vvpa_inv a"
  note t = vvpa_push_take [OF a, of x]
  show "vvpa_inv (vvpa_push x a)"
    using a t by (auto simp: vvpa_inv_def vvpa_push_counts)
  show "vvpa_list (vvpa_push x a) = vvpa_list a @ [x]"
    using t by (simp add: vvpa_list_def vvpa_push_counts)
qed (auto simp: vvpa_inv_def vvpa_list_def vvpa_push_counts)

interpretation vvppa: growable vvppa_inv pnum_used "length \<circ> vvpps" vvppa_list vvppa_push
proof unfold_locales
  fix a x
  assume a: "vvppa_inv a"
  note t = vvppa_push_take [OF a, of x]
  show "vvppa_inv (vvppa_push x a)"
    using a t by (auto simp: vvppa_inv_def vvppa_push_counts)
  show "vvppa_list (vvppa_push x a) = vvppa_list a @ [x]"
    using t by (simp add: vvppa_list_def vvppa_push_counts)
qed (auto simp: vvppa_inv_def vvppa_list_def vvppa_push_counts)

subsection \<open>The array as a store of values under names\<close>

lemma has_var_Some [simp]: "has_var v (Some p) \<longleftrightarrow> vp_var p = Some v"
  by (simp add: has_var_def)

lemma find_value_loop_find:
  "find_value_loop (map Some ps) v =
     (case find (\<lambda>p. vp_var p = Some v) ps of None \<Rightarrow> None | Some p \<Rightarrow> vp_value p)"
  by (induction ps) auto

lemma first_index_map_Some: "first_index (has_var v) (map Some ps) = first_index (\<lambda>p. vp_var p = Some v) ps"
  by (induction ps) auto

definition vvpa_lookup :: "var_val_pair_array \<Rightarrow> string \<Rightarrow> string option" where
  "vvpa_lookup a k = find_value_from_var (Some a) (Some k)"

definition vvpa_put :: "string \<Rightarrow> string \<Rightarrow> var_val_pair_array \<Rightarrow> var_val_pair_array" where
  "vvpa_put k v a = the (update_or_add_value_in_var_val_pair_array (Some a) (Some k) (Some v) True)"

fun pairs_put :: "string \<Rightarrow> string \<Rightarrow> var_val_pair list \<Rightarrow> var_val_pair list" where
  "pairs_put k v [] = [create_var_val_pair (Some k) (Some v)]"
| "pairs_put k v (p # ps) =
     (if vp_var p = Some k then p\<lparr>vp_value := Some v\<rparr> # ps else p # pairs_put k v ps)"

lemma pairs_put_None:
  "first_index (\<lambda>p. vp_var p = Some k) ps = None \<Longrightarrow>
   pairs_put k v ps = ps @ [create_var_val_pair (Some k) (Some v)]"
  by (induction ps) (auto split: if_splits)

lemma pairs_put_Some:
  "first_index (\<lambda>p. vp_var p = Some k) ps = Some i \<Longrightarrow>
   pairs_put k v ps = ps[i := (ps ! i)\<lparr>vp_value := Some v\<rparr>]"
  by (induction ps arbitrary: i) (auto split: if_splits)

lemma vvpa_lookup_list:
  "vvpa_inv a \<Longrightarrow>
   vvpa_lookup a k = (case find (\<lambda>p. vp_var p = Some k) (vvpa_list a) of None \<Rightarrow> None | Some p \<Rightarrow> vp_value p)"
  by (simp add: vvpa_lookup_def find_value_from_var_def vvpa_slots find_value_loop_find)

lemma vvpa_put_list:
  assumes a: "vvpa_inv a"
  shows "vvpa_inv (vvpa_put k v a) \<and> vvpa_list (vvpa_put k v a) = pairs_put k v (vvpa_list a)"
proof (cases "first_index (\<lambda>p. vp_var p = Some k) (vvpa_list a)")
  case None
  then have "vvpa_put k v a = vvpa_push (create_var_val_pair (Some k) (Some v)) a"
    by (simp add: vvpa_put_def update_or_add_value_in_var_val_pair_array_def vvpa_slots [OF a]
        find_index_of_var_in_vvpa_def first_index_map_Some addto_var_val_pair_array_def)
  with None a show ?thesis by (simp add: vvpa.invar_add vvpa.elems_add pairs_put_None)
next
  case (Some i)
  then have i: "i < num_used a" "i < length (vvps a)"
    using first_index_SomeD [OF Some] a by (auto simp: vvpa_list_def vvpa_inv_def)
  then have s: "vvps a ! i = Some (vvpa_list a ! i)"
    using vvpa_slots [OF a] by (metis (no_types, lifting) first_index_SomeD [OF Some] nth_map nth_take)
  let ?b = "a\<lparr>vvps := (vvps a)[i := Some ((vvpa_list a ! i)\<lparr>vp_value := Some v\<rparr>)]\<rparr>"
  have p: "vvpa_put k v a = ?b"
    using Some s by (simp add: vvpa_put_def update_or_add_value_in_var_val_pair_array_def
        vvpa_slots [OF a] find_index_of_var_in_vvpa_def first_index_map_Some vvp_update_value_def)
  have t: "take (num_used ?b) (vvps ?b) = map Some ((vvpa_list a)[i := (vvpa_list a ! i)\<lparr>vp_value := Some v\<rparr>])"
    using i vvpa_slots [OF a] by (simp add: take_update_swap map_update)
  then have "vvpa_inv ?b" using a by (auto simp: vvpa_inv_def)
  moreover have "vvpa_list ?b = (vvpa_list a)[i := (vvpa_list a ! i)\<lparr>vp_value := Some v\<rparr>]"
    unfolding vvpa_list_def [of ?b] t by (simp add: comp_def)
  ultimately show ?thesis using p Some by (simp add: pairs_put_Some)
qed

lemma find_pairs_put:
  "(case find (\<lambda>p. vp_var p = Some k') (pairs_put k v ps) of None \<Rightarrow> None | Some p \<Rightarrow> vp_value p) =
   (if k' = k then Some v else (case find (\<lambda>p. vp_var p = Some k') ps of None \<Rightarrow> None | Some p \<Rightarrow> vp_value p))"
  by (induction ps) (auto simp: create_var_val_pair_def)

interpretation vvpa_kv: kv_store vvpa_inv "\<lambda>_. True" "\<lambda>_. True" vvpa_lookup vvpa_put
  by unfold_locales (simp_all add: vvpa_put_list vvpa_lookup_list find_pairs_put)

subsection \<open>Environment lemmas\<close>

lemma env_fill_ok:
  "index + length es \<le> length result \<Longrightarrow>
   env_fill result index es =
     Ok (take index result @ map Some es @ drop (index + length es) result, index + length es)"
proof (induction es arbitrary: result index)
  case (Cons e es)
  then have i: "index < length result" by simp
  then have "take (Suc index) (result[index := Some e]) = take index result @ [Some e]"
    by (rule take_update_same)
  with Cons i show ?case by simp
qed simp

lemma env_entries_Some: "env_entries (map Some ps) = Ok (map env_entry ps)"
  by (induction ps) simp_all

subsection \<open>Properties\<close>

text \<open>
  C19. An array of pairs refines a map: after any sequence of updates that add a missing
  variable, find_value_from_var returns the last value stored under the name, and every
  other name keeps its value.
\<close>

theorem vvpa_refines_map:
  assumes "vvpa_inv a"
  shows "find_value_from_var (Some (vvpa_kv.updates ps a)) (Some k) =
    (case map_of (rev ps) k of Some v \<Rightarrow> Some v | None \<Rightarrow> find_value_from_var (Some a) (Some k))"
  using vvpa_kv.lookup_updates [OF assms, of ps k] unfolding vvpa_lookup_def by simp

theorem vvpa_refines_map_witness:
  "find_value_from_var (Some (vvpa_kv.updates [(''a'', ''1''), (''b'', ''2''), (''a'', ''3'')]
     create_var_val_pair_array)) (Some ''a'') = Some ''3''"
  using vvpa_refines_map [OF vvpa_inv_create, of "[(''a'', ''1''), (''b'', ''2''), (''a'', ''3'')]" "''a''"]
  by simp

text \<open>
  Appending any number of pairs keeps them all in order, writes every element inside the
  block that realloc returned, and never holds more than ten slots too many.
\<close>

theorem vvpa_append_in_bounds:
  assumes "vvpa_inv a"
  shows "vvpa_list (fold vvpa_push xs a) = vvpa_list a @ xs
    \<and> num_used a < length (vvps (vvpa_push x a))
    \<and> length (vvps (fold vvpa_push xs a)) \<le> num_used a + length xs + 10"
  using vvpa.elems_adds [OF assms, of xs] vvpa.add_slot [OF assms, of x] vvpa.avail_adds [OF assms, of xs]
  by simp

theorem vvpa_append_in_bounds_witness:
  "vvpa_list (fold vvpa_push (replicate 11 (create_var_val_pair (Some ''x'') None)) create_var_val_pair_array)
    = replicate 11 (create_var_val_pair (Some ''x'') None)"
  using vvpa_append_in_bounds [OF vvpa_inv_create, of "replicate 11 (create_var_val_pair (Some ''x'') None)"]
  unfolding vvpa_list_create append_Nil by blast

text \<open>
  C20. The environment handed to an external program is the old one followed by the entries
  of both arrays and the final NULL; the array of pointers is filled exactly, with no write
  outside it.
\<close>

theorem environment_filled_exactly:
  assumes "vvpa_inv a" "vvpa_inv b"
  shows "vvpas_into_environment_variables (Some env) (Some a) (Some b) =
    Ok (map Some (env @ map env_entry (vvpa_list a) @ map env_entry (vvpa_list b)) @ [None])"
proof -
  have used: "num_used a = length (vvpa_list a)" "num_used b = length (vvpa_list b)"
    using assms vvpa.used_elems by blast+
  show ?thesis
    by (simp add: vvpas_into_environment_variables_def Let_def used_slots_def env_fill_ok
        vvpa_slots [OF assms(1)] vvpa_slots [OF assms(2)] env_entries_Some list_update_append
        used [symmetric] ac_simps del: replicate_Suc) simp
qed

theorem environment_filled_exactly_witness:
  "vvpas_into_environment_variables (Some [''PATH=/bin''])
     (Some (vvpa_push (create_var_val_pair (Some ''a'') (Some ''1'')) create_var_val_pair_array))
     (Some create_var_val_pair_array) = Ok [Some ''PATH=/bin'', Some ''a=1'', None]"
  using environment_filled_exactly
    [of "vvpa_push (create_var_val_pair (Some ''a'') (Some ''1'')) create_var_val_pair_array"
      create_var_val_pair_array "[''PATH=/bin'']"]
  by (simp add: vvpa.invar_add vvpa.elems_add create_var_val_pair_def env_entry_def)

text \<open>
  my_strchrdup writes the terminator one byte past the memory it asked for: with an
  allocator that hands out exactly what is requested it faults on every string it finds an
  end of, and it returns the copy only when the allocator rounds the request up.
\<close>

theorem my_strchrdup_overruns:
  assumes "eow = NUL \<or> eow \<in> set src"
  shows "my_strchrdup id src eow = Fault Oob_write
    \<and> (length (before src eow) < usable (length (before src eow)) \<longrightarrow>
     my_strchrdup usable src eow = Ok (Some (before src eow)))"
proof -
  have "take (length (before src eow)) src = before src eow"
    by (metis before_def takeWhile_eq_take)
  then show ?thesis using assms by (auto simp: my_strchrdup_def Let_def)
qed

theorem my_strchrdup_overruns_witness:
  "my_strchrdup id ''sel,2'' CHR '','' = Fault Oob_write
    \<and> my_strchrdup Suc ''sel,2'' CHR '','' = Ok (Some ''sel'')"
  using my_strchrdup_overruns [of "CHR '',''" "''sel,2''" Suc]
  by (simp add: before_def)

end
