(* ===== verification/Parse_Vars.thy ===== *)
theory Parse_Vars
  imports Var_Val_Pair
begin

section \<open>Parsing request variables\<close>

text \<open>
  The parser of \<^verbatim>\<open>var_val_pair.c\<close>: one \<^verbatim>\<open>name=value\<close> phrase with its \<^verbatim>\<open>%xx\<close> and \<^verbatim>\<open>+\<close> escapes,
  and the splitting of a query string, a POST body or an argument vector into phrases.
  A phrase is the rest of the buffer it lies in, since the loop over an escape may step
  over the NUL that ends the phrase.
\<close>

subsection \<open>One phrase\<close>

definition hex_digit :: "char \<Rightarrow> int option" where
  "hex_digit ch =
     (let n = int (of_char ch)
      in if 48 \<le> n \<and> n \<le> 57 then Some (n - 48)
         else if 65 \<le> n \<and> n \<le> 70 then Some (n - 55)
         else if 97 \<le> n \<and> n \<le> 102 then Some (n - 87)
         else None)"

text \<open>
  \<^verbatim>\<open>sscanf(buf, "%2x", &c)\<close> on at most two characters: white space, an optional sign, hex
  digits; \<open>None\<close> leaves \<^verbatim>\<open>c\<close> as it was. Two characters cannot hold \<^verbatim>\<open>0x\<close> and a digit, so
  \<^verbatim>\<open>0x\<close> is an incomplete number.
\<close>

definition sscanf_2x :: "string \<Rightarrow> int option" where
  "sscanf_2x buf =
     (case dropWhile isspace buf of
        [] \<Rightarrow> None
      | [a] \<Rightarrow> hex_digit a
      | a # b # _ \<Rightarrow>
          if a = CHR ''+'' then hex_digit b
          else if a = CHR ''-'' then map_option uminus (hex_digit b)
          else if a = CHR ''0'' \<and> (b = CHR ''x'' \<or> b = CHR ''X'') then None
          else (case hex_digit a of None \<Rightarrow> None
                | Some x \<Rightarrow> (case hex_digit b of None \<Rightarrow> Some x | Some y \<Rightarrow> Some (16 * x + y))))"

text \<open>\<^verbatim>\<open>value[vcount] = c\<close> keeps the low eight bits of the int.\<close>

definition char_of_int :: "int \<Rightarrow> char" where
  "char_of_int i = char_of (nat (i mod 256))"

text \<open>
  The loop over the value. \<open>c\<close> is the int variable, \<open>None\<close> before its first assignment;
  \<open>vlen\<close> the size of the buffer \<open>value\<close> and \<open>out\<close> what was stored in it.
\<close>

definition put_value :: "char \<Rightarrow> nat \<Rightarrow> string \<Rightarrow> (nat \<times> string) res" where
  "put_value ch vlen out =
     (if length out < vlen then
        Ok (if length out + 1 = vlen then vlen + 20 else vlen, out @ [ch])
      else Fault Oob_write)"

fun value_loop :: "bytes \<Rightarrow> char option \<Rightarrow> nat \<Rightarrow> string \<Rightarrow> (nat \<times> string) res" where
  "value_loop [] c vlen out = Fault Oob_read"
| "value_loop (x # r) c vlen out =
     (if x = NUL then Ok (vlen, out)
      else if x = CHR 0x0D then value_loop r c vlen out
      else if x = CHR ''%'' then
        (case r of
           a # b # r' \<Rightarrow>
             (case (case sscanf_2x (c_trunc [a, b]) of Some v \<Rightarrow> Some (char_of_int v) | None \<Rightarrow> c) of
                None \<Rightarrow> Fault Uninit_read
              | Some ch \<Rightarrow> rbind (put_value ch vlen out) (\<lambda>(vlen, out). value_loop r' (Some ch) vlen out))
         | _ \<Rightarrow> Fault Oob_read)
      else
        (let ch = (if x = CHR ''+'' then CHR '' '' else x)
         in rbind (put_value ch vlen out) (\<lambda>(vlen, out). value_loop r (Some ch) vlen out)))"

text \<open>Trimming of the name: from the front up to the \<^verbatim>\<open>=\<close>, then from the back.\<close>

definition trim_name :: "string \<Rightarrow> string" where
  "trim_name s = rev (dropWhile isspace (rev (dropWhile isspace s)))"

text \<open>
  \<open>buf\<close> is the phrase, its NUL and whatever follows in memory; a NULL result is \<open>None\<close>. The
  terminator is stored at index \<open>length out\<close>.
\<close>

definition parse_var :: "bytes \<Rightarrow> var_val_pair option res" where
  "parse_var buf =
     rbind (c_string buf) (\<lambda>s.
       if CHR ''='' \<notin> set s then Ok None
       else let raw = before s CHR ''=''; vname = trim_name raw
            in if vname = [] then Ok None
               else rbind (value_loop (drop (length raw + 1) buf) None (length s) []) (\<lambda>(vlen, out).
                 if vlen \<le> length out then Fault Oob_write
                 else Ok (Some (create_var_val_pair (Some vname) (Some (c_trunc out))))))"

definition parse_var_equals_val_into_vvpa ::
  "bytes \<Rightarrow> var_val_pair_array option \<Rightarrow> var_val_pair_array option res" where
  "parse_var_equals_val_into_vvpa buf ap =
     rbind (parse_var buf) (\<lambda>r.
       case r of None \<Rightarrow> Ok ap
       | Some vvp \<Rightarrow> Ok (Some (addto_var_val_pair_array ap (vp_var vvp) (vp_value vvp))))"

subsection \<open>Phrases of an argument vector, a query string or a body\<close>

fun parse_phrases :: "bytes list \<Rightarrow> var_val_pair_array option \<Rightarrow> var_val_pair_array option res" where
  "parse_phrases [] ap = Ok ap"
| "parse_phrases (b # bs) ap = rbind (parse_var_equals_val_into_vvpa b ap) (parse_phrases bs)"

definition parse_argv_type_data_into_vvpa ::
  "string list option \<Rightarrow> var_val_pair_array option \<Rightarrow> var_val_pair_array option res" where
  "parse_argv_type_data_into_vvpa argv ap =
     (case argv of None \<Rightarrow> Ok ap | Some as \<Rightarrow> parse_phrases (map (\<lambda>a. a @ [NUL]) as) ap)"

text \<open>
  \<^verbatim>\<open>strtok\<close>: delimiters are skipped, the token runs to the next delimiter, which becomes a
  NUL. The result is the memory at each token: the token, NUL, the text that has not been
  split yet, and the NUL of the whole string.
\<close>

function strtok_phrases :: "string \<Rightarrow> string \<Rightarrow> bytes list" where
  "strtok_phrases delims s =
     (let t = dropWhile (\<lambda>c. c \<in> set delims) s; tok = takeWhile (\<lambda>c. c \<notin> set delims) t
      in if t = [] then []
         else (case drop (length tok) t of
                 [] \<Rightarrow> [tok @ [NUL]]
               | d # rest \<Rightarrow> (tok @ NUL # rest @ [NUL]) # strtok_phrases delims rest))"
  by pat_completeness auto
termination
proof (relation "measure (\<lambda>(d, s). length s)")
  fix delims s :: string and x xa x21 x22
  assume "x = dropWhile (\<lambda>c. c \<in> set delims) s" "drop (length xa) x = x21 # x22"
  then have "length (x21 # x22) \<le> length s"
    by (metis diff_le_self dual_order.trans length_drop length_dropWhile_le)
  then show "((delims, x22), delims, s) \<in> measure (\<lambda>(d, s). length s)" by simp
qed simp

declare strtok_phrases.simps [simp del]

definition parse_post_get_type_data_into_vvpa ::
  "cptr \<Rightarrow> var_val_pair_array option \<Rightarrow> string \<Rightarrow> var_val_pair_array option res" where
  "parse_post_get_type_data_into_vvpa data ap split_char =
     (case data of None \<Rightarrow> Ok ap | Some d \<Rightarrow> parse_phrases (strtok_phrases split_char d) ap)"

subsection \<open>Encoding, the reference for the round trip\<close>

definition hex_char :: "nat \<Rightarrow> char" where
  "hex_char d = (if d < 10 then char_of (48 + d) else char_of (55 + d))"

definition is_plain :: "char \<Rightarrow> bool" where
  "is_plain c \<longleftrightarrow>
     (let n = (of_char c :: nat) in 48 \<le> n \<and> n \<le> 57 \<or> 65 \<le> n \<and> n \<le> 90 \<or> 97 \<le> n \<and> n \<le> 122)"

definition url_char :: "char \<Rightarrow> string" where
  "url_char c =
     (if is_plain c then [c]
      else if c = CHR '' '' then ''+''
      else [CHR ''%'', hex_char (of_char c div 16), hex_char (of_char c mod 16)])"

definition url_encode :: "string \<Rightarrow> string" where
  "url_encode s = concat (map url_char s)"

fun query_of :: "(string \<times> string) list \<Rightarrow> string" where
  "query_of [] = []"
| "query_of [(n, v)] = n @ ''='' @ url_encode v"
| "query_of ((n, v) # p # ps) = n @ ''='' @ url_encode v @ ''&'' @ query_of (p # ps)"

text \<open>Names that reach the parser unchanged.\<close>

definition plain_name :: "string \<Rightarrow> bool" where
  "plain_name n \<longleftrightarrow> n \<noteq> [] \<and> is_cstr n \<and> CHR ''='' \<notin> set n \<and> CHR ''&'' \<notin> set n
     \<and> \<not> isspace (hd n) \<and> \<not> isspace (last n)"

subsection \<open>Lemmas on the value loop\<close>

lemma put_value_ok:
  "length out < vlen \<Longrightarrow> \<exists>vlen'. put_value ch vlen out = Ok (vlen', out @ [ch]) \<and> length (out @ [ch]) < vlen'"
  by (auto simp: put_value_def)

definition in_bounds :: "(nat \<times> string) res \<Rightarrow> bool" where
  "in_bounds m \<longleftrightarrow> (case m of Ok (vlen, out) \<Rightarrow> length out < vlen | Fault e \<Rightarrow> e \<noteq> Oob_write)"

lemma in_bounds_simps [simp]:
  "in_bounds (Ok (vlen, out)) \<longleftrightarrow> length out < vlen" "in_bounds (Fault e) \<longleftrightarrow> e \<noteq> Oob_write"
  by (simp_all add: in_bounds_def)

lemma in_bounds_put:
  "length out < vlen \<Longrightarrow> (\<And>vlen'. length (out @ [ch]) < vlen' \<Longrightarrow> in_bounds (f (vlen', out @ [ch]))) \<Longrightarrow>
   in_bounds (rbind (put_value ch vlen out) f)"
  using put_value_ok [of out vlen ch] by auto

lemma value_loop_bounds: "length out < vlen \<Longrightarrow> in_bounds (value_loop buf c vlen out)"
proof (induction "length buf" arbitrary: buf c vlen out rule: less_induct)
  case less
  show ?case
  proof (cases buf)
    case (Cons x r)
    have ih: "in_bounds (value_loop b c' vlen' out')" if "length b \<le> length r" "length out' < vlen'" for b c' vlen' out'
      using less.hyps [of b out' vlen' c'] that Cons by simp
    have put: "in_bounds (rbind (put_value ch vlen out) (\<lambda>(vlen, out). value_loop b (Some ch) vlen out))"
      if "length b \<le> length r" for ch b
      using ih that by (intro in_bounds_put [OF less.prems]) simp
    have pct: "in_bounds (case r of a # b # r' \<Rightarrow>
        (case f a b of None \<Rightarrow> Fault Uninit_read
         | Some ch \<Rightarrow> rbind (put_value ch vlen out) (\<lambda>(vlen, out). value_loop r' (Some ch) vlen out))
        | _ \<Rightarrow> Fault Oob_read)" for f
      using put by (simp split: list.splits option.splits)
    show ?thesis
      using less.prems ih [of r] put [of r] pct
      by (simp only: Cons value_loop.simps Let_def split: if_split) simp
  qed simp
qed

lemma of_char_lt [simp]: "(of_char c :: nat) < 256"
  by (metis of_char_mod_256 mod_less_divisor zero_less_numeral)

lemma of_char_hex_char: "d < 16 \<Longrightarrow> (of_char (hex_char d) :: nat) = (if d < 10 then 48 + d else 55 + d)"
  by (simp add: hex_char_def)

lemma is_plain_facts:
  "is_plain c \<Longrightarrow> c \<noteq> NUL \<and> c \<noteq> CHR 0x0D \<and> c \<noteq> CHR ''%'' \<and> c \<noteq> CHR ''+'' \<and> c \<noteq> CHR ''-''
     \<and> c \<noteq> CHR ''&'' \<and> c \<noteq> CHR ''='' \<and> \<not> isspace c"
  by (auto simp: is_plain_def Let_def isspace_def)

lemma hex_char_plain: "d < 16 \<Longrightarrow> is_plain (hex_char d)"
  by (simp add: is_plain_def Let_def of_char_hex_char)

lemma hex_char_not_x: "d < 16 \<Longrightarrow> hex_char d \<noteq> CHR ''x'' \<and> hex_char d \<noteq> CHR ''X''"
  using of_char_hex_char [of d] by (auto split: if_splits)

lemma hex_digit_hex_char: "d < 16 \<Longrightarrow> hex_digit (hex_char d) = Some (int d)"
  by (simp add: hex_digit_def Let_def of_char_hex_char)

lemma sscanf_2x_hex:
  "sscanf_2x (c_trunc [hex_char (of_char c div 16), hex_char (of_char c mod 16)]) = Some (int (of_char c))"
proof -
  let ?h = "of_char c div 16 :: nat" and ?l = "of_char c mod 16 :: nat"
  have h: "?h < 16" and l: "?l < 16" by (simp_all add: less_mult_imp_div_less)
  have "16 * int ?h + int ?l = int (of_char c)"
    by (metis mult_div_mod_eq of_nat_add of_nat_mult of_nat_numeral)
  moreover note is_plain_facts [OF hex_char_plain [OF h]] is_plain_facts [OF hex_char_plain [OF l]]
    hex_char_not_x [OF l] hex_digit_hex_char [OF h] hex_digit_hex_char [OF l]
  ultimately show ?thesis by (simp add: sscanf_2x_def c_trunc_def)
qed

lemma char_of_int_of_char [simp]: "char_of_int (int (of_char c)) = c"
  by (simp add: char_of_int_def nat_mod_as_int [symmetric] flip: zmod_int)

lemma value_loop_url_char:
  assumes "c \<noteq> NUL" "length out < vlen"
  shows "\<exists>vlen' d. value_loop (url_char c @ r) d0 vlen out = value_loop r d vlen' (out @ [c])
    \<and> length (out @ [c]) < vlen'"
proof -
  from put_value_ok [OF assms(2), of c] obtain vlen' where
    p: "put_value c vlen out = Ok (vlen', out @ [c])" "length (out @ [c]) < vlen'" by auto
  consider "is_plain c" | "\<not> is_plain c" "c = CHR '' ''" | "\<not> is_plain c" "c \<noteq> CHR '' ''" by blast
  then show ?thesis
  proof cases
    case 1
    with p is_plain_facts [OF 1] show ?thesis by (auto simp: url_char_def Let_def)
  next
    case 2
    with p show ?thesis by (auto simp: url_char_def Let_def)
  next
    case 3
    with p sscanf_2x_hex [of c] show ?thesis by (auto simp: url_char_def)
  qed
qed

lemma value_loop_url_encode:
  "is_cstr v \<Longrightarrow> length out < vlen \<Longrightarrow>
   \<exists>vlen'. value_loop (url_encode v @ NUL # r) d vlen out = Ok (vlen', out @ v) \<and> length (out @ v) < vlen'"
proof (induction v arbitrary: out vlen d)
  case (Cons c v)
  then obtain vlen' d' where
    s: "value_loop (url_char c @ (url_encode v @ NUL # r)) d vlen out =
        value_loop (url_encode v @ NUL # r) d' vlen' (out @ [c])" "length (out @ [c]) < vlen'"
    using value_loop_url_char [of c out vlen "url_encode v @ NUL # r" d] by auto
  moreover have "value_loop (url_encode (c # v) @ NUL # r) d vlen out =
      value_loop (url_char c @ (url_encode v @ NUL # r)) d vlen out" by (simp add: url_encode_def)
  ultimately show ?case using Cons.IH [OF _ s(2), of d'] Cons.prems(1) by auto
qed (simp add: url_encode_def)

lemma url_encode_set: "x \<in> set (url_encode v) \<Longrightarrow> is_plain x \<or> x = CHR ''+'' \<or> x = CHR ''%''"
proof -
  assume "x \<in> set (url_encode v)"
  then obtain c where c: "x \<in> set (url_char c)" by (auto simp: url_encode_def)
  have "(of_char c :: nat) div 16 < 16" "(of_char c :: nat) mod 16 < 16"
    by (simp_all add: less_mult_imp_div_less)
  with c hex_char_plain show ?thesis by (auto simp: url_char_def split: if_splits)
qed

lemma url_encode_cstr [simp]: "is_cstr (url_encode v)"
  using url_encode_set [of NUL v] by (auto simp: is_cstr_def is_plain_def Let_def)

lemma url_encode_no_amp [simp]: "CHR ''&'' \<notin> set (url_encode v)"
  using url_encode_set [of "CHR ''&''" v] by (auto simp: is_plain_def Let_def)

lemma trim_name_plain: "plain_name n \<Longrightarrow> trim_name n = n"
proof -
  assume n: "plain_name n"
  then have "dropWhile isspace n = n" by (cases n) (auto simp: plain_name_def)
  moreover from n have "dropWhile isspace (rev n) = rev n"
    by (cases n rule: rev_cases) (auto simp: plain_name_def)
  ultimately show ?thesis by (simp add: trim_name_def)
qed

lemma parse_var_phrase:
  assumes n: "plain_name n"
    and v: "value_loop (w @ NUL # rest) None (length (n @ ''='' @ w)) [] = Ok (vlen, out)" "length out < vlen"
    and w: "is_cstr w"
  shows "parse_var (n @ ''='' @ w @ NUL # rest) = Ok (Some (create_var_val_pair (Some n) (Some (c_trunc out))))"
proof -
  let ?s = "n @ ''='' @ w"
  have "c_string (?s @ NUL # rest) = Ok ?s"
    using n w by (intro c_string_append) (auto simp: plain_name_def)
  then have "c_string (n @ ''='' @ w @ NUL # rest) = Ok ?s" by simp
  moreover have "before ?s CHR ''='' = n" using n by (simp add: before_append plain_name_def)
  ultimately show ?thesis
    using n v trim_name_plain [OF n] by (simp add: parse_var_def Let_def plain_name_def)
qed

lemma parse_var_query:
  assumes "plain_name n" "is_cstr v"
  shows "parse_var (n @ ''='' @ url_encode v @ NUL # rest) = Ok (Some (create_var_val_pair (Some n) (Some v)))"
proof -
  have "0 < length (n @ ''='' @ url_encode v)" by simp
  with value_loop_url_encode [OF assms(2), of "[]" "length (n @ ''='' @ url_encode v)" rest None]
  obtain vlen where "value_loop (url_encode v @ NUL # rest) None (length (n @ ''='' @ url_encode v)) [] = Ok (vlen, v)"
    "length v < vlen" by auto
  from parse_var_phrase [OF assms(1) this] assms(2) show ?thesis by simp
qed

subsection \<open>Lemmas on phrases\<close>

lemma strtok_last: "t \<noteq> [] \<Longrightarrow> d \<notin> set t \<Longrightarrow> strtok_phrases [d] t = [t @ [NUL]]"
proof -
  assume t: "t \<noteq> []" "d \<notin> set t"
  then have "dropWhile (\<lambda>c. c = d) t = t" by (cases t) auto
  moreover from t(2) have "takeWhile (\<lambda>c. c \<noteq> d) t = t" by (induction t) auto
  ultimately show ?thesis
    using t by (subst strtok_phrases.simps) (simp add: Let_def del: takeWhile_eq_all_conv)
qed

lemma strtok_more:
  "t \<noteq> [] \<Longrightarrow> d \<notin> set t \<Longrightarrow>
   strtok_phrases [d] (t @ d # rest) = (t @ NUL # rest @ [NUL]) # strtok_phrases [d] rest"
proof -
  assume t: "t \<noteq> []" "d \<notin> set t"
  then have "dropWhile (\<lambda>c. c = d) (t @ d # rest) = t @ d # rest" by (cases t) auto
  moreover from t(2) have "takeWhile (\<lambda>c. c \<noteq> d) (t @ d # rest) = t" by (induction t) auto
  ultimately show ?thesis using t by (subst strtok_phrases.simps) (simp add: Let_def)
qed

definition pair_of :: "string \<times> string \<Rightarrow> var_val_pair" where
  "pair_of nv = create_var_val_pair (Some (fst nv)) (Some (snd nv))"

text \<open>A query string of names and values that stand there as they are.\<close>

fun raw_query :: "(string \<times> string) list \<Rightarrow> string" where
  "raw_query [] = []"
| "raw_query [(n, w)] = n @ ''='' @ w"
| "raw_query ((n, w) # p # ps) = n @ ''='' @ w @ ''&'' @ raw_query (p # ps)"

lemma query_of_raw: "query_of ps = raw_query (map (\<lambda>(n, v). (n, url_encode v)) ps)"
  by (induction ps rule: query_of.induct) auto

text \<open>The phrase \<open>n=w\<close> is read as the variable \<open>n\<close> with the value \<open>v\<close>, whatever follows it in memory.\<close>

definition phrase_reads :: "string \<times> string \<Rightarrow> string \<Rightarrow> bool" where
  "phrase_reads nw v \<longleftrightarrow> plain_name (fst nw) \<and> CHR ''&'' \<notin> set (snd nw)
     \<and> (\<forall>rest. parse_var (fst nw @ ''='' @ snd nw @ NUL # rest) = Ok (Some (create_var_val_pair (Some (fst nw)) (Some v))))"

lemma phrase_reads_encoded: "plain_name n \<Longrightarrow> is_cstr v \<Longrightarrow> phrase_reads (n, url_encode v) v"
  using parse_var_query by (simp add: phrase_reads_def)

lemma parse_phrase_into:
  "phrase_reads (n, w) v \<Longrightarrow>
   parse_var_equals_val_into_vvpa (n @ ''='' @ w @ NUL # rest) ap =
     Ok (Some (vvpa_push (pair_of (n, v)) (case ap of None \<Rightarrow> create_var_val_pair_array | Some a \<Rightarrow> a)))"
  by (simp add: parse_var_equals_val_into_vvpa_def create_var_val_pair_def addto_var_val_pair_array_def pair_of_def
      phrase_reads_def)

lemma parse_raw_array:
  "qs \<noteq> [] \<Longrightarrow> (\<And>n w v. ((n, w), v) \<in> set qs \<Longrightarrow> phrase_reads (n, w) v) \<Longrightarrow>
   parse_phrases (strtok_phrases ''&'' (raw_query (map fst qs))) ap =
     Ok (Some (fold vvpa_push (map (\<lambda>((n, w), v). pair_of (n, v)) qs)
       (case ap of None \<Rightarrow> create_var_val_pair_array | Some a \<Rightarrow> a)))"
proof (induction qs arbitrary: ap rule: induct_list012)
  case (2 q)
  obtain n w v where q: "q = ((n, w), v)" by (cases q) auto
  with 2 have r: "phrase_reads (n, w) v" by auto
  then have "strtok_phrases ''&'' (n @ ''='' @ w) = [(n @ ''='' @ w) @ [NUL]]"
    by (intro strtok_last) (auto simp: plain_name_def phrase_reads_def)
  with parse_phrase_into [OF r, of "[]" ap] q show ?case by simp
next
  case (3 q p qs)
  obtain n w v where q: "q = ((n, w), v)" by (cases q) auto
  let ?rest = "raw_query (map fst (p # qs))"
  from 3 q have r: "phrase_reads (n, w) v" by auto
  then have "strtok_phrases ''&'' ((n @ ''='' @ w) @ CHR ''&'' # ?rest) =
      ((n @ ''='' @ w) @ NUL # ?rest @ [NUL]) # strtok_phrases ''&'' ?rest"
    by (intro strtok_more) (auto simp: plain_name_def phrase_reads_def)
  moreover have "parse_phrases (strtok_phrases ''&'' ?rest) ap' =
      Ok (Some (fold vvpa_push (map (\<lambda>((n, w), v). pair_of (n, v)) (p # qs))
        (case ap' of None \<Rightarrow> create_var_val_pair_array | Some a \<Rightarrow> a)))"
    for ap' using 3 by (intro "3.IH") auto
  ultimately show ?case using parse_phrase_into [OF r, of "?rest @ [NUL]" ap] q by simp
qed simp

text \<open>The characters of a value that \<^verbatim>\<open>parse_var\<close> and the splitting at \<open>&\<close> leave as they are.\<close>

definition kept_char :: "char \<Rightarrow> bool" where
  "kept_char c \<longleftrightarrow> c \<noteq> NUL \<and> c \<noteq> CHR 0x0D \<and> c \<noteq> CHR ''%'' \<and> c \<noteq> CHR ''+'' \<and> c \<noteq> CHR ''&''"

lemma value_loop_kept:
  "\<forall>c\<in>set v. kept_char c \<Longrightarrow> length out < vlen \<Longrightarrow>
   \<exists>vlen'. value_loop (v @ NUL # r) d vlen out = Ok (vlen', out @ v) \<and> length (out @ v) < vlen'"
proof (induction v arbitrary: out vlen d)
  case (Cons c v)
  from put_value_ok [OF Cons.prems(2), of c] obtain vlen' where
    p: "put_value c vlen out = Ok (vlen', out @ [c])" "length (out @ [c]) < vlen'" by auto
  with Cons.IH [OF _ p(2), of "Some c"] Cons.prems(1) show ?case by (auto simp: kept_char_def Let_def)
qed simp

lemma phrase_reads_kept:
  assumes "plain_name n" "\<forall>c\<in>set v. kept_char c"
  shows "phrase_reads (n, v) v"
proof -
  have c: "is_cstr v" using assms(2) by (auto simp: is_cstr_def kept_char_def)
  have "parse_var (n @ ''='' @ v @ NUL # rest) = Ok (Some (create_var_val_pair (Some n) (Some v)))" for rest
  proof -
    have "0 < length (n @ ''='' @ v)" by simp
    with value_loop_kept [OF assms(2), of "[]" "length (n @ ''='' @ v)" rest None]
    obtain vlen where "value_loop (v @ NUL # rest) None (length (n @ ''='' @ v)) [] = Ok (vlen, v)" "length v < vlen"
      by auto
    from parse_var_phrase [OF assms(1) this c] c show ?thesis by simp
  qed
  with assms show ?thesis by (auto simp: phrase_reads_def kept_char_def)
qed

lemma parse_kept_array:
  assumes "ps \<noteq> []" "\<And>n v. (n, v) \<in> set ps \<Longrightarrow> plain_name n \<and> (\<forall>c\<in>set v. kept_char c)"
  shows "parse_phrases (strtok_phrases ''&'' (raw_query ps)) ap =
     Ok (Some (fold vvpa_push (map pair_of ps) (case ap of None \<Rightarrow> create_var_val_pair_array | Some a \<Rightarrow> a)))"
proof -
  have "phrase_reads (n, w) v" if "((n, w), v) \<in> set (map (\<lambda>(n, v). ((n, v), v)) ps)" for n w v
    using that assms(2) phrase_reads_kept by auto
  from parse_raw_array [of "map (\<lambda>(n, v). ((n, v), v)) ps" ap, OF _ this] assms(1) show ?thesis
    by (simp add: comp_def case_prod_unfold)
qed

lemma parse_query_array:
  assumes "ps \<noteq> []" "\<And>n v. (n, v) \<in> set ps \<Longrightarrow> plain_name n \<and> is_cstr v"
  shows "parse_phrases (strtok_phrases ''&'' (query_of ps)) ap =
     Ok (Some (fold vvpa_push (map pair_of ps) (case ap of None \<Rightarrow> create_var_val_pair_array | Some a \<Rightarrow> a)))"
proof -
  have "phrase_reads (n, w) v" if "((n, w), v) \<in> set (map (\<lambda>(n, v). ((n, url_encode v), v)) ps)" for n w v
    using that assms(2) phrase_reads_encoded by auto
  from parse_raw_array [of "map (\<lambda>(n, v). ((n, url_encode v), v)) ps" ap, OF _ this] assms(1) show ?thesis
    by (simp add: query_of_raw comp_def case_prod_unfold)
qed

subsection \<open>Properties\<close>

text \<open>
  C13. A query string built from names and values by URL encoding is parsed back into exactly
  these pairs in this order, whatever characters the values hold, with no fault, appended
  to the variables already there.
\<close>

theorem query_string_roundtrip:
  assumes "ps \<noteq> []" "\<forall>(n, v) \<in> set ps. plain_name n \<and> is_cstr v" "vvpa_inv a"
  shows "\<exists>b. parse_post_get_type_data_into_vvpa (Some (query_of ps)) (Some a) ''&'' = Ok (Some b)
    \<and> vvpa_inv b
    \<and> vvpa_list b = vvpa_list a @ map (\<lambda>(n, v). create_var_val_pair (Some n) (Some v)) ps"
proof -
  let ?b = "fold vvpa_push (map pair_of ps) a"
  have "parse_post_get_type_data_into_vvpa (Some (query_of ps)) (Some a) ''&'' = Ok (Some ?b)"
    using parse_query_array [OF assms(1), of "Some a"] assms(2)
    by (auto simp: parse_post_get_type_data_into_vvpa_def)
  moreover have "map pair_of ps = map (\<lambda>(n, v). create_var_val_pair (Some n) (Some v)) ps"
    by (auto simp: pair_of_def)
  ultimately show ?thesis using vvpa.invar_adds vvpa.elems_adds assms(3) by fastforce
qed

theorem query_string_roundtrip_witness:
  "\<exists>b. parse_post_get_type_data_into_vvpa (Some ''user=a+b&key=%25x'') (Some create_var_val_pair_array) ''&'' = Ok (Some b)
    \<and> vvpa_list b = [create_var_val_pair (Some ''user'') (Some ''a b''), create_var_val_pair (Some ''key'') (Some ''%x'')]"
proof -
  have "hex_char 2 = CHR ''2''" "hex_char 5 = CHR ''5''" by code_simp+
  then have q: "query_of [(''user'', ''a b''), (''key'', ''%x'')] = ''user=a+b&key=%25x''"
    by (simp add: url_encode_def url_char_def is_plain_def Let_def)
  show ?thesis
    using query_string_roundtrip [of "[(''user'', ''a b''), (''key'', ''%x'')]" create_var_val_pair_array]
    unfolding q by (auto simp: plain_name_def isspace_def)
qed

text \<open>
  C18. Whatever the phrase holds, the buffer that parse_var decodes the value into is never
  written outside its bounds: it starts with the length of the phrase and is enlarged each
  time it is full.
\<close>

theorem parse_var_never_overruns: "parse_var buf \<noteq> Fault Oob_write"
proof (cases "c_string buf")
  case (Ok s)
  show ?thesis
  proof (cases "CHR ''='' \<in> set s \<and> trim_name (before s CHR ''='') \<noteq> []")
    case True
    then have "0 < length s" by auto
    with value_loop_bounds [of "[]" "length s" "drop (length (before s CHR ''='') + 1) buf" None] Ok True
    show ?thesis by (auto simp: parse_var_def Let_def rbind_def in_bounds_def split: res.splits)
  next
    case False
    with Ok show ?thesis by (auto simp: parse_var_def Let_def)
  qed
qed (auto simp: parse_var_def c_string_def split: if_splits)

text \<open>
  A percent sign that ends the last argument makes parse_var step over the string's
  terminator and read behind the end of its memory; in the middle of a query string it
  swallows the separator and stores a value that was never set.
\<close>

theorem truncated_escape_reads_past_end:
  assumes "plain_name n"
  shows "parse_argv_type_data_into_vvpa (Some [n @ ''=%'']) ap = Fault Oob_read
    \<and> parse_post_get_type_data_into_vvpa (Some (n @ ''=%&b=2'')) ap ''&'' = Fault Uninit_read"
proof -
  have fault: "parse_var (n @ ''=%'' @ NUL # rest) =
      (case rest of [] \<Rightarrow> Fault Oob_read
       | _ # r \<Rightarrow> Fault Uninit_read)" for rest
  proof -
    have "c_string ((n @ ''=%'') @ NUL # rest) = Ok (n @ ''=%'')"
      using assms by (intro c_string_append) (simp add: plain_name_def)
    moreover have "before (n @ ''=%'') CHR ''='' = n"
      using assms before_append [of "CHR ''=''" n "''%''"] by (simp add: plain_name_def)
    ultimately show ?thesis
      using assms trim_name_plain [OF assms]
      by (auto simp: parse_var_def Let_def plain_name_def sscanf_2x_def c_trunc_def split: list.splits)
  qed
  have "strtok_phrases ''&'' ((n @ ''=%'') @ CHR ''&'' # ''b=2'') =
      ((n @ ''=%'') @ NUL # ''b=2'' @ [NUL]) # strtok_phrases ''&'' ''b=2''"
    using assms by (intro strtok_more) (auto simp: plain_name_def)
  with fault [of "[]"] fault [of "''b=2'' @ [NUL]"] show ?thesis
    by (simp add: parse_argv_type_data_into_vvpa_def parse_var_equals_val_into_vvpa_def
        parse_post_get_type_data_into_vvpa_def)
qed

theorem truncated_escape_reads_past_end_witness:
  "parse_argv_type_data_into_vvpa (Some [''a=%'']) None = Fault Oob_read
    \<and> parse_post_get_type_data_into_vvpa (Some ''a=%&b=2'') None ''&'' = Fault Uninit_read"
  using truncated_escape_reads_past_end [of "''a''" None] by (simp add: plain_name_def isspace_def)

end
