(* ===== verification/Page_Core.thy ===== *)
theory Page_Core
  imports Cache_Sync Parse_Vars
begin

section \<open>The page server: request data and other programs\<close>

text \<open>
  \<^verbatim>\<open>page-server.c\<close>, first part: the state of a request, looking up request variables, the POST
  body, the query string that is passed on, and running the vendor's CGI program and the
  action scripts. The messages written to the log file are left out; the output of the
  programs that is sent to the log is kept.
\<close>

subsection \<open>State\<close>

text \<open>
  What running a program does is a parameter of the model: its output on both streams, its
  wait status and the files afterwards, given its name, environment, arguments, input and
  the files before.
\<close>

record prog_result =
  p_out :: string
  p_err :: string
  p_status :: int
  p_files :: "string \<Rightarrow> bytes option"

record page = nvcache +
  prog :: "string \<Rightarrow> string list \<Rightarrow> string list \<Rightarrow> cptr \<Rightarrow> (string \<Rightarrow> bytes option) \<Rightarrow> prog_result"
  is_exec :: "string \<Rightarrow> bool"
  usable :: "nat \<Rightarrow> nat"
  environ :: "string list"
  incoming_argv :: "string list"
  stdin :: bytes
  stdout :: string
  log :: string
  get_data :: cptr
  post_data :: cptr
  get_data_vvpa :: "var_val_pair_array option"
  post_data_vvpa :: "var_val_pair_array option"
  data_for_render_vvpa :: "var_val_pair_array option"
  env_vvpa :: "var_val_pair_array option"
  action_page_vars :: "var_val_pair_plus_array option"
  render_page_vars :: "var_val_pair_plus_array option"
  env_for_our_scripts :: "string list option"
  post_netgear_action :: bool

text \<open>\<^verbatim>\<open>write(STDOUT_FILENO, ...)\<close>, \<^verbatim>\<open>getenv\<close> and \<^verbatim>\<open>setenv(name, value, 1)\<close>.\<close>

definition put_out :: "string \<Rightarrow> 'z page_scheme \<Rightarrow> 'z page_scheme" where
  "put_out t s = s\<lparr>stdout := stdout s @ t\<rparr>"

definition getenv :: "string \<Rightarrow> 'z page_scheme \<Rightarrow> cptr" where
  "getenv name s = nv_lookup (environ s) name"

definition setenv :: "string \<Rightarrow> string \<Rightarrow> 'z page_scheme \<Rightarrow> 'z page_scheme" where
  "setenv name v s = s\<lparr>environ := nv_update name v (environ s)\<rparr>"

subsection \<open>Request variables\<close>

definition get_post_value :: "cptr \<Rightarrow> 'z page_scheme \<Rightarrow> cptr" where
  "get_post_value var s = find_value_from_var (post_data_vvpa s) var"

definition get_get_value :: "cptr \<Rightarrow> 'z page_scheme \<Rightarrow> cptr" where
  "get_get_value var s = find_value_from_var (get_data_vvpa s) var"

definition get_env_value :: "cptr \<Rightarrow> 'z page_scheme \<Rightarrow> cptr" where
  "get_env_value var s = find_value_from_var (env_vvpa s) var"

definition set_post_value :: "cptr \<Rightarrow> cptr \<Rightarrow> 'z page_scheme \<Rightarrow> 'z page_scheme" where
  "set_post_value var v s =
     s\<lparr>post_data_vvpa := update_or_add_value_in_var_val_pair_array (post_data_vvpa s) var v True\<rparr>"

definition set_get_value :: "cptr \<Rightarrow> cptr \<Rightarrow> 'z page_scheme \<Rightarrow> 'z page_scheme" where
  "set_get_value var v s =
     s\<lparr>get_data_vvpa := update_or_add_value_in_var_val_pair_array (get_data_vvpa s) var v True\<rparr>"

definition page_var_hidden_prefix :: string where "page_var_hidden_prefix = ''h_''"

definition PAGE_VAR_HIDDEN_PREFIX_LENGTH :: nat where "PAGE_VAR_HIDDEN_PREFIX_LENGTH = 2"

definition get_get_or_post_value :: "cptr \<Rightarrow> 'z page_scheme \<Rightarrow> cptr" where
  "get_get_or_post_value varp s =
     (case varp of None \<Rightarrow> None
      | Some var \<Rightarrow>
          let h_var = page_var_hidden_prefix @ var
          in case get_get_value (Some h_var) s of Some v \<Rightarrow> Some v
             | None \<Rightarrow> (case get_post_value (Some h_var) s of Some v \<Rightarrow> Some v
             | None \<Rightarrow> (case get_get_value (Some var) s of Some v \<Rightarrow> Some v
             | None \<Rightarrow> get_post_value (Some var) s)))"

text \<open>The last of the four steps tests and sets what its neighbours suggest it should not.\<close>

definition set_get_or_post_value :: "cptr \<Rightarrow> cptr \<Rightarrow> 'z page_scheme \<Rightarrow> 'z page_scheme" where
  "set_get_or_post_value varp v s =
     (case varp of None \<Rightarrow> s
      | Some var \<Rightarrow>
          let h_var = Some (page_var_hidden_prefix @ var);
              s = (if get_get_value h_var s \<noteq> None then set_get_value h_var v s else s);
              s = (if get_get_value (Some var) s \<noteq> None then set_get_value (Some var) v s else s);
              s = (if get_post_value h_var s \<noteq> None then set_post_value h_var v s else s)
          in if get_get_value h_var s \<noteq> None then set_post_value h_var v s else s)"

definition is_hidden_page_var :: "string \<Rightarrow> bool" where
  "is_hidden_page_var v \<longleftrightarrow> strneq v page_var_hidden_prefix PAGE_VAR_HIDDEN_PREFIX_LENGTH"

text \<open>
  The length comes from \<^verbatim>\<open>CONTENT_LENGTH\<close>. Where it is no number \<^verbatim>\<open>length\<close> keeps whatever was
  on the stack. The size of the buffer is \<open>length + 2\<close> as an unsigned number.
\<close>

definition get_post_data :: "'z page_scheme \<Rightarrow> (unit, 'z page_scheme) run" where
  "get_post_data s =
     (case getenv ''CONTENT_LENGTH'' s of
        None \<Rightarrow> Ret () s
      | Some lengthstr \<Rightarrow>
          (case strtol10 lengthstr of
             None \<Rightarrow> Halt (Crash Uninit_read) s
           | Some len \<Rightarrow>
               if \<not> can_alloc s (nat ((len + 2) mod 2 ^ 32)) then
                 (if 0 < len + 1 then Halt (Crash Null_deref) s else Ret () (s\<lparr>post_data := None\<rparr>))
               else if len + 2 \<le> 0 then Halt (Crash Oob_read) s
               else (let (line, rest) = fgets (nat len) (stdin s)
                     in Ret () (s\<lparr>stdin := rest, post_data := Some (c_trunc line)\<rparr>))))"

subsection \<open>Strings\<close>

text \<open>The comparison runs backwards from both terminators.\<close>

fun ends_loop :: "string \<Rightarrow> nat \<Rightarrow> string \<Rightarrow> nat \<Rightarrow> bool" where
  "ends_loop h l_h e 0 \<longleftrightarrow> char_at h l_h = char_at e 0"
| "ends_loop h l_h e (Suc l_q) \<longleftrightarrow> char_at h l_h = char_at e (Suc l_q) \<and> ends_loop h (l_h - 1) e l_q"

definition ends_with :: "cptr \<Rightarrow> cptr \<Rightarrow> bool" where
  "ends_with haystack end_string =
     (case (haystack, end_string) of
        (Some h, Some e) \<Rightarrow>
          if length h < length e then False
          else if e = [] then True
          else ends_loop h (length h) e (length e)
      | _ \<Rightarrow> False)"

text \<open>
  The query string that is passed on: every pair as \<^verbatim>\<open>var=value&\<close>, written into 1024 bytes,
  with the last ampersand replaced by the terminator.
\<close>

fun query_loop :: "var_val_pair option list \<Rightarrow> string \<Rightarrow> string res" where
  "query_loop [] out = Ok out"
| "query_loop (slot # slots) out =
     (case slot of
        None \<Rightarrow> query_loop slots out
      | Some vvp \<Rightarrow>
          (case (vp_var vvp, vp_value vvp) of
             (Some n, Some v) \<Rightarrow>
               let out' = out @ n @ ''='' @ v @ ''&''
               in if 1024 < length out' then Fault Oob_write else query_loop slots out'
           | _ \<Rightarrow> query_loop slots out))"

definition make_query_string :: "'z page_scheme \<Rightarrow> string res" where
  "make_query_string s =
     (case get_data_vvpa s of
        None \<Rightarrow> Ok []
      | Some a \<Rightarrow> rbind (query_loop (take (num_used a) (vvps a)) []) (\<lambda>out. Ok (butlast out)))"

subsection \<open>Other programs\<close>

text \<open>
  The parent hands the input to the program, copies its output byte by byte to standard
  output or to the log, adds a newline, copies its error output to the log and returns the
  status \<^verbatim>\<open>waitpid\<close> reports.
\<close>

definition run_external_prog ::
  "string \<Rightarrow> string list option \<Rightarrow> string list option \<Rightarrow> cptr \<Rightarrow> bool \<Rightarrow> 'z page_scheme
   \<Rightarrow> (int, 'z page_scheme) run" where
  "run_external_prog file_to_run env argv input output_to_log s =
     (let env_for_prog = (case env of None \<Rightarrow> [] | Some e \<Rightarrow> e);
          argv_for_prog = (case argv of None \<Rightarrow> [] | Some a \<Rightarrow> a);
          r = prog s file_to_run env_for_prog argv_for_prog input (files s);
          s = s\<lparr>files := p_files r\<rparr>;
          s = (if output_to_log then s\<lparr>log := log s @ p_out r @ [CHR 0x0A]\<rparr>
               else put_out (p_out r @ [CHR 0x0A]) s);
          s = s\<lparr>log := log s @ p_err r\<rparr>
      in Ret (p_status r) s)"

definition create_environment_vars_for_our_scripts :: "'z page_scheme \<Rightarrow> (unit, 'z page_scheme) run" where
  "create_environment_vars_for_our_scripts s =
     (if env_for_our_scripts s \<noteq> None then Ret () s
      else sbind (lift (vvpas_into_environment_variables (Some (environ s)) (post_data_vvpa s) (get_data_vvpa s)) s)
        (\<lambda>env s. Ret () (s\<lparr>env_for_our_scripts := Some (map the (filter (\<lambda>e. e \<noteq> None) env))\<rparr>)))"

definition do_action :: "cptr \<Rightarrow> 'z page_scheme \<Rightarrow> (int, 'z page_scheme) run" where
  "do_action ffn s =
     (case ffn of None \<Rightarrow> Ret (- 1) s
      | Some f \<Rightarrow>
          if files s f \<noteq> None \<and> is_exec s f then
            sbind (create_environment_vars_for_our_scripts s) (\<lambda>_ s.
              run_external_prog f (env_for_our_scripts s) None None True s)
          else Ret (- 1) s)"

text \<open>The five kinds of action scripts differ in directory and suffix; the name goes into 512 bytes.\<close>

definition do_named_action ::
  "string \<Rightarrow> string \<Rightarrow> cptr \<Rightarrow> 'z page_scheme \<Rightarrow> (int, 'z page_scheme) run" where
  "do_named_action dir ext file s =
     (case file of None \<Rightarrow> Ret (- 1) s
      | Some f \<Rightarrow>
          let fn = dir @ f @ ext
          in if 512 \<le> length fn then Halt (Crash Oob_write) s else do_action (Some fn) s)"

definition do_pre_save_action :: "cptr \<Rightarrow> 'z page_scheme \<Rightarrow> (int, 'z page_scheme) run" where
  "do_pre_save_action = do_named_action ''save-actions/'' ''.pre''"

definition do_post_save_action :: "cptr \<Rightarrow> 'z page_scheme \<Rightarrow> (int, 'z page_scheme) run" where
  "do_post_save_action = do_named_action ''save-actions/'' ''.post''"

definition do_pre_delete_action :: "cptr \<Rightarrow> 'z page_scheme \<Rightarrow> (int, 'z page_scheme) run" where
  "do_pre_delete_action = do_named_action ''delete-actions/'' ''.pre''"

definition do_post_delete_action :: "cptr \<Rightarrow> 'z page_scheme \<Rightarrow> (int, 'z page_scheme) run" where
  "do_post_delete_action = do_named_action ''delete-actions/'' ''.post''"

definition do_post_netgear_action :: "cptr \<Rightarrow> 'z page_scheme \<Rightarrow> (int, 'z page_scheme) run" where
  "do_post_netgear_action = do_named_action ''post-actions/'' ''.post''"

text \<open>
  Handing the request over: the environment is rewritten, the vendor's program runs with it,
  and the process ends with the status it got. \<^verbatim>\<open>content_length\<close> has room for nine digits.
  Without memory for the query string the process leaves with status 0.
\<close>

definition pass_to_netgear_setup_and_exit ::
  "cptr \<Rightarrow> cptr \<Rightarrow> bool \<Rightarrow> 'z page_scheme \<Rightarrow> ('a, 'z page_scheme) run" where
  "pass_to_netgear_setup_and_exit this_html_file next_html_file send_post_data s =
     (if \<not> can_alloc s 1024 then Halt (Exit 0) s
      else sbind (lift (make_query_string s) s) (\<lambda>qs s.
       let s = setenv ''QUERY_STRING'' qs s;
           post_data_to_use = (if send_post_data then post_data s else None)
       in sbind (case post_data_to_use of
                   None \<Rightarrow> Ret () (setenv ''REQUEST_METHOD'' ''GET'' s)
                 | Some d \<Rightarrow>
                     let content_length = show_nat (length d)
                     in if 10 \<le> length content_length then Halt (Crash Oob_write) s
                        else Ret () (setenv ''REQUEST_METHOD'' ''POST''
                               (setenv ''CONTENT_LENGTH'' content_length s))) (\<lambda>_ s.
          sbind (run_external_prog ''netgear-setup.cgi'' (Some (environ s)) (Some (incoming_argv s))
                   post_data_to_use False s) (\<lambda>exit_val s.
          sbind (if post_netgear_action s then do_post_netgear_action this_html_file s else Ret 0 s) (\<lambda>_ s.
          Halt (Exit exit_val) s)))))"

subsection \<open>Properties\<close>

lemma ends_loop_offset: "ends_loop h (d + q) e q \<longleftrightarrow> (\<forall>i\<le>q. char_at h (d + i) = char_at e i)"
  by (induction q) (auto simp: le_Suc_eq)

text \<open>
  ends_with decides whether the second string is a suffix of the first one.
\<close>

theorem ends_with_is_suffix: "ends_with (Some h) (Some e) \<longleftrightarrow> suffix e h"
proof (cases "length e \<le> length h")
  case True
  let ?d = "length h - length e"
  have "ends_loop h (length h) e (length e) \<longleftrightarrow> (\<forall>i\<le>length e. char_at h (?d + i) = char_at e i)"
    using ends_loop_offset [of h ?d "length e" e] True by simp
  also have "\<dots> \<longleftrightarrow> (\<forall>i<length e. char_at h (?d + i) = char_at e i)"
    using True by (auto simp: le_less char_at_def)
  also have "\<dots> \<longleftrightarrow> (\<forall>i<length e. h ! (?d + i) = e ! i)"
    using True by (intro all_cong) (simp add: char_at_def less_diff_conv2)
  also have "\<dots> \<longleftrightarrow> drop ?d h = e"
    using True by (auto simp: list_eq_iff_nth_eq)
  also have "\<dots> \<longleftrightarrow> suffix e h"
  proof
    assume "drop ?d h = e"
    then show "suffix e h" by (metis suffix_drop)
  qed (auto simp: suffix_def)
  finally show ?thesis using True by (auto simp: ends_with_def)
next
  case False
  then show ?thesis by (auto simp: ends_with_def suffix_def)
qed

text \<open>
  The POST body is read up to CONTENT_LENGTH, but only as far as its first line: a body
  without a newline is read completely, one with a newline is cut after it.
\<close>

theorem post_body_first_line:
  assumes "getenv ''CONTENT_LENGTH'' s = Some (show_nat n)" "n < 2 ^ 31 - 2" "can_alloc s (n + 2)"
    "is_cstr (take n (stdin s))"
  shows "\<exists>t. get_post_data s = Ret () t \<and> post_data t =
    Some (if CHR 0x0A \<in> set (take n (stdin s)) then before (stdin s) (CHR 0x0A) @ [CHR 0x0A] else take n (stdin s))"
proof -
  obtain x r where f: "fgets n (stdin s) = (x, r)" by fastforce
  note x = fgets_line [OF f]
  have num: "strtol10 (show_nat n) = Some (int n)" using assms(2) by (intro strtol10_show_nat) simp
  have size: "nat ((int n + 2) mod 2 ^ 32) = n + 2" using assms(2) by simp
  have room: "can_alloc s (nat ((int n + 2) mod 2 ^ 32))" unfolding size by (rule assms(3))
  have "x = take (length x) (take n (stdin s))"
    using x fgets_length [OF f] by (metis append_eq_conv_conj min.absorb1 take_take)
  with assms(4) have "is_cstr x" by (metis is_cstr_take)
  then have "c_trunc x = x" by simp
  with f assms(1) num room
  have "get_post_data s = Ret () (s\<lparr>stdin := r, post_data := Some x\<rparr>)"
    by (simp add: get_post_data_def)
  with x show ?thesis by auto
qed

definition sample_page :: page where
  "sample_page = nvcache.extend sample_cached
     \<lparr>prog = (\<lambda>file env argv input fs. \<lparr>p_out = ''ok'', p_err = [], p_status = 0, p_files = fs\<rparr>),
      is_exec = (\<lambda>_. False), usable = Suc, environ = [''CONTENT_LENGTH=3''], incoming_argv = [],
      stdin = ''a=1'', stdout = [], log = [], get_data = None, post_data = None, get_data_vvpa = None,
      post_data_vvpa = None, data_for_render_vvpa = None, env_vvpa = None, action_page_vars = None,
      render_page_vars = None, env_for_our_scripts = None, post_netgear_action = False\<rparr>"

lemma sample_page_simps [simp]:
  "prog sample_page = (\<lambda>file env argv input fs. \<lparr>p_out = ''ok'', p_err = [], p_status = 0, p_files = fs\<rparr>)"
  "environ sample_page = [''CONTENT_LENGTH=3'']" "stdin sample_page = ''a=1''" "get_data_vvpa sample_page = None"
  "post_data_vvpa sample_page = None" "can_alloc sample_page = (\<lambda>_. True)" "stdout sample_page = []"
  "post_netgear_action sample_page = False" "usable sample_page = Suc"
  "nc sample_page = nc sample_cached" "render_page_vars sample_page = None"
  "data_for_render_vvpa sample_page = None" "action_page_vars sample_page = None"
  by (simp_all add: sample_page_def nvcache.extend_def sample_cached_def nvram.extend_def sample_nvram_def)

theorem post_body_first_line_witness:
  "\<exists>t. get_post_data sample_page = Ret () t \<and> post_data t = Some ''a=1''"
proof -
  have "show_nat 3 = ''3''" by (simp add: show_nat.simps digit_char_def) code_simp
  with post_body_first_line [of sample_page 3] show ?thesis
    by (simp add: getenv_def nv_match_def strneq_def char_at_def)
qed

subsubsection \<open>The query string that is passed on\<close>

lemma query_loop_pairs:
  "query_loop (map (\<lambda>p. Some (pair_of p)) ps) out =
     (let t = out @ concat (map (\<lambda>(n, v). n @ ''='' @ v @ ''&'') ps)
      in if ps \<noteq> [] \<and> 1024 < length t then Fault Oob_write else Ok t)"
proof (induction ps arbitrary: out)
  case (Cons p ps)
  obtain n v where p: "p = (n, v)" by (cases p)
  show ?case
    using Cons [of "out @ n @ ''='' @ v @ ''&''"]
    by (cases "ps = []") (auto simp: p pair_of_def create_var_val_pair_def Let_def)
qed simp

lemma raw_query_butlast: "raw_query ps = butlast (concat (map (\<lambda>(n, v). n @ ''='' @ v @ ''&'') ps))"
  by (induction ps rule: raw_query.induct) (auto simp: butlast_append)

lemma make_query_string_pairs:
  assumes "get_data_vvpa s = Some a" "vvpa_inv a" "vvpa_list a = map pair_of ps" "length (raw_query ps) < 1024"
  shows "make_query_string s = Ok (raw_query ps)"
proof -
  let ?t = "concat (map (\<lambda>(n, v). n @ ''='' @ v @ ''&'') ps)"
  have "length ?t \<le> 1024 \<or> ps = []" using assms(4) by (auto simp: raw_query_butlast)
  then have "query_loop (map Some (vvpa_list a)) [] = Ok ?t"
    using query_loop_pairs [of ps "[]"] assms(3) by (auto simp: Let_def comp_def)
  then show ?thesis using assms by (simp add: make_query_string_def vvpa_slots raw_query_butlast)
qed

text \<open>
  C21. The query string handed to the vendor's program describes the same variables, for the values
  it can carry: if no value holds one of &, %, + or a carriage return, which are not encoded
  again, no name holds one of & and = or has a space at an end, and the string fits
  its buffer of 1024 bytes, then parsing it gives exactly the pairs of the request, in
  their order. Page names, addresses and texts with spaces are such values.
\<close>

theorem forwarded_query_reparses:
  assumes "get_data_vvpa s = Some a" "vvpa_inv a" "vvpa_list a = map pair_of ps" "ps \<noteq> []"
    "\<forall>(n, v)\<in>set ps. plain_name n \<and> (\<forall>c\<in>set v. kept_char c)" "length (raw_query ps) < 1024"
  shows "\<exists>q b. make_query_string s = Ok q
    \<and> parse_post_get_type_data_into_vvpa (Some q) None ''&'' = Ok (Some b) \<and> vvpa_list b = vvpa_list a"
proof -
  have "parse_post_get_type_data_into_vvpa (Some (raw_query ps)) None ''&'' =
      Ok (Some (fold vvpa_push (map pair_of ps) create_var_val_pair_array))"
    using parse_kept_array [OF assms(4), of None] assms(5) by (auto simp: parse_post_get_type_data_into_vvpa_def)
  then show ?thesis
    using make_query_string_pairs [OF assms(1-3,6)] vvpa.elems_adds [OF vvpa_inv_create, of "map pair_of ps"] assms(3)
    by auto
qed

lemma two_pairs:
  "vvpa_inv (fold vvpa_push xs create_var_val_pair_array)"
  "vvpa_list (fold vvpa_push xs create_var_val_pair_array) = xs"
  using vvpa.invar_adds [OF vvpa_inv_create, of xs] vvpa.elems_adds [OF vvpa_inv_create, of xs] by simp_all

theorem forwarded_query_reparses_witness:
  "\<exists>q b. make_query_string (sample_page\<lparr>get_data_vvpa :=
      Some (fold vvpa_push (map pair_of [(''next_file'', ''x.htm''), (''ip'', ''192.168.0.1'')]) create_var_val_pair_array)\<rparr>) = Ok q
    \<and> parse_post_get_type_data_into_vvpa (Some q) None ''&'' = Ok (Some b)
    \<and> vvpa_list b = [pair_of (''next_file'', ''x.htm''), pair_of (''ip'', ''192.168.0.1'')]"
proof -
  let ?ps = "[(''next_file'', ''x.htm''), (''ip'', ''192.168.0.1'')]"
  let ?a = "fold vvpa_push (map pair_of ?ps) create_var_val_pair_array"
  have l: "vvpa_list ?a = map pair_of ?ps" by (rule two_pairs)
  show ?thesis
    using forwarded_query_reparses [of "sample_page\<lparr>get_data_vvpa := Some ?a\<rparr>", OF _ two_pairs(1) l] l
    by (simp add: plain_name_def isspace_def kept_char_def)
qed

text \<open>
  Values are decoded when the request is parsed but not encoded again when it is passed
  on: a value that holds an ampersand reaches the vendor's program as two variables.
\<close>

theorem forwarded_query_splits_value:
  assumes "get_data_vvpa s = Some a" "vvpa_inv a" "vvpa_list a = [pair_of (n, u @ ''&'' @ m @ ''='' @ w)]"
    "plain_name n" "plain_name m" "\<forall>c\<in>set (u @ w). kept_char c" "length (n @ u @ m @ w) < 1000"
  shows "\<exists>q b. make_query_string s = Ok q
    \<and> parse_post_get_type_data_into_vvpa (Some q) None ''&'' = Ok (Some b)
    \<and> vvpa_list b = [pair_of (n, u), pair_of (m, w)]"
proof -
  let ?ps = "[(n, u), (m, w)]"
  have "make_query_string s = Ok (raw_query [(n, u @ ''&'' @ m @ ''='' @ w)])"
    using assms(1,2,3,7) by (intro make_query_string_pairs) simp_all
  then have mk: "make_query_string s = Ok (raw_query ?ps)" by simp
  have "parse_phrases (strtok_phrases ''&'' (raw_query ?ps)) None =
      Ok (Some (fold vvpa_push (map pair_of ?ps) create_var_val_pair_array))"
    using parse_kept_array [of ?ps None] assms(4-6) by auto
  with mk two_pairs [of "map pair_of ?ps"] show ?thesis
    by (intro exI [of _ "raw_query ?ps"]) (simp add: parse_post_get_type_data_into_vvpa_def del: raw_query.simps)
qed

theorem forwarded_query_splits_value_witness:
  "\<exists>q b. make_query_string (sample_page\<lparr>get_data_vvpa :=
      Some (fold vvpa_push [pair_of (''note'', ''x&todo=reset'')] create_var_val_pair_array)\<rparr>) = Ok q
    \<and> parse_post_get_type_data_into_vvpa (Some q) None ''&'' = Ok (Some b)
    \<and> vvpa_list b = [pair_of (''note'', ''x''), pair_of (''todo'', ''reset'')]"
proof -
  let ?a = "fold vvpa_push [pair_of (''note'', ''x&todo=reset'')] create_var_val_pair_array"
  have l: "vvpa_list ?a = [pair_of (''note'', ''x'' @ ''&'' @ ''todo'' @ ''='' @ ''reset'')]"
    using two_pairs(2) [of "[pair_of (''note'', ''x&todo=reset'')]"] by simp
  show ?thesis
    using forwarded_query_splits_value [of "sample_page\<lparr>get_data_vvpa := Some ?a\<rparr>", OF _ two_pairs(1) l]
    by (simp add: plain_name_def isspace_def kept_char_def)
qed

end
