(* ===== verification/Page_Vars.thy ===== *)
theory Page_Vars
  imports Page_Core
begin

section \<open>The description of a page's variables\<close>

text \<open>
  \<^verbatim>\<open>get_page_vars\<close>: each line of a file under \<^verbatim>\<open>render-data\<close> names a page variable, the NVRAM
  variable behind it and, separated by colons, how the two are related (a type, a row and
  column, a part of an IP range, a translation list). The NVRAM variables are fetched into
  the cache on the way.
\<close>

subsection \<open>Lines and words\<close>

text \<open>The lines \<^verbatim>\<open>fgets(line, 128, fp)\<close> delivers, at most 127 characters each.\<close>

function page_lines :: "bytes \<Rightarrow> bytes list" where
  "page_lines b = (if b = [] then [] else fst (fgets 127 b) # page_lines (snd (fgets 127 b)))"
  by pat_completeness auto
termination
  by (relation "measure length") (simp_all add: fgets_rest)

declare page_lines.simps [simp del]

text \<open>\<^verbatim>\<open>sscanf(line, "%s %s %s", ...)\<close>: a word that is missing leaves its array empty.\<close>

definition scan_word :: "string \<Rightarrow> string \<times> string" where
  "scan_word s = (let t = dropWhile isspace s in (takeWhile (\<lambda>c. \<not> isspace c) t, dropWhile (\<lambda>c. \<not> isspace c) t))"

definition scan_words :: "string \<Rightarrow> string \<times> string \<times> string" where
  "scan_words line =
     (let (a, r1) = scan_word line; (b, r2) = scan_word r1; (c, r3) = scan_word r2 in (a, b, c))"

text \<open>
  \<^verbatim>\<open>@\<close>, \<^verbatim>\<open>h_\<close> and the final \<^verbatim>\<open>#\<close> go. With an empty name the test for the \<^verbatim>\<open>#\<close> reads the byte
  before it, which for an empty word lies outside the array.
\<close>

definition trim_page_var :: "string \<Rightarrow> string res" where
  "trim_page_var page_var =
     (let pv1 = (if char_at page_var 0 = CHR ''@'' then tl page_var else page_var);
          pv = (if is_hidden_page_var pv1 then drop 2 pv1 else pv1)
      in if pv = [] then (if page_var = [] then Fault Oob_read else Ok [])
         else if last pv = CHR ''#'' then Ok (butlast pv) else Ok pv)"

subsection \<open>One part of the relation\<close>

text \<open>\<^verbatim>\<open>strchr(p, ',') + 1\<close>; without a comma the next access goes through a bad pointer.\<close>

definition after_comma :: "string \<Rightarrow> string res" where
  "after_comma p = (case strchr p (CHR '','') of None \<Rightarrow> Fault Null_deref | Some r \<Rightarrow> Ok (tl r))"

definition parse_rc :: "(nat \<Rightarrow> nat) \<Rightarrow> string \<Rightarrow> var_val_pair_plus \<Rightarrow> var_val_pair_plus res" where
  "parse_rc usab p e =
     rbind (if strneq p ''ALLR,'' 5 then Ok (VVPP_ALL_ROWS, drop 5 p, e)
            else (case strtol10 p of
                    Some v \<Rightarrow> rbind (after_comma p) (\<lambda>r. Ok (v, r, e))
                  | None \<Rightarrow>
                      rbind (add_var_val_pair_plus_text_attribute usab VVPP_HAS_ROW_ID (Some p) (CHR '','') e) (\<lambda>e.
                      rbind (after_comma p) (\<lambda>r. Ok (VVPP_SELECTED_ROW, r, e)))))
       (\<lambda>(tmp1, r, e).
          let tmp2 = (if strneq r ''ALLC'' 4 then VVPP_ALL_COLUMNS
                      else (case strtol10 r of None \<Rightarrow> 0 | Some v \<Rightarrow> v))
          in Ok (add_var_val_pair_plus_attribute VVPP_HAS_RC_INFO tmp1 tmp2 e))"

definition parse_ip :: "string \<Rightarrow> var_val_pair_plus \<Rightarrow> var_val_pair_plus" where
  "parse_ip p e =
     (if strneq p ''ipstart'' 7 then add_var_val_pair_plus_attribute VVPP_HAS_IP_START 0 0 e
      else if strneq p ''ipend'' 5 then add_var_val_pair_plus_attribute VVPP_HAS_IP_END 0 0 e
      else if strneq p ''ipnum'' 5 then add_var_val_pair_plus_attribute VVPP_HAS_IP_NUM 0 0 e
      else if strneq p ''ipport'' 6 then add_var_val_pair_plus_attribute VVPP_HAS_IP_PORT 0 0 e
      else e)"

text \<open>
  \<open>tail\<close> is what follows the part in the array. A second translation list frees the first
  one, which is the same object, and keeps the pointer.
\<close>

type_synonym rel_state = "var_val_pair_plus \<times> nvram_entry_type \<times> var_val_pair_array option"

definition parse_part :: "(nat \<Rightarrow> nat) \<Rightarrow> string \<Rightarrow> bytes \<Rightarrow> rel_state \<Rightarrow> rel_state res" where
  "parse_part usab seg tail st =
     (let (e, ty, extra) = st
      in if char_at seg 0 = CHR ''#'' then rbind (parse_rc usab (tl seg) e) (\<lambda>e. Ok (e, ty, extra))
         else if char_at seg 0 = CHR ''@'' then Ok (parse_ip (tl seg) e, ty, extra)
         else if seg = ''text'' then
           Ok (set_var_val_pair_plus_type VVPP_TYPE_TEXT e, NVRAM_ENTRY_TYPE_TEXT, extra)
         else if seg = ''opts'' then
           Ok (set_var_val_pair_plus_type VVPP_TYPE_OPTS e, NVRAM_ENTRY_TYPE_TEXT, extra)
         else if seg = ''httpoptionlistfromarray'' then
           Ok (set_var_val_pair_plus_type VVPP_TYPE_OPTION_LIST e, NVRAM_ENTRY_TYPE_ARRAY, extra)
         else if seg = ''listfromarray'' then
           Ok (set_var_val_pair_plus_type VVPP_TYPE_LIST e, NVRAM_ENTRY_TYPE_ARRAY, extra)
         else if seg = ''array_entry'' then
           Ok (set_var_val_pair_plus_type VVPP_TYPE_ARRAY_ENTRY e, NVRAM_ENTRY_TYPE_ARRAY, extra)
         else
           rbind (parse_phrases (map (\<lambda>b. b @ tail) (strtok_phrases '';'' seg)) extra) (\<lambda>extra.
             if pp_translate_vvpa e \<noteq> None then Fault Use_after_free
             else Ok (set_var_val_pair_plus_translation_vvpa extra e, ty, extra)))"

text \<open>The loop over the parts between colons.\<close>

function parse_parts :: "(nat \<Rightarrow> nat) \<Rightarrow> string \<Rightarrow> rel_state \<Rightarrow> rel_state res" where
  "parse_parts usab rel st =
     (let seg = before rel (CHR '':'')
      in case drop (length seg) rel of
           [] \<Rightarrow> parse_part usab seg [] st
         | _ # rst \<Rightarrow> rbind (parse_part usab seg (rst @ [NUL]) st) (\<lambda>st. parse_parts usab rst st))"
  by pat_completeness auto
termination
proof (relation "measure (\<lambda>(u, r, st). length r)")
  fix usab :: "nat \<Rightarrow> nat" and rel x21 x22 and st :: rel_state and x xa
  assume "drop (length x) rel = x21 # x22"
  then have "length (x21 # x22) \<le> length rel" by (metis diff_le_self length_drop)
  then show "((usab, x22, xa), usab, rel, st) \<in> measure (\<lambda>(u, r, st). length r)" by simp
qed simp

declare parse_parts.simps [simp del]

subsection \<open>The file\<close>

text \<open>
  The new element, the NVRAM type wanted from here on, and whether the NVRAM variable is
  fetched. The third word goes into 123 bytes.
\<close>

definition parse_page_line ::
  "(nat \<Rightarrow> nat) \<Rightarrow> nvram_entry_type \<Rightarrow> string \<Rightarrow> (var_val_pair_plus \<times> nvram_entry_type \<times> bool) res" where
  "parse_page_line usab nv_type line =
     (let (page_var, nv_var, var_rel_act) = scan_words line
      in if 123 \<le> length var_rel_act then Fault Oob_write
         else rbind (trim_page_var page_var) (\<lambda>pv.
           let e = create_var_val_pair_plus (Some pv) (Some nv_var)
           in if pv \<noteq> [] \<and> nv_var \<noteq> ''UNDEFINED'' then
                rbind (parse_parts usab var_rel_act (e, nv_type, None)) (\<lambda>(e, nv_type, extra).
                  Ok (e, nv_type, True))
              else Ok (e, nv_type, False)))"

fun page_vars_loop ::
  "bytes list \<Rightarrow> nvram_entry_type \<Rightarrow> var_val_pair_plus_array \<Rightarrow> 'z page_scheme
   \<Rightarrow> (var_val_pair_plus_array, 'z page_scheme) run" where
  "page_vars_loop [] nv_type result s = Ret result s"
| "page_vars_loop (l # ls) nv_type result s =
     sbind (lift (parse_page_line (usable s) nv_type (c_trunc l)) s) (\<lambda>(e, nv_type, fetch) s.
     sbind (if fetch then require_variable_in_nvram_cache (pp_value e) nv_type s else Ret True s) (\<lambda>_ s.
     page_vars_loop ls nv_type (vvppa_push e result) s))"

definition get_page_vars :: "bytes \<Rightarrow> 'z page_scheme \<Rightarrow> (var_val_pair_plus_array, 'z page_scheme) run" where
  "get_page_vars fp =
     page_vars_loop (page_lines fp) NVRAM_ENTRY_TYPE_UNKNOWN create_var_val_pair_plus_array"

definition get_render_page_vars :: "bytes \<Rightarrow> 'z page_scheme \<Rightarrow> (unit, 'z page_scheme) run" where
  "get_render_page_vars fp s =
     sbind (get_page_vars fp s) (\<lambda>a s. Ret () (s\<lparr>render_page_vars := Some a\<rparr>))"

definition get_action_page_vars :: "bytes \<Rightarrow> 'z page_scheme \<Rightarrow> (unit, 'z page_scheme) run" where
  "get_action_page_vars fp s =
     sbind (get_page_vars fp s) (\<lambda>a s. Ret () (s\<lparr>action_page_vars := Some a\<rparr>))"

subsection \<open>Lemmas\<close>

definition word :: "string \<Rightarrow> bool" where
  "word w \<longleftrightarrow> w \<noteq> [] \<and> (\<forall>c\<in>set w. \<not> isspace c) \<and> is_cstr w"

definition tok_chars :: "string \<Rightarrow> bool" where
  "tok_chars w \<longleftrightarrow> (\<forall>c\<in>set w. \<not> isspace c \<and> c \<noteq> NUL)"

lemma word_tok: "word w \<longleftrightarrow> w \<noteq> [] \<and> tok_chars w"
  by (auto simp: word_def tok_chars_def is_cstr_def)

lemma tok_chars_simps:
  "tok_chars []" "tok_chars (c # w) \<longleftrightarrow> \<not> isspace c \<and> c \<noteq> NUL \<and> tok_chars w"
  "tok_chars (v @ w) \<longleftrightarrow> tok_chars v \<and> tok_chars w"
  "\<not> isspace CHR ''@''" "\<not> isspace CHR ''#''" "\<not> isspace CHR '':''" "\<not> isspace CHR '',''"
  by (auto simp: tok_chars_def isspace_def)

lemma tok_chars_show_nat: "tok_chars (show_nat k)"
  using show_nat_digits [of k] isdigit_not_space unfolding tok_chars_def list_all_iff by blast

lemma scan_word_word:
  assumes "word w" "r = [] \<or> isspace (hd r)"
  shows "scan_word (w @ r) = (w, r)"
proof -
  have "dropWhile isspace (w @ r) = w @ r" using assms(1) by (cases w) (auto simp: word_def)
  moreover have "takeWhile (\<lambda>c. \<not> isspace c) (w @ r) = w" "dropWhile (\<lambda>c. \<not> isspace c) (w @ r) = r"
    using assms by (induction w) (auto simp: word_def takeWhile_eq_Nil_iff dropWhile_eq_self_iff)
  ultimately show ?thesis by (simp add: scan_word_def Let_def)
qed

lemma scan_word_space: "scan_word (CHR '' '' # s) = scan_word s"
  by (simp add: scan_word_def isspace_def)

lemma scan_words_line:
  "word a \<Longrightarrow> word b \<Longrightarrow> word c \<Longrightarrow> scan_words (a @ '' '' @ b @ '' '' @ c) = (a, b, c)"
  using scan_word_word [of a "'' '' @ b @ '' '' @ c"] scan_word_word [of b "'' '' @ c"] scan_word_word [of c "[]"]
  by (simp add: scan_words_def scan_word_space isspace_def)

lemma parse_parts_last: "CHR '':'' \<notin> set seg \<Longrightarrow> parse_parts usab seg st = parse_part usab seg [] st"
  by (subst parse_parts.simps) (simp add: Let_def before_id)

lemma parse_parts_more:
  "CHR '':'' \<notin> set seg \<Longrightarrow>
   parse_parts usab (seg @ CHR '':'' # rst) st =
     rbind (parse_part usab seg (rst @ [NUL]) st) (parse_parts usab rst)"
  by (subst parse_parts.simps) (simp add: Let_def before_append)

lemma trim_page_var_plain:
  assumes "n \<noteq> []" "char_at n 0 \<noteq> CHR ''@''" "\<not> is_hidden_page_var n"
  shows "trim_page_var (''@'' @ n @ ''#'') = Ok n"
proof -
  have "\<not> is_hidden_page_var (n @ ''#'')"
    using assms by (cases n; cases "tl n")
      (auto simp: is_hidden_page_var_def strneq_def page_var_hidden_prefix_def PAGE_VAR_HIDDEN_PREFIX_LENGTH_def)
  then show ?thesis using assms(1) by (simp add: trim_page_var_def Let_def char_at_def butlast_append)
qed

subsection \<open>Properties\<close>

text \<open>
  A type that is misspelt in a page description is taken for an (empty) translation list:
  the variable stays a text, gets a translation that maps no value, and its NVRAM variable
  is fetched with the type left over from the line before.
\<close>

theorem unknown_type_becomes_translation:
  assumes "word n" "char_at n 0 \<noteq> CHR ''@''" "\<not> is_hidden_page_var n" "word v" "v \<noteq> ''UNDEFINED''"
    "word t" "length t < 123" "\<forall>c\<in>set t. c \<noteq> CHR '':'' \<and> c \<noteq> CHR '';'' \<and> c \<noteq> CHR ''=''"
    "char_at t 0 \<noteq> CHR ''#''" "char_at t 0 \<noteq> CHR ''@''"
    "t \<notin> {''text'', ''opts'', ''httpoptionlistfromarray'', ''listfromarray'', ''array_entry''}"
  shows "parse_page_line usab nv_type (''@'' @ n @ ''# '' @ v @ '' '' @ t) =
    Ok (set_var_val_pair_plus_translation_vvpa None (create_var_val_pair_plus (Some n) (Some v)), nv_type, True)"
proof -
  have w: "word (''@'' @ n @ ''#'')" using assms(1) by (auto simp: word_def isspace_def)
  have sw: "scan_words (''@'' @ n @ ''# '' @ v @ '' '' @ t) = (''@'' @ n @ ''#'', v, t)"
    using scan_words_line [OF w assms(4,6)] by simp
  have n: "n \<noteq> []" using assms(1) by (simp add: word_def)
  have "t \<noteq> []" "CHR '':'' \<notin> set t" "CHR '';'' \<notin> set t" "CHR ''='' \<notin> set t" "is_cstr t"
    using assms(6,8) by (auto simp: word_def)
  then have "parse_phrases (map (\<lambda>b. b @ []) (strtok_phrases '';'' t)) None = Ok None"
    by (simp add: strtok_last parse_var_equals_val_into_vvpa_def parse_var_def)
  then have "parse_part usab t [] (create_var_val_pair_plus (Some n) (Some v), nv_type, None) =
      Ok (set_var_val_pair_plus_translation_vvpa None (create_var_val_pair_plus (Some n) (Some v)), nv_type, None)"
    using assms(9-11) by (simp add: parse_part_def create_var_val_pair_plus_def)
  with \<open>CHR '':'' \<notin> set t\<close> sw assms(5,7) n trim_page_var_plain [OF n assms(2,3)] show ?thesis
    by (simp add: parse_page_line_def parse_parts_last)
qed

theorem unknown_type_becomes_translation_witness:
  "parse_page_line Suc NVRAM_ENTRY_TYPE_ARRAY ''@port# rules array_enrry'' =
    Ok (set_var_val_pair_plus_translation_vvpa None (create_var_val_pair_plus (Some ''port'') (Some ''rules'')),
        NVRAM_ENTRY_TYPE_ARRAY, True)"
  using unknown_type_becomes_translation [of "''port''" "''rules''" "''array_enrry''" Suc NVRAM_ENTRY_TYPE_ARRAY]
  by (simp add: word_def isspace_def char_at_def is_hidden_page_var_def strneq_def page_var_hidden_prefix_def
      PAGE_VAR_HIDDEN_PREFIX_LENGTH_def)

subsubsection \<open>A description and its log line\<close>

definition nv_type_of :: "vvpp_type \<Rightarrow> nvram_entry_type" where
  "nv_type_of ty = (if ty = VVPP_TYPE_TEXT \<or> ty = VVPP_TYPE_OPTS then NVRAM_ENTRY_TYPE_TEXT else NVRAM_ENTRY_TYPE_ARRAY)"

definition rc_entry :: "string \<Rightarrow> string \<Rightarrow> vvpp_type \<Rightarrow> nat \<Rightarrow> nat \<Rightarrow> var_val_pair_plus" where
  "rc_entry n v ty r c = (create_var_val_pair_plus (Some n) (Some v))
     \<lparr>pp_type := ty, pp_has := VVPP_HAS_RC_INFO, pp_row := int r, pp_column := int c\<rparr>"

lemma strtol10_show_nat_append:
  assumes "int n \<le> 2147483647" "suf = [] \<or> \<not> isdigit (hd suf)"
  shows "strtol10 (show_nat n @ suf) = Some (int n)"
proof -
  obtain d s where ds: "show_nat n = d # s" by (cases "show_nat n") auto
  with show_nat_digits [of n] have "isdigit d" by simp
  then have d: "\<not> isspace d" "d \<noteq> CHR ''-''" "d \<noteq> CHR ''+''" using isdigit_not_space by auto
  have tw: "takeWhile isdigit (show_nat n @ suf) = show_nat n"
  proof -
    have "\<forall>x\<in>set (show_nat n). isdigit x" using show_nat_digits [of n] by (simp add: list_all_iff)
    with assms(2) show ?thesis by (cases suf) (simp_all add: takeWhile_append2)
  qed
  show ?thesis
    using d tw assms(1) show_nat_value [of n] unfolding ds strtol10_def by (simp add: Let_def clamp32_def)
qed

lemma show_nat_head: "\<exists>d s. show_nat n = d # s \<and> isdigit d"
  using show_nat_digits [of n] by (cases "show_nat n") auto

lemma parse_rc_numbers:
  assumes "int r \<le> 2147483647" "int c \<le> 2147483647"
  shows "parse_rc usab (show_nat r @ '','' @ show_nat c) e = Ok (add_var_val_pair_plus_attribute VVPP_HAS_RC_INFO (int r) (int c) e)"
proof -
  let ?p = "show_nat r @ '','' @ show_nat c"
  from show_nat_head [of r] obtain d s where d: "show_nat r = d # s" "isdigit d" by blast
  then have "d \<noteq> CHR ''A''" by (auto simp: isdigit_def)
  then have nr: "\<not> strneq ?p ''ALLR,'' 5" using d by (simp add: strneq_def)
  from show_nat_head [of c] obtain d' s' where d': "show_nat c = d' # s'" "isdigit d'" by blast
  then have "d' \<noteq> CHR ''A''" by (auto simp: isdigit_def)
  then have nc: "\<not> strneq (show_nat c) ''ALLC'' 4" using d' by (simp add: strneq_def)
  have "strtol10 ?p = Some (int r)"
    using assms(1) by (intro strtol10_show_nat_append) (simp_all add: isdigit_def)
  moreover have "CHR '','' \<notin> set (show_nat r)"
    using show_nat_digits [of r] by (auto simp: list_all_iff isdigit_def)
  then have "after_comma ?p = Ok (show_nat c)" by (simp add: after_comma_def strchr_append)
  moreover have "strtol10 (show_nat c) = Some (int c)" using assms(2) by (rule strtol10_show_nat)
  ultimately show ?thesis using nr nc by (simp add: parse_rc_def)
qed

lemma parse_part_type:
  "parse_part usab (type_name ty) rest (e, nt, x) = Ok (set_var_val_pair_plus_type ty e, nv_type_of ty, x)"
  by (cases ty) (simp_all add: parse_part_def type_name_def nv_type_of_def char_at_def)

lemma type_name_word: "word (type_name ty)" "CHR '':'' \<notin> set (type_name ty)" "length (type_name ty) \<le> 23"
  by (cases ty; simp add: type_name_def word_def isspace_def)+

lemma log_rc_entry:
  assumes "vvpp_log_to_file (Some (rc_entry n v ty r c)) ''%s'' = Ok line"
  shows "line = ''@'' @ n @ ''# '' @ v @ '' '' @ type_name ty @ '':#'' @ show_nat r @ '','' @ show_nat c
    \<and> length (show_nat r) < 7 \<and> length (show_nat c) < 7"
proof -
  have "has_flag (rc_entry n v ty r c) VVPP_HAS_RC_INFO"
    "\<not> has_flag (rc_entry n v ty r c) VVPP_HAS_IP_START" "\<not> has_flag (rc_entry n v ty r c) VVPP_HAS_IP_END"
    "\<not> has_flag (rc_entry n v ty r c) VVPP_HAS_TRANSLATE"
    by (simp_all add: has_flag_def rc_entry_def vvpp_has_defs)
  moreover have "pp_var (rc_entry n v ty r c) = Some n" "pp_value (rc_entry n v ty r c) = Some v"
    "pp_type (rc_entry n v ty r c) = ty" "pp_row (rc_entry n v ty r c) = int r" "pp_column (rc_entry n v ty r c) = int c"
    by (simp_all add: rc_entry_def create_var_val_pair_plus_def)
  ultimately show ?thesis
    using assms
    by (auto simp: vvpp_log_to_file_def log_rc_def log_number_def bcat_def null_shown_def rbind_Ok_iff
        VVPP_ALL_ROWS_def VVPP_SELECTED_ROW_def VVPP_ALL_COLUMNS_def show_int_def split: if_splits)
qed

text \<open>
  C14. The log line of a variable with row and column is a description that get_page_vars
  reads back as the same variable, whatever type was in force before.
\<close>

theorem page_line_roundtrip:
  assumes "word n" "char_at n 0 \<noteq> CHR ''@''" "\<not> is_hidden_page_var n" "word v" "v \<noteq> ''UNDEFINED''"
    "int r \<le> 2147483647" "int c \<le> 2147483647"
    "vvpp_log_to_file (Some (rc_entry n v ty r c)) ''%s'' = Ok line"
  shows "parse_page_line usab nv_type line = Ok (rc_entry n v ty r c, nv_type_of ty, True)"
proof -
  let ?rc = "''#'' @ show_nat r @ '','' @ show_nat c"
  let ?t = "type_name ty @ CHR '':'' # ?rc"
  have line: "line = (''@'' @ n @ ''#'') @ '' '' @ v @ '' '' @ ?t"
    and len: "length (show_nat r) < 7" "length (show_nat c) < 7"
    using log_rc_entry [OF assms(8)] by simp_all
  have dig: "CHR '':'' \<notin> set (show_nat k)" for k
  proof
    assume "CHR '':'' \<in> set (show_nat k)"
    with show_nat_digits [of k] have "isdigit CHR '':''" by (simp only: list_all_iff)
    then show False by (simp add: isdigit_def)
  qed
  have tok: "tok_chars ?rc" by (simp add: tok_chars_simps tok_chars_show_nat)
  have w: "word (''@'' @ n @ ''#'')" "word ?t"
    using assms(1) type_name_word(1) [of ty] tok unfolding word_tok by (simp_all add: tok_chars_simps)
  have n: "n \<noteq> []" using assms(1) by (simp add: word_def)
  have "CHR '':'' \<notin> set ?rc" using dig by auto
  then have parts: "parse_parts usab ?t (create_var_val_pair_plus (Some n) (Some v), nv_type, None) =
      Ok (rc_entry n v ty r c, nv_type_of ty, None)"
    using type_name_word(2) [of ty] parse_rc_numbers [OF assms(6,7)]
    by (simp add: parse_parts_more parse_parts_last parse_part_type)
      (simp add: parse_part_def char_at_def set_var_val_pair_plus_type_def rc_entry_def
        add_var_val_pair_plus_attribute_def create_var_val_pair_plus_def VVPP_HAS_NO_EXTRAS_def)
  have "length ?t < 123" using len type_name_word(3) [of ty] by simp
  with parts scan_words_line [OF w(1) assms(4) w(2)] assms(5) n trim_page_var_plain [OF n assms(2,3)]
  show ?thesis unfolding line by (simp add: parse_page_line_def)
qed

theorem page_line_roundtrip_witness:
  "parse_page_line Suc NVRAM_ENTRY_TYPE_TEXT ''@name# hosts array_entry:#0,1'' =
    Ok (rc_entry ''name'' ''hosts'' VVPP_TYPE_ARRAY_ENTRY 0 1, NVRAM_ENTRY_TYPE_ARRAY, True)"
proof -
  have d: "show_nat 0 = ''0''" "show_nat 1 = ''1''"
    by (simp_all add: show_nat.simps digit_char_def, code_simp+)
  have l: "vvpp_log_to_file (Some (rc_entry ''name'' ''hosts'' VVPP_TYPE_ARRAY_ENTRY 0 1)) ''%s'' =
      Ok ''@name# hosts array_entry:#0,1''"
    using d by (simp add: vvpp_log_to_file_def rc_entry_def create_var_val_pair_plus_def has_flag_def vvpp_has_defs
        bcat_def null_shown_def type_name_def log_rc_def log_number_def VVPP_ALL_ROWS_def VVPP_SELECTED_ROW_def
        VVPP_ALL_COLUMNS_def show_int_def)
  show ?thesis
    using page_line_roundtrip [OF _ _ _ _ _ _ _ l, of Suc NVRAM_ENTRY_TYPE_TEXT]
    by (simp add: word_def isspace_def char_at_def is_hidden_page_var_def strneq_def page_var_hidden_prefix_def
        PAGE_VAR_HIDDEN_PREFIX_LENGTH_def nv_type_of_def)
qed

end
