(* ===== verification/Page_Save.thy ===== *)
theory Page_Save
  imports Page_Vars
begin

unbundle bit_operations_syntax

section \<open>Saving and deleting what a form submits\<close>

text \<open>
  \<^verbatim>\<open>save_data\<close> and \<^verbatim>\<open>delete_data\<close>: every POST variable that the page description knows is
  translated, combined with the value in the cache where it is one half of an IP range or
  an address with a port, and put into the cache, which is then written back.
\<close>

subsection \<open>Which entry a variable belongs to\<close>

text \<open>A variable seen before counts again only when it is hidden.\<close>

definition action_entry ::
  "string \<Rightarrow> bool \<Rightarrow> var_val_pair_array option \<Rightarrow> 'z page_scheme \<Rightarrow> var_val_pair_plus option" where
  "action_entry page_var is_hidden vars_so_far s =
     (case find_index_of_var_in_vvppa (action_page_vars s) (Some page_var) of
        None \<Rightarrow> None
      | Some i \<Rightarrow>
          if first_var_occurence_in_vvpa vars_so_far (Some page_var) \<noteq> None \<and> \<not> is_hidden then None
          else (case action_page_vars s of None \<Rightarrow> None | Some a \<Rightarrow> vvpps a ! i))"

text \<open>The value after translation; \<^verbatim>\<open>*\<close> and \<^verbatim>\<open>!\<close> patterns cannot be set.\<close>

definition settable_value :: "var_val_pair_plus \<Rightarrow> cptr \<Rightarrow> cptr" where
  "settable_value e submitted =
     (let nv = (case pp_translate_vvpa e of
                  Some tr \<Rightarrow> find_value_from_var (Some tr) submitted
                | None \<Rightarrow> submitted)
      in case nv of
           None \<Rightarrow> None
         | Some v \<Rightarrow>
             if char_at v 0 = CHR ''*'' \<and> char_at v 1 = NUL then None
             else if char_at v 0 = CHR ''!'' then None
             else Some v)"

text \<open>The row of an array entry: a fixed one, or the one a request variable selects.\<close>

definition selected_row :: "var_val_pair_plus \<Rightarrow> 'z page_scheme \<Rightarrow> int" where
  "selected_row e s =
     (if pp_row e = VVPP_ALL_ROWS \<or> pp_row e = VVPP_SELECTED_ROW then
        (case pp_row_identifier e of
           None \<Rightarrow> 0
         | Some ident \<Rightarrow> (case get_get_or_post_value (Some ident) s of None \<Rightarrow> 0 | Some cp \<Rightarrow> atoi cp))
      else pp_row e)"

definition current_value ::
  "var_val_pair_plus \<Rightarrow> 'z page_scheme \<Rightarrow> (int \<times> int \<times> cptr, 'z page_scheme) run" where
  "current_value e s =
     (case pp_type e of
        VVPP_TYPE_ARRAY_ENTRY \<Rightarrow>
          (let row = selected_row e s; col = pp_column e
           in sbind (get_array_value_from_nvram_cache (pp_value e) row col s) (\<lambda>v s. Ret (row, col, v) s))
      | VVPP_TYPE_TEXT \<Rightarrow> sbind (get_value_from_nvram_cache (pp_value e) s) (\<lambda>v s. Ret (0, 0, v) s)
      | VVPP_TYPE_OPTS \<Rightarrow> sbind (get_value_from_nvram_cache (pp_value e) s) (\<lambda>v s. Ret (0, 0, v) s)
      | _ \<Rightarrow> Ret (0, 0, None) s)"

subsection \<open>Parts of IP values\<close>

text \<open>
  Where the value points to: the request or its translation, one of the local arrays
  \<^verbatim>\<open>no_ip_range\<close> and \<^verbatim>\<open>arbitrary_ip\<close>, the string in the cache, or the array
  \<^verbatim>\<open>new_ip_value\<close> of 32 bytes, into which \<^verbatim>\<open>sprintf\<close> may not print itself.
\<close>

datatype vsrc = Own | Local | Cur | Buf

type_synonym nv_ptr = "(string \<times> vsrc) option"

definition to_buf :: "vsrc \<Rightarrow> string \<Rightarrow> nv_ptr res" where
  "to_buf from t =
     (if from = Buf then Fault Overlap
      else if 32 \<le> length t then Fault Oob_write
      else Ok (Some (t, Buf)))"

definition ip_start :: "cptr \<Rightarrow> nv_ptr \<Rightarrow> nv_ptr res" where
  "ip_start cur nv =
     (case nv of None \<Rightarrow> Fault Null_deref
      | Some (v, src) \<Rightarrow>
          if v = [] then Ok (Some (''0/0'', Local))
          else (case cur of None \<Rightarrow> Ok nv
                | Some c \<Rightarrow> (case strchr c (CHR ''-'') of None \<Rightarrow> Ok nv | Some cp \<Rightarrow> to_buf src (v @ cp))))"

definition ip_end :: "cptr \<Rightarrow> nv_ptr \<Rightarrow> nv_ptr res" where
  "ip_end cur nv =
     (case nv of None \<Rightarrow> Fault Null_deref
      | Some (v, src) \<Rightarrow>
          if v \<noteq> [] then
            (case cur of Some c \<Rightarrow> to_buf src (before c (CHR ''-'') @ ''-'' @ v)
             | None \<Rightarrow> to_buf src (''-'' @ v))
          else Ok (map_option (\<lambda>c. (c, Cur)) cur))"

definition ip_num :: "cptr \<Rightarrow> nv_ptr \<Rightarrow> nv_ptr res" where
  "ip_num cur nv =
     (case nv of None \<Rightarrow> Fault Null_deref
      | Some (v, src) \<Rightarrow>
          if v = [] then Ok (Some (''192.168.1.1'', Local))
          else (case cur of None \<Rightarrow> Ok nv
                | Some c \<Rightarrow> (case strchr c (CHR '':'') of None \<Rightarrow> Ok nv | Some cp \<Rightarrow> to_buf src (v @ cp))))"

definition ip_port :: "cptr \<Rightarrow> nv_ptr \<Rightarrow> nv_ptr res" where
  "ip_port cur nv =
     (case nv of None \<Rightarrow> Fault Null_deref
      | Some (v, src) \<Rightarrow>
          if v \<noteq> [] then
            (case cur of Some c \<Rightarrow> to_buf src (before c (CHR '':'') @ '':'' @ v)
             | None \<Rightarrow> to_buf src ('':'' @ v))
          else (case cur of Some c \<Rightarrow> to_buf Cur (before c (CHR '':'')) | None \<Rightarrow> Ok nv))"

definition ip_value :: "var_val_pair_plus \<Rightarrow> cptr \<Rightarrow> string \<Rightarrow> nv_ptr res" where
  "ip_value e cur v =
     rbind (if has_flag e VVPP_HAS_IP_START then ip_start cur (Some (v, Own)) else Ok (Some (v, Own))) (\<lambda>nv.
     rbind (if has_flag e VVPP_HAS_IP_END then ip_end cur nv else Ok nv) (\<lambda>nv.
     rbind (if has_flag e VVPP_HAS_IP_NUM then ip_num cur nv else Ok nv) (\<lambda>nv.
     if has_flag e VVPP_HAS_IP_PORT then ip_port cur nv else Ok nv)))"

subsection \<open>Lists\<close>

function split_nl :: "string \<Rightarrow> string list" where
  "split_nl s =
     (let l = before s (CHR 0x0A)
      in case drop (length l) s of [] \<Rightarrow> [l] | _ # r \<Rightarrow> l # split_nl r)"
  by pat_completeness auto
termination
proof (relation "measure length")
  fix s x :: string and x21 x22
  assume "drop (length x) s = x21 # x22"
  then have "length (x21 # x22) \<le> length s" by (metis diff_le_self length_drop)
  then show "(x22, s) \<in> measure length" by simp
qed simp

declare split_nl.simps [simp del]

definition strip_cr :: "string \<Rightarrow> string" where
  "strip_cr l = (if l \<noteq> [] \<and> last l = CHR 0x0D then butlast l else l)"

fun set_rows ::
  "cptr \<Rightarrow> int \<Rightarrow> string list \<Rightarrow> 'z nvcache_scheme \<Rightarrow> (int, 'z nvcache_scheme) run" where
  "set_rows name row [] s = Ret row s"
| "set_rows name row (l # ls) s =
     sbind (set_array_value_in_nvram_cache name row 0 (Some (strip_cr l)) s) (\<lambda>_ s. set_rows name (row + 1) ls s)"

text \<open>
  The look at the character before the end of a line falls in front of the value when its
  first line is empty.
\<close>

definition save_list :: "cptr \<Rightarrow> string \<Rightarrow> 'z page_scheme \<Rightarrow> (unit, 'z page_scheme) run" where
  "save_list name v s =
     (if v \<noteq> [] \<and> hd (split_nl v) = [] then Halt (Crash Oob_read) s
      else sbind (set_rows name 0 (if v = [] then [] else split_nl v) s) (\<lambda>row s.
        clear_array_rows_this_and_above_in_nvram_cache name row s))"

text \<open>
  The carriage return at the very end of the list is removed in the place it was read from:
  the request variable, or the entry of the translation list of the page variable.
\<close>

definition strip_value :: "nat \<Rightarrow> var_val_pair_array \<Rightarrow> var_val_pair_array" where
  "strip_value i a =
     a\<lparr>vvps := (vvps a)[i := map_option (\<lambda>p. vvp_update_value (map_option strip_cr (vp_value p)) p) (vvps a ! i)]\<rparr>"

definition drop_last_cr ::
  "nat \<Rightarrow> string \<Rightarrow> cptr \<Rightarrow> var_val_pair_plus \<Rightarrow> 'z page_scheme \<Rightarrow> 'z page_scheme" where
  "drop_last_cr i page_var submitted e s =
     (case pp_translate_vvpa e of
        None \<Rightarrow> s\<lparr>post_data_vvpa := map_option (strip_value i) (post_data_vvpa s)\<rparr>
      | Some tr \<Rightarrow>
          (case (find_index_of_var_in_vvppa (action_page_vars s) (Some page_var), find_index_of_var_in_vvpa (Some tr) submitted) of
             (Some k, Some j) \<Rightarrow>
               s\<lparr>action_page_vars := map_option (\<lambda>a. a\<lparr>vvpps := (vvpps a)[k := Some (e\<lparr>pp_translate_vvpa := Some (strip_value j tr)\<rparr>)]\<rparr>)
                   (action_page_vars s)\<rparr>
           | _ \<Rightarrow> s))"

subsection \<open>Storing\<close>

text \<open>
  Setting a text to the string of the cache itself reads it after it has been freed. The
  result is the value that is remembered for the variable when it is handled. A list in the
  array \<^verbatim>\<open>new_ip_value\<close> or a local constant loses its last carriage return there.
\<close>

definition store_value ::
  "nat \<Rightarrow> string \<Rightarrow> cptr \<Rightarrow> var_val_pair_plus \<Rightarrow> int \<Rightarrow> int \<Rightarrow> string \<times> vsrc \<Rightarrow> 'z page_scheme
   \<Rightarrow> (cptr, 'z page_scheme) run" where
  "store_value i page_var submitted e row col nv s =
     (let (v, src) = nv;
          set_text = (if src = Cur then Halt (Crash Use_after_free) s
                      else sbind (set_value_in_nvram_cache (pp_value e) (Some v) s) (\<lambda>_ s. Ret (Some v) s))
      in case pp_type e of
           VVPP_TYPE_TEXT \<Rightarrow> set_text
         | VVPP_TYPE_OPTS \<Rightarrow> set_text
         | VVPP_TYPE_ARRAY_ENTRY \<Rightarrow>
             sbind (set_array_value_in_nvram_cache (pp_value e) row col (Some v) s) (\<lambda>_ s. Ret (Some v) s)
         | VVPP_TYPE_LIST \<Rightarrow>
             sbind (save_list (pp_value e) v s) (\<lambda>_ s.
               Ret (Some (strip_cr v)) (if src = Own then drop_last_cr i page_var submitted e s else s))
         | VVPP_TYPE_OPTION_LIST \<Rightarrow> Ret None s)"

definition save_one ::
  "nat \<Rightarrow> var_val_pair \<Rightarrow> var_val_pair_array option \<Rightarrow> 'z page_scheme
   \<Rightarrow> (var_val_pair_array option, 'z page_scheme) run" where
  "save_one i vvp vars_so_far s =
     (case vp_var vvp of
        None \<Rightarrow> Halt (Crash Null_deref) s
      | Some n \<Rightarrow>
          let is_hidden = is_hidden_page_var n;
              page_var = (if is_hidden then drop PAGE_VAR_HIDDEN_PREFIX_LENGTH n else n)
          in case action_entry page_var is_hidden vars_so_far s of
               None \<Rightarrow> Ret vars_so_far s
             | Some e \<Rightarrow>
                 (case settable_value e (vp_value vvp) of
                    None \<Rightarrow> Ret vars_so_far s
                  | Some v \<Rightarrow>
                      sbind (current_value e s) (\<lambda>(row, col, cur) s.
                      sbind (lift (ip_value e cur v) s) (\<lambda>nv s.
                        case nv of
                          None \<Rightarrow> Ret vars_so_far s
                        | Some nv \<Rightarrow>
                            sbind (store_value i page_var (vp_value vvp) e row col nv s) (\<lambda>handled s.
                              Ret (case handled of
                                     Some v \<Rightarrow> Some (addto_var_val_pair_array vars_so_far (Some page_var) (Some v))
                                   | None \<Rightarrow> vars_so_far) s)))))"

fun save_loop ::
  "nat list \<Rightarrow> var_val_pair_array option \<Rightarrow> 'z page_scheme \<Rightarrow> (unit, 'z page_scheme) run" where
  "save_loop [] vars_so_far s = Ret () s"
| "save_loop (i # is) vars_so_far s =
     (case post_data_vvpa s of
        None \<Rightarrow> Halt (Crash Null_deref) s
      | Some a \<Rightarrow>
          (case vvps a ! i of
             None \<Rightarrow> Halt (Crash Uninit_read) s
           | Some vvp \<Rightarrow> sbind (save_one i vvp vars_so_far s) (\<lambda>vars_so_far s. save_loop is vars_so_far s)))"

definition save_data :: "'z page_scheme \<Rightarrow> (unit, 'z page_scheme) run" where
  "save_data s =
     (case post_data_vvpa s of
        None \<Rightarrow> Halt (Crash Null_deref) s
      | Some a \<Rightarrow>
          sbind (save_loop [0..<num_used a] None s) (\<lambda>_ s. sync_nvram_cache_back_to_nvram s))"

definition delete_data :: "'z page_scheme \<Rightarrow> (bool, 'z page_scheme) run" where
  "delete_data s =
     (case find_index_of_var_in_vvppa (action_page_vars s) (Some ''TODO_ACTION_DELETE'') of
        None \<Rightarrow> Ret False s
      | Some i \<Rightarrow>
          (case (case action_page_vars s of None \<Rightarrow> None | Some a \<Rightarrow> vvpps a ! i) of
             None \<Rightarrow> Ret False s
           | Some e \<Rightarrow>
               (case (pp_value e, pp_row_identifier e) of
                  (Some array_name, Some row_identifier) \<Rightarrow>
                    (case get_get_or_post_value (Some row_identifier) s of
                       None \<Rightarrow> Ret False s
                     | Some cp \<Rightarrow>
                         sbind (remove_row_from_array_in_nvram_cache (Some array_name) (atoi cp) s) (\<lambda>_ s.
                         sbind (sync_nvram_cache_back_to_nvram s) (\<lambda>_ s. Ret True s)))
                | _ \<Rightarrow> Ret False s)))"

subsection \<open>Lemmas\<close>

lemma want_cached:
  assumes "nc s = Some c" "cache_ok c" "k < nc_num_used c" "ce_name (nc_list c ! k) = name" "name \<noteq> []"
  shows "nvram_cache_want_variable (Some name) s = Ret (Some k) s" "entry_at k s = Some (nc_list c ! k)"
proof -
  have inv: "nc_inv c" and d: "distinct (map ce_name (nc_list c))" using assms(2) by (simp_all add: cache_ok_def)
  have k: "k < length (nc_list c)" by (rule nc_nth(3) [OF inv assms(3)])
  have "first_index (\<lambda>e. ce_name e = name) (nc_list c) = Some k"
  proof (cases "first_index (\<lambda>e. ce_name e = name) (nc_list c)")
    case None
    with k assms(4) show ?thesis by (auto simp: first_index_None_iff)
  next
    case (Some j)
    from first_index_SomeD [OF this] assms(4) k d have "j = k"
      by (metis length_map nth_eq_iff_index_eq nth_map)
    with Some show ?thesis by simp
  qed
  moreover have "cache_of s = c" using assms(1) by (simp add: cache_of_def)
  ultimately show "nvram_cache_want_variable (Some name) s = Ret (Some k) s"
    using assms(1,5) by (simp add: nvram_cache_want_variable_def Let_def create_nvram_cache_def find_entry_list [OF inv])
  show "entry_at k s = Some (nc_list c ! k)" using nc_nth [OF inv assms(3)] assms(1) by (simp add: entry_at_def)
qed

lemma create_nvram_cache_id: "nc s = Some c \<Longrightarrow> create_nvram_cache s = s"
  by (simp add: create_nvram_cache_def)

lemma cached_text_get_set:
  assumes "nc s = Some c" "cache_ok c" "k < nc_num_used c" "ce_name (nc_list c ! k) = name" "name \<noteq> []"
    "ce_type (nc_list c ! k) = NVRAM_ENTRY_TYPE_TEXT"
  shows "get_value_from_nvram_cache (Some name) s = Ret (ce_value (nc_list c ! k)) s"
    "set_value_in_nvram_cache (Some name) (Some x) s =
       Ret () (put_entry k ((nc_list c ! k)\<lparr>ce_value := Some x, ce_changed := True\<rparr>) s)"
  using want_cached [OF assms(1-5)] assms(6)
  by (simp_all add: get_value_from_nvram_cache_def set_value_in_nvram_cache_def with_entry_def
      create_nvram_cache_id [OF assms(1)])

text \<open>Replacing an entry by a changed one adds its text to the pending changes.\<close>

lemma pending_update:
  assumes "distinct (map ce_name l)" "k < length l" "ce_name e = ce_name (l ! k)" "ce_changed e" "entry_text e = Some x"
  shows "map_of (pending (l[k := e])) = (map_of (pending l))(ce_name e \<mapsto> x)"
  using assms
proof (induction l arbitrary: k)
  case (Cons d l)
  show ?case
  proof (cases k)
    case 0
    with Cons.prems show ?thesis by (auto simp: pending_def)
  next
    case (Suc j)
    then have "ce_name e \<in> ce_name ` set l" using Cons.prems by simp
    then have "ce_name e \<noteq> ce_name d" using Cons.prems(1) by auto
    moreover have "map_of (pending (l[j := e])) = (map_of (pending l))(ce_name e \<mapsto> x)"
      using Cons.prems Suc by (intro Cons.IH) simp_all
    ultimately show ?thesis using Suc by (auto simp: pending_def fun_eq_iff)
  qed
qed simp

lemma pending_distinct: "distinct (map ce_name l) \<Longrightarrow> map_of (rev (pending l)) = map_of (pending l)"
  by (subst map_of_inject_set) (simp_all add: pending_def comp_def distinct_map_filter rev_map [symmetric])

text \<open>A page variable that stands for a text, without translation or IP part.\<close>

definition text_entry :: "var_val_pair_plus \<Rightarrow> string \<Rightarrow> bool" where
  "text_entry e nv \<longleftrightarrow> pp_type e = VVPP_TYPE_TEXT \<and> pp_has e = VVPP_HAS_NO_EXTRAS
     \<and> pp_translate_vvpa e = None \<and> pp_value e = Some nv"

lemma ip_value_text: "text_entry e nv \<Longrightarrow> ip_value e cur v = Ok (Some (v, Own))"
  by (simp add: text_entry_def ip_value_def has_flag_def VVPP_HAS_NO_EXTRAS_def)

text \<open>A text that can be submitted: the patterns \<^verbatim>\<open>*\<close> and \<^verbatim>\<open>!\<close> are not values.\<close>

definition plain_text :: "string \<Rightarrow> bool" where
  "plain_text x \<longleftrightarrow> is_cstr x \<and> x \<noteq> ''*'' \<and> char_at x 0 \<noteq> CHR ''!''"

lemma settable_untranslated: "pp_translate_vvpa e = None \<Longrightarrow> plain_text x \<Longrightarrow> settable_value e (Some x) = Some x"
proof -
  assume e: "pp_translate_vvpa e = None" and x: "plain_text x"
  have "x = ''*''" if a: "char_at x 0 = CHR ''*''" "char_at x 1 = NUL"
  proof -
    from a obtain r where r: "x = CHR ''*'' # r" by (cases x) (auto simp: char_at_def)
    with a x have "r = []" by (cases r) (auto simp: char_at_def plain_text_def)
    with r show ?thesis by simp
  qed
  with e x show ?thesis by (auto simp: settable_value_def plain_text_def Let_def)
qed

lemma settable_plain: "text_entry e nv \<Longrightarrow> plain_text x \<Longrightarrow> settable_value e (Some x) = Some x"
  by (simp add: settable_untranslated text_entry_def)

text \<open>The variables remembered as handled.\<close>

definition vars_ok :: "var_val_pair_array option \<Rightarrow> bool" where
  "vars_ok v \<longleftrightarrow> (case v of None \<Rightarrow> True | Some a \<Rightarrow> vvpa_inv a)"

lemma vars_ok_None [simp]: "vars_ok None"
  by (simp add: vars_ok_def)

lemma handled_addto:
  assumes "vars_ok v"
  shows "vars_ok (Some (addto_var_val_pair_array v (Some n) x))"
    "first_var_occurence_in_vvpa (Some (addto_var_val_pair_array v (Some n) x)) (Some m) = None
      \<longleftrightarrow> first_var_occurence_in_vvpa v (Some m) = None \<and> m \<noteq> n"
proof -
  define a where "a = (case v of None \<Rightarrow> create_var_val_pair_array | Some a \<Rightarrow> a)"
  have a: "vvpa_inv a" using assms by (simp add: a_def vars_ok_def split: option.splits)
  have v: "first_var_occurence_in_vvpa v (Some m) = first_var_occurence_in_vvpa (Some a) (Some m)"
    by (simp add: a_def first_var_occurence_in_vvpa_def create_var_val_pair_array_def split: option.split)
  have add: "addto_var_val_pair_array v (Some n) x = vvpa_push (create_var_val_pair (Some n) x) a"
    by (simp add: addto_var_val_pair_array_def a_def)
  obtain p where p: "create_var_val_pair (Some n) x = p" "vp_var p = Some n" by (simp add: create_var_val_pair_def)
  note push = vvpa.invar_add [OF a, of p] vvpa.elems_add [OF a, of p]
  show "vars_ok (Some (addto_var_val_pair_array v (Some n) x))" using push(1) by (simp add: vars_ok_def add p)
  show "first_var_occurence_in_vvpa (Some (addto_var_val_pair_array v (Some n) x)) (Some m) = None
      \<longleftrightarrow> first_var_occurence_in_vvpa v (Some m) = None \<and> m \<noteq> n"
    unfolding v add p(1)
    by (auto simp: first_var_occurence_in_vvpa_def vvpa_slots [OF push(1)] vvpa_slots [OF a] push(2)
        first_index_None_iff has_var_def p(2))
qed

text \<open>
  The state while a form is saved: the cache keeps its invariant and its changed entries can
  be written. A field is a page variable for a text variable that has been read into the
  cache; a POST variable that the page description does not know is not one.
\<close>

definition saving :: "'z page_scheme \<Rightarrow> bool" where
  "saving s \<longleftrightarrow> nc s \<noteq> None \<and> cached s \<and> (\<forall>e\<in>set (nc_list (cache_of s)). ce_changed e \<longrightarrow> savable e)"

definition changes :: "'z page_scheme \<Rightarrow> string \<Rightarrow> string option" where
  "changes s = map_of (pending (nc_list (cache_of s)))"

lemma saving_put:
  assumes s: "saving s" and k: "k < length (nc_list (cache_of s))" "ce_name e = ce_name (nc_list (cache_of s) ! k)"
    and e: "savable e" "ce_changed e" "entry_text e = Some x"
  shows "saving (put_entry k e s) \<and> changes (put_entry k e s) = (changes s)(ce_name e \<mapsto> x)
    \<and> nc_list (cache_of (put_entry k e s)) = (nc_list (cache_of s))[k := e]"
proof -
  let ?c = "cache_of s"
  have nc: "nc s \<noteq> None" and ok: "cache_ok ?c" and sv: "\<forall>e\<in>set (nc_list ?c). ce_changed e \<longrightarrow> savable e"
    using s by (simp_all add: saving_def cached_def)
  have inv: "nc_inv ?c" and d: "distinct (map ce_name (nc_list ?c))" using ok by (simp_all add: cache_ok_def)
  have ku: "k < nc_num_used ?c" using k(1) nvc.used_elems [OF inv] by simp
  have t: "cache_of (put_entry k e s) = upd_entry k e ?c" "nc_list (upd_entry k e ?c) = (nc_list ?c)[k := e]"
    using nc nc_list_upd [OF inv ku] by (simp_all add: cache_of_put)
  have "entry_inv e" using e(1) by (simp add: savable_def)
  then have "saving (put_entry k e s)"
    using cache_ok_upd [OF ok ku _ k(2)] nc sv e(1) t
    by (auto simp: saving_def cached_def put_entry_def dest!: set_update_subset_insert [THEN subsetD])
  with t pending_update [OF d k e(2,3)] show ?thesis by (simp add: changes_def)
qed

text \<open>What a variable reads as once the cache has been written back.\<close>

definition read_back :: "'z page_scheme \<Rightarrow> string list \<Rightarrow> string list \<Rightarrow> string \<Rightarrow> cptr" where
  "read_back s es ds name =
     (case changes s name of Some x \<Rightarrow> hide_deleted x | None \<Rightarrow> get_spec es ds name)"

lemma ready_reads: "nv_ready es ds s \<Longrightarrow> nv_okk name \<Longrightarrow> \<exists>u. nvram_get name s = Ret (get_spec es ds name) u"
  using nvram_get_spec by blast

lemma more_is_exec: "nvcache.more t = nvcache.more s \<Longrightarrow> is_exec t = is_exec s"
  by (cases t, cases s) simp

lemma sync_saving:
  assumes "nv_ready es ds s" "can_write s NVRAM_PATH" "saving s"
  obtains t es' where "sync_nvram_cache_back_to_nvram s = Ret () t" "nv_ready es' ds t" "nvcache.more t = nvcache.more s"
    "\<And>name. nv_okk name \<Longrightarrow> get_spec es' ds name = read_back s es ds name"
proof -
  from assms(3) obtain c where c: "nc s = Some c" "cache_of s = c" "cache_ok c"
    and sv: "\<forall>e\<in>set (nc_list c). ce_changed e \<longrightarrow> savable e"
    by (auto simp: saving_def cached_def cache_of_def)
  have inv: "nc_inv c" and d: "distinct (map ce_name (nc_list c))" using c(3) by (simp_all add: cache_ok_def)
  from sync_back_spec [OF assms(1) c(1) inv _ assms(2)] sv obtain t where
    t: "sync_nvram_cache_back_to_nvram s = Ret () t" "nv_ready (nvs.updates (pending (nc_list c)) es) ds t"
      "nvcache.more t = nvcache.more s" by metis
  have "get_spec (nvs.updates (pending (nc_list c)) es) ds name = read_back s es ds name" if "nv_okk name" for name
    using get_spec_pending [OF assms(1) sv that] pending_distinct [OF d] c(2) by (simp add: changes_def read_back_def)
  with t show thesis by (rule that)
qed

definition is_field :: "'z page_scheme \<Rightarrow> string \<Rightarrow> string \<Rightarrow> bool" where
  "is_field s n nv \<longleftrightarrow> nv \<noteq> [] \<and> nv_okk nv \<and> \<not> is_hidden_page_var n
     \<and> (case find_index_of_var_in_vvppa (action_page_vars s) (Some n) of None \<Rightarrow> False
        | Some i \<Rightarrow> (case vvpps (the (action_page_vars s)) ! i of None \<Rightarrow> False | Some e \<Rightarrow> text_entry e nv))
     \<and> (\<exists>e\<in>set (nc_list (cache_of s)). ce_name e = nv \<and> ce_type e = NVRAM_ENTRY_TYPE_TEXT)"

definition is_unknown :: "'z page_scheme \<Rightarrow> string \<Rightarrow> bool" where
  "is_unknown s n \<longleftrightarrow> \<not> is_hidden_page_var n \<and> find_index_of_var_in_vvppa (action_page_vars s) (Some n) = None"

lemma save_one_unknown: "is_unknown s n \<Longrightarrow> save_one j (pair_of (n, x)) v s = Ret v s"
  by (simp add: is_unknown_def save_one_def pair_of_def create_var_val_pair_def action_entry_def Let_def)

lemma find_vvppa_None: "find_index_of_var_in_vvppa None v = None"
  by (simp add: find_index_of_var_in_vvppa_def split: option.split)

text \<open>A page variable for a text of the NVRAM, with or without an IP part, and the entry that describes it.\<close>

definition text_field :: "'z page_scheme \<Rightarrow> string \<Rightarrow> var_val_pair_plus \<Rightarrow> string \<Rightarrow> bool" where
  "text_field s n e nv \<longleftrightarrow> nv \<noteq> [] \<and> nv_okk nv \<and> \<not> is_hidden_page_var n
     \<and> (\<exists>pa i. action_page_vars s = Some pa \<and> find_index_of_var_in_vvppa (Some pa) (Some n) = Some i \<and> vvpps pa ! i = Some e)
     \<and> pp_type e = VVPP_TYPE_TEXT \<and> pp_translate_vvpa e = None \<and> pp_value e = Some nv"

lemma is_field_text: "is_field s n nv \<Longrightarrow> \<exists>e. text_field s n e nv \<and> text_entry e nv"
  by (cases "action_page_vars s")
    (auto simp: is_field_def text_field_def text_entry_def find_vvppa_None split: option.splits)

lemma save_one_text:
  assumes s: "nc s = Some c" "cache_ok c" "k < nc_num_used c" "ce_name (nc_list c ! k) = nv"
      "ce_type (nc_list c ! k) = NVRAM_ENTRY_TYPE_TEXT"
    and f: "text_field s n e nv" "settable_value e (Some x) = Some x" "first_var_occurence_in_vvpa v (Some n) = None"
      "ip_value e (ce_value (nc_list c ! k)) x = Ok (Some (y, src))" "src \<noteq> Cur"
  shows "save_one j (pair_of (n, x)) v s =
    Ret (Some (addto_var_val_pair_array v (Some n) (Some y)))
      (put_entry k ((nc_list c ! k)\<lparr>ce_value := Some y, ce_changed := True\<rparr>) s)"
proof -
  have nv: "nv \<noteq> []" "\<not> is_hidden_page_var n" using f(1) by (simp_all add: text_field_def)
  note get_set = cached_text_get_set [OF s(1-4) nv(1) s(5)]
  have "action_entry n False v s = Some e" using f(1,3) by (auto simp: action_entry_def text_field_def)
  moreover have "current_value e s = Ret (0, 0, ce_value (nc_list c ! k)) s"
    using get_set(1) f(1) by (simp add: current_value_def text_field_def)
  moreover have "store_value j n (Some x) e 0 0 (y, src) s =
      Ret (Some y) (put_entry k ((nc_list c ! k)\<lparr>ce_value := Some y, ce_changed := True\<rparr>) s)"
    using get_set(2) f(1,5) by (simp add: store_value_def text_field_def)
  ultimately show ?thesis
    using nv(2) f(2,4) by (simp add: save_one_def pair_of_def create_var_val_pair_def Let_def)
qed

text \<open>Saving one field changes one entry of the cache and nothing else.\<close>

definition same_form :: "'z page_scheme \<Rightarrow> 'z page_scheme \<Rightarrow> bool" where
  "same_form s t \<longleftrightarrow> (\<exists>d. t = s\<lparr>nc := d\<rparr>) \<and>
     (\<lambda>e. (ce_name e, ce_type e)) ` set (nc_list (cache_of t)) = (\<lambda>e. (ce_name e, ce_type e)) ` set (nc_list (cache_of s))"

lemma same_form_refl: "same_form s s"
  unfolding same_form_def by (intro conjI exI [of _ "nc s"]) simp_all

lemma same_form_trans: "same_form s t \<Longrightarrow> same_form t u \<Longrightarrow> same_form s u"
  unfolding same_form_def by (elim conjE exE) (simp, metis)

lemma same_form_vars:
  "same_form s t \<Longrightarrow> action_page_vars t = action_page_vars s \<and> post_data_vvpa t = post_data_vvpa s"
  by (auto simp: same_form_def)

lemma same_form_env:
  "same_form s t \<Longrightarrow> nv_ready es ds t = nv_ready es ds s \<and> can_write t = can_write s"
  by (auto simp: same_form_def nv_ready_def env_ok_def stores_def)

lemma same_form_field: "same_form s t \<Longrightarrow> is_field t n nv = is_field s n nv"
proof -
  assume st: "same_form s t"
  have i: "(\<exists>e\<in>set l. ce_name e = nv \<and> ce_type e = ty) \<longleftrightarrow> (nv, ty) \<in> (\<lambda>e. (ce_name e, ce_type e)) ` set l"
    for l ty by force
  have a: "action_page_vars t = action_page_vars s" using same_form_vars [OF st] by simp
  have im: "(\<lambda>e. (ce_name e, ce_type e)) ` set (nc_list (cache_of t)) = (\<lambda>e. (ce_name e, ce_type e)) ` set (nc_list (cache_of s))"
    using st by (simp only: same_form_def)
  show ?thesis by (simp only: is_field_def i a im)
qed

lemma same_form_unknown: "same_form s t \<Longrightarrow> is_unknown t n = is_unknown s n"
  by (drule same_form_vars) (simp add: is_unknown_def)

lemma save_text_step:
  assumes s: "saving s" and d: "d \<in> set (nc_list (cache_of s))" "ce_name d = nv" "ce_type d = NVRAM_ENTRY_TYPE_TEXT"
    and f: "text_field s n e nv" "settable_value e (Some x) = Some x" "first_var_occurence_in_vvpa v (Some n) = None"
      "ip_value e (ce_value d) x = Ok (Some (y, src))" "src \<noteq> Cur" "is_cstr y"
  obtains t where "save_one j (pair_of (n, x)) v s = Ret (Some (addto_var_val_pair_array v (Some n) (Some y))) t"
    "saving t" "changes t = (changes s)(nv \<mapsto> y)" "same_form s t"
proof -
  from s obtain c where c: "nc s = Some c" and co: "cache_of s = c" and ok: "cache_ok c"
    by (auto simp: saving_def cached_def cache_of_def)
  from d(1) co obtain k where k: "k < length (nc_list c)" "nc_list c ! k = d" by (auto simp: in_set_conv_nth)
  then have ku: "k < nc_num_used c" using ok nvc.used_elems by (auto simp: cache_ok_def)
  define g where "g = d\<lparr>ce_value := Some y, ce_changed := True\<rparr>"
  have g: "entry_inv g" "ce_name g = nv" "ce_changed g" "entry_text g = Some y" "ce_type g = ce_type d"
    using ok d co value_change_inv by (auto simp: g_def cache_ok_def entry_text_def)
  then have se: "savable g" using f(1,6) by (simp add: savable_def text_field_def)
  let ?t = "put_entry k g s" and ?h = "\<lambda>e. (ce_name e, ce_type e)"
  have t: "saving ?t" "changes ?t = (changes s)(nv \<mapsto> y)" "nc_list (cache_of ?t) = (nc_list c)[k := g]"
    using saving_put [OF s, of k g y] k d(2) co g se by auto
  have "map ?h ((nc_list c)[k := g]) = map ?h (nc_list c)"
    using k d(2) g(2,5) by (simp add: map_update list_update_same_conv)
  then have "?h ` set ((nc_list c)[k := g]) = ?h ` set (nc_list c)" by (metis image_set)
  then have "same_form s ?t" unfolding same_form_def t(3) co by (auto simp: put_entry_def)
  moreover have "save_one j (pair_of (n, x)) v s = Ret (Some (addto_var_val_pair_array v (Some n) (Some y))) ?t"
    using save_one_text [OF c ok ku _ _ f(1-3) _ f(5)] d(2,3) f(4) k(2) by (simp add: g_def)
  ultimately show thesis using t that [of ?t] by simp
qed

lemma save_field_step:
  assumes s: "saving s" and f: "is_field s n nv" "plain_text x" "first_var_occurence_in_vvpa v (Some n) = None"
  obtains t where "save_one j (pair_of (n, x)) v s = Ret (Some (addto_var_val_pair_array v (Some n) (Some x))) t"
    "saving t" "changes t = (changes s)(nv \<mapsto> x)" "same_form s t"
proof -
  from is_field_text [OF f(1)] obtain e where e: "text_field s n e nv" "text_entry e nv" by blast
  from f(1) obtain d where d: "d \<in> set (nc_list (cache_of s))" "ce_name d = nv" "ce_type d = NVRAM_ENTRY_TYPE_TEXT"
    by (auto simp: is_field_def)
  have "is_cstr x" using f(2) by (simp add: plain_text_def)
  with save_text_step [OF s d e(1) settable_plain [OF e(2) f(2)] f(3) ip_value_text [OF e(2)], of j] that
  show thesis by blast
qed

text \<open>What the fields of a form are saved as: the NVRAM variables with the submitted values.\<close>

definition form_changes :: "(string \<Rightarrow> string option) \<Rightarrow> (string \<times> string) list \<Rightarrow> (string \<times> string) list" where
  "form_changes tgt ps = concat (map (\<lambda>(n, x). case tgt n of None \<Rightarrow> [] | Some nv \<Rightarrow> [(nv, x)]) ps)"

definition form_ok :: "'z page_scheme \<Rightarrow> (string \<Rightarrow> string option) \<Rightarrow> (string \<times> string) list \<Rightarrow> bool" where
  "form_ok s tgt ps \<longleftrightarrow> distinct (map fst (form_changes tgt ps))
     \<and> list_all (\<lambda>(n, x). case tgt n of None \<Rightarrow> is_unknown s n | Some nv \<Rightarrow> is_field s n nv \<and> plain_text x) ps"

lemma form_ok_same: assumes "same_form s t" shows "form_ok t tgt ps = form_ok s tgt ps"
  unfolding form_ok_def same_form_field [OF assms] same_form_unknown [OF assms] by (rule refl)

lemma form_changes_mem: "(n, x) \<in> set ps \<Longrightarrow> tgt n = Some nv \<Longrightarrow> (nv, x) \<in> set (form_changes tgt ps)"
  by (force simp: form_changes_def)

lemma save_loop_form:
  assumes "saving s" "form_ok s tgt ps" "vars_ok v" "post_data_vvpa s = Some a"
    "\<And>i. i < length ps \<Longrightarrow> vvps a ! (m + i) = Some (pair_of (ps ! i))"
    "\<And>n x. (n, x) \<in> set ps \<Longrightarrow> tgt n \<noteq> None \<Longrightarrow> first_var_occurence_in_vvpa v (Some n) = None"
  shows "\<exists>t. save_loop [m..<m + length ps] v s = Ret () t \<and> saving t \<and> same_form s t
    \<and> changes t = changes s ++ map_of (form_changes tgt ps)"
  using assms
proof (induction ps arbitrary: m v s)
  case Nil
  then show ?case by (simp add: form_changes_def same_form_refl)
next
  case (Cons p ps)
  obtain n x where p: "p = (n, x)" by (cases p)
  have slot: "vvps a ! m = Some (pair_of (n, x))" using Cons.prems(5) [of 0] p by simp
  have slots: "\<And>i. i < length ps \<Longrightarrow> vvps a ! (Suc m + i) = Some (pair_of (ps ! i))"
    using Cons.prems(5) [of "Suc i" for i] by simp
  have upt: "[m..<m + length (p # ps)] = m # [Suc m..<Suc m + length ps]"
    using upt_conv_Cons [of m "m + length (p # ps)"] by (simp del: upt_Suc)
  have tail: "form_ok s tgt ps" using Cons.prems(2) by (auto simp: form_ok_def form_changes_def)
  show ?case
  proof (cases "tgt n")
    case None
    then have "is_unknown s n" using Cons.prems(2) p by (simp add: form_ok_def)
    moreover have "form_changes tgt (p # ps) = form_changes tgt ps" using None p by (simp add: form_changes_def)
    moreover from Cons.IH [OF Cons.prems(1) tail Cons.prems(3,4) slots] Cons.prems(6)
    obtain t where "save_loop [Suc m..<Suc m + length ps] v s = Ret () t" "saving t" "same_form s t"
      "changes t = changes s ++ map_of (form_changes tgt ps)" by auto
    ultimately show ?thesis unfolding upt using Cons.prems(4) slot by (simp add: save_one_unknown)
  next
    case (Some nv)
    then have f: "is_field s n nv" "plain_text x" and fc: "form_changes tgt (p # ps) = (nv, x) # form_changes tgt ps"
      and new: "nv \<notin> fst ` set (form_changes tgt ps)"
      using Cons.prems(2) p by (auto simp: form_ok_def form_changes_def)
    have "first_var_occurence_in_vvpa v (Some n) = None" using Cons.prems(6) [of n x] p Some by simp
    from save_field_step [OF Cons.prems(1) f this, of m] obtain u where
      u: "save_one m (pair_of (n, x)) v s = Ret (Some (addto_var_val_pair_array v (Some n) (Some x))) u"
        "saving u" "changes u = (changes s)(nv \<mapsto> x)" "same_form s u" .
    let ?v = "Some (addto_var_val_pair_array v (Some n) (Some x))"
    have fresh: "first_var_occurence_in_vvpa ?v (Some n') = None" if "(n', x') \<in> set ps" "tgt n' \<noteq> None" for n' x'
    proof -
      have "n' \<noteq> n" using that form_changes_mem [OF that(1)] new Some by force
      with that Cons.prems(6) [of n' x'] show ?thesis by (simp add: handled_addto [OF Cons.prems(3)])
    qed
    have u': "form_ok u tgt ps" "post_data_vvpa u = Some a"
      using tail Cons.prems(4) form_ok_same [OF u(4)] same_form_vars [OF u(4)] by auto
    have "\<exists>t. save_loop [Suc m..<Suc m + length ps] ?v u = Ret () t \<and> saving t \<and> same_form u t
        \<and> changes t = changes u ++ map_of (form_changes tgt ps)"
      by (rule Cons.IH [OF u(2) u'(1) handled_addto(1) [OF Cons.prems(3)] u'(2) slots]) (assumption, rule fresh)
    then obtain t where t: "save_loop [Suc m..<Suc m + length ps] ?v u = Ret () t" "saving t" "same_form u t"
      "changes t = changes u ++ map_of (form_changes tgt ps)" by blast
    have "changes t = changes s ++ map_of (form_changes tgt (p # ps))"
      using t(4) u(3) new fc by (simp add: map_add_upd_left dom_map_of_conv_image_fst)
    with t(1,2) same_form_trans [OF u(4) t(3)] u(1) slot Cons.prems(4) show ?thesis unfolding upt by auto
  qed
qed

text \<open>
  Saving a form: every NVRAM variable that a submitted text field stands for reads as the
  submitted value, every other variable as before or as the change that was waiting in the
  cache.
\<close>

lemma submitted_form_saved:
  assumes "nv_ready es ds s" "can_write s NVRAM_PATH" "saving s" "form_ok s tgt ps"
    and "post_data_vvpa s = Some a" "vvpa_inv a" "vvpa_list a = map pair_of ps"
  shows "\<exists>t es'. save_data s = Ret () t \<and> nv_ready es' ds t \<and> is_exec t = is_exec s \<and> (\<forall>name. nv_okk name \<longrightarrow> get_spec es' ds name =
    (case map_of (form_changes tgt ps) name of Some x \<Rightarrow> hide_deleted x | None \<Rightarrow> read_back s es ds name))"
proof -
  have used: "num_used a = length ps" using vvpa.used_elems [OF assms(6)] assms(7) by simp
  have slots: "vvps a ! (0 + i) = Some (pair_of (ps ! i))" if "i < length ps" for i
    using vvpa_slots [OF assms(6)] assms(7) used that by (metis add_0 length_map nth_map nth_take)
  from save_loop_form [OF assms(3,4) vars_ok_None assms(5) slots]
  obtain r where r: "save_loop [0..<length ps] None s = Ret () r" "saving r" "same_form s r"
    "changes r = changes s ++ map_of (form_changes tgt ps)"
    by (auto simp: first_var_occurence_in_vvpa_def)
  have ready: "nv_ready es ds r" "can_write r NVRAM_PATH" using assms(1,2) same_form_env [OF r(3)] by auto
  from sync_saving [OF ready r(2)] obtain t es' where t: "sync_nvram_cache_back_to_nvram r = Ret () t" "nv_ready es' ds t"
    "nvcache.more t = nvcache.more r" "\<And>name. nv_okk name \<Longrightarrow> get_spec es' ds name = read_back r es ds name" by blast
  have "read_back r es ds name =
      (case map_of (form_changes tgt ps) name of Some x \<Rightarrow> hide_deleted x | None \<Rightarrow> read_back s es ds name)" for name
    by (simp add: read_back_def r(4) map_add_def split: option.split)
  moreover have "is_exec t = is_exec s"
    using more_is_exec [OF t(3)] r(3) by (auto simp: same_form_def)
  ultimately show ?thesis using t r(1) used assms(5) by (auto simp: save_data_def)
qed

subsection \<open>Properties\<close>

text \<open>
  C23. Deleting a row of a table removes it from the configuration: after delete_data the
  array variable reads as the text of the remaining rows in their order, every other
  variable as before (or as its change that was waiting in the cache).
\<close>

theorem deleted_row_is_gone:
  assumes "nv_ready es ds s" "can_write s NVRAM_PATH" "saving s"
    and page: "action_page_vars s = Some pa" "find_index_of_var_in_vvppa (Some pa) (Some ''TODO_ACTION_DELETE'') = Some i"
      "vvpps pa ! i = Some p" "pp_value p = Some nv" "pp_row_identifier p = Some ident"
    and row: "get_get_or_post_value (Some ident) s = Some cp" "atoi cp = int r" "r < ce_rows_used e"
    and entry: "e \<in> set (nc_list (cache_of s))" "ce_name e = nv" "ce_type e = NVRAM_ENTRY_TYPE_ARRAY"
      "nv_okk nv" "nv \<noteq> []" "is_cstr (array_text (take r (entry_rows e) @ drop (r + 1) (entry_rows e)))"
  shows "\<exists>t. delete_data s = Ret True t \<and> (\<forall>name. nv_okk name \<longrightarrow> (\<exists>u. nvram_get name t =
    Ret (if name = nv then hide_deleted (array_text (take r (entry_rows e) @ drop (r + 1) (entry_rows e)))
         else read_back s es ds name) u))"
proof -
  from assms(3) obtain c where c: "nc s = Some c" "cache_of s = c" "cache_ok c"
    by (auto simp: saving_def cached_def cache_of_def)
  from entry(1) c(2) obtain k where k: "k < length (nc_list c)" "nc_list c ! k = e" by (auto simp: in_set_conv_nth)
  then have ku: "k < nc_num_used c" using c(3) nvc.used_elems by (auto simp: cache_ok_def)
  have ei: "entry_inv e" using c(3) entry(1) c(2) by (simp add: cache_ok_def)
  define d where "d = remove_row (int r) e"
  let ?x = "array_text (take r (entry_rows e) @ drop (r + 1) (entry_rows e))"
  have d: "ce_changed d" "ce_type d = NVRAM_ENTRY_TYPE_ARRAY" "ce_name d = nv"
    using entry(2,3) row(3) by (simp_all add: d_def remove_row_def Let_def)
  have tx: "entry_text d = Some ?x" "entry_inv d"
    using remove_row_rows [OF ei entry(3) row(3)] d(2) by (simp_all add: entry_text_def d_def)
  then have "savable d" using d(3) entry(4,6) by (simp add: savable_def)
  with d tx k entry(2) saving_put [OF assms(3), of k d ?x] c(2)
  have t: "saving (put_entry k d s)" "changes (put_entry k d s) = (changes s)(nv \<mapsto> ?x)" by auto
  have rm: "remove_row_from_array_in_nvram_cache (Some nv) (int r) s = Ret () (put_entry k d s)"
    using want_cached [OF c(1,3) ku _ entry(5)] k(2) entry(2)
    by (simp add: remove_row_from_array_in_nvram_cache_def with_entry_def create_nvram_cache_id [OF c(1)] d_def)
  have "nv_ready es ds (put_entry k d s)" "can_write (put_entry k d s) NVRAM_PATH"
    using assms(1,2) by (simp_all add: nv_ready_def put_entry_def env_ok_def stores_def)
  from sync_saving [OF this t(1)] obtain u es' where u: "sync_nvram_cache_back_to_nvram (put_entry k d s) = Ret () u"
    "nv_ready es' ds u" "\<And>name. nv_okk name \<Longrightarrow> get_spec es' ds name = read_back (put_entry k d s) es ds name" by blast
  then have "\<exists>v. nvram_get name u = Ret (read_back (put_entry k d s) es ds name) v" if "nv_okk name" for name
    using ready_reads [OF u(2) that] that by auto
  moreover have "read_back (put_entry k d s) es ds name = (if name = nv then hide_deleted ?x else read_back s es ds name)" for name
    by (simp add: read_back_def t(2))
  moreover have "delete_data s = Ret True u" using page row(1,2) rm u(1) by (simp add: delete_data_def)
  ultimately show ?thesis by auto
qed

definition sample_delete :: page where
  "sample_delete = sample_page\<lparr>
     action_page_vars := Some (vvppa_push ((create_var_val_pair_plus (Some ''TODO_ACTION_DELETE'') (Some ''hosts''))
         \<lparr>pp_row_identifier := Some ''row''\<rparr>) create_var_val_pair_plus_array),
     post_data_vvpa := Some (fold vvpa_push [pair_of (''row'', ''0'')] create_var_val_pair_array)\<rparr>"

theorem deleted_row_is_gone_witness:
  "\<exists>t u. delete_data sample_delete = Ret True t
     \<and> nvram_get ''hosts'' t = Ret (Some [CHR ''t'', CHR ''v'', CHR 0x02, CHR ''2'']) u"
proof -
  let ?p = "(create_var_val_pair_plus (Some ''TODO_ACTION_DELETE'') (Some ''hosts''))\<lparr>pp_row_identifier := Some ''row''\<rparr>"
  let ?pa = "vvppa_push ?p create_var_val_pair_plus_array"
  have p: "action_page_vars sample_delete = Some ?pa" "find_index_of_var_in_vvppa (Some ?pa) (Some ''TODO_ACTION_DELETE'') = Some 0"
    "vvpps ?pa ! 0 = Some ?p" "pp_value ?p = Some ''hosts''" "pp_row_identifier ?p = Some ''row''"
    by (simp_all add: sample_delete_def find_index_of_var_in_vvppa_def vvppa_push_def
        create_var_val_pair_plus_array_def create_var_val_pair_plus_def numeral_eq_Suc)
  have v: "get_get_or_post_value (Some ''row'') sample_delete = Some ''0''"
    by (simp add: get_get_or_post_value_def get_get_value_def get_post_value_def sample_delete_def
        find_value_from_var_def vvpa_push_def create_var_val_pair_array_def pair_of_def create_var_val_pair_def
        page_var_hidden_prefix_def numeral_eq_Suc Let_def)
  have e: "take 0 (entry_rows sample_entry) @ drop (0 + 1) (entry_rows sample_entry) = [[Some ''tv'', Some ''2'']]"
    "ce_type sample_entry = NVRAM_ENTRY_TYPE_ARRAY" "ce_name sample_entry = ''hosts''" "0 < ce_rows_used sample_entry"
    "\<not> ce_changed sample_entry"
    by (simp_all add: sample_entry_def entry_rows_def)
  have nl: "nc_list (cache_of sample_delete) = [sample_entry]" "cached sample_delete" "nc sample_delete \<noteq> None"
    using sample_cached_ok
    by (simp_all add: sample_delete_def sample_page_def nvcache.extend_def cache_of_def sample_cached_simps nc_list_def cached_def)
  have s: "saving sample_delete" using nl e(5) by (simp add: saving_def)
  have ready: "nv_ready [''lan_if=br0'', ''wan_mode=1''] [''adblock_enable=0''] sample_delete" "can_write sample_delete NVRAM_PATH"
    using sample_cached_ready
    by (simp_all add: sample_delete_def sample_page_def nvcache.extend_def nv_ready_def env_ok_def stores_def sample_cached_simps)
  have tx: "array_text [[Some ''tv'', Some ''2'']] = [CHR ''t'', CHR ''v'', CHR 0x02, CHR ''2'']"
    by (simp add: array_text_def cell_text_def)
  have "atoi ''0'' = int 0" by code_simp
  from deleted_row_is_gone [OF ready s p v this e(4)] e nl tx obtain t where
    "delete_data sample_delete = Ret True t"
    "\<exists>u. nvram_get ''hosts'' t = Ret (hide_deleted [CHR ''t'', CHR ''v'', CHR 0x02, CHR ''2'']) u"
    by (auto simp: nv_okk_def dest!: spec [of _ "''hosts''"])
  then show ?thesis by (simp add: hide_deleted_def is_deleted_def strneq_def)
qed

text \<open>
  The parts a page variable can stand for: the flag of its description, the character that separates the
  two parts of the text, and whether it is the second one; and the text with this part replaced by \<open>v\<close>.
\<close>

definition ip_parts :: "(32 word \<times> char \<times> bool) list" where
  "ip_parts = [(VVPP_HAS_IP_START, CHR ''-'', False), (VVPP_HAS_IP_END, CHR ''-'', True),
     (VVPP_HAS_IP_NUM, CHR '':'', False), (VVPP_HAS_IP_PORT, CHR '':'', True)]"

definition with_part :: "char \<Rightarrow> bool \<Rightarrow> string \<Rightarrow> string \<Rightarrow> string \<Rightarrow> string" where
  "with_part sep second a b v = (if second then a @ sep # v else v @ sep # b)"

lemma ip_value_part:
  assumes "(pp_has e, sep, second) \<in> set ip_parts" "sep \<notin> set a" "v \<noteq> []" "length (with_part sep second a b v) < 32"
  shows "ip_value e (Some (a @ sep # b)) v = Ok (Some (with_part sep second a b v, Buf))"
  using assms
  by (auto simp: ip_parts_def ip_value_def has_flag_def vvpp_has_defs ip_start_def ip_end_def ip_num_def ip_port_def
      to_buf_def with_part_def strchr_append before_append)

text \<open>
  C22. Saving one part of an IP range (start or end) or of an address with port (number or port) keeps
  the other part: when a form submits one page variable whose description has the flag of this part, save_data ends
  and the NVRAM variable reads as its text with that part replaced and the other one as it was, every
  other variable as before (or as its change that was waiting in the cache). The whole text has to be shorter than
  32 characters.
\<close>

theorem ip_edit_keeps_other_part:
  assumes "nv_ready es ds s" "can_write s NVRAM_PATH" "saving s"
    and post: "post_data_vvpa s = Some pa" "vvpa_inv pa" "vvpa_list pa = [pair_of (n, v)]"
    and field: "text_field s n e nv" "(pp_has e, sep, second) \<in> set ip_parts"
    and entry: "d \<in> set (nc_list (cache_of s))" "ce_name d = nv" "ce_type d = NVRAM_ENTRY_TYPE_TEXT" "ce_value d = Some (a @ sep # b)"
    and tx: "sep \<notin> set a" "is_cstr a" "is_cstr b" "v \<noteq> []" "plain_text v" "length (with_part sep second a b v) < 32"
  shows "\<exists>t. save_data s = Ret () t \<and> (\<forall>name. nv_okk name \<longrightarrow> (\<exists>u. nvram_get name t =
    Ret (if name = nv then hide_deleted (with_part sep second a b v) else read_back s es ds name) u))"
proof -
  let ?x = "with_part sep second a b v"
  have "is_cstr ?x" using tx(2,3,5) field(2) by (auto simp: with_part_def plain_text_def ip_parts_def is_cstr_def)
  moreover have "settable_value e (Some v) = Some v" using field(1) tx(5) by (intro settable_untranslated) (simp_all add: text_field_def)
  moreover have "ip_value e (ce_value d) v = Ok (Some (?x, Buf))" using ip_value_part [OF field(2) tx(1,4,6)] entry(4) by simp
  ultimately obtain r where r: "save_one 0 (pair_of (n, v)) None s = Ret (Some (addto_var_val_pair_array None (Some n) (Some ?x))) r"
    "saving r" "changes r = (changes s)(nv \<mapsto> ?x)" "same_form s r"
    using save_text_step [OF assms(3) entry(1-3) field(1), of v None ?x Buf 0]
    by (auto simp: first_var_occurence_in_vvpa_def)
  have "num_used pa = 1" "vvps pa ! 0 = Some (pair_of (n, v))"
    using vvpa.used_elems [OF post(2)] vvpa_slots [OF post(2)] post(3) by (auto simp: nth_Cons' dest: arg_cong [of _ _ "\<lambda>l. l ! 0"])
  then have loop: "save_data s = sync_nvram_cache_back_to_nvram r" using r(1) post(1) by (simp add: save_data_def)
  have "nv_ready es ds r" "can_write r NVRAM_PATH" using assms(1,2) same_form_env [OF r(4)] by auto
  from sync_saving [OF this r(2)] obtain u es' where u: "sync_nvram_cache_back_to_nvram r = Ret () u"
    "nv_ready es' ds u" "\<And>name. nv_okk name \<Longrightarrow> get_spec es' ds name = read_back r es ds name" by blast
  then have "\<exists>w. nvram_get name u = Ret (read_back r es ds name) w" if "nv_okk name" for name
    using ready_reads [OF u(2) that] that by auto
  moreover have "read_back r es ds name = (if name = nv then hide_deleted ?x else read_back s es ds name)" for name
    by (simp add: read_back_def r(3))
  ultimately show ?thesis using loop u(1) by auto
qed

definition sample_range :: nvram_entry where
  "sample_range = sample_text_entry\<lparr>ce_name := ''range'', ce_value := Some ''10.0.0.1-10.0.0.9''\<rparr>"

definition range_end :: var_val_pair_plus where
  "range_end = (create_var_val_pair_plus (Some ''to'') (Some ''range''))\<lparr>pp_type := VVPP_TYPE_TEXT, pp_has := VVPP_HAS_IP_END\<rparr>"

definition sample_ip_form :: page where
  "sample_ip_form = sample_page\<lparr>nc := Some \<lparr>nc_num_avail = 10, nc_num_used = 1, nc_cache = Some sample_range # replicate 9 None\<rparr>,
     action_page_vars := Some (vvppa_push range_end create_var_val_pair_plus_array),
     post_data_vvpa := Some (fold vvpa_push [pair_of (''to'', ''10.0.0.7'')] create_var_val_pair_array)\<rparr>"

lemma sample_ip_form_facts:
  "saving sample_ip_form" "nc_list (cache_of sample_ip_form) = [sample_range]"
  "nv_ready [''lan_if=br0'', ''wan_mode=1''] [''adblock_enable=0''] sample_ip_form" "can_write sample_ip_form NVRAM_PATH"
proof -
  show l: "nc_list (cache_of sample_ip_form) = [sample_range]"
    by (simp add: sample_ip_form_def cache_of_def nc_list_def)
  show "saving sample_ip_form"
    using l by (simp add: saving_def sample_range_def sample_text_entry_def)
      (simp add: sample_ip_form_def cached_def cache_of_def cache_ok_def nc_inv_def nc_list_def entry_inv_def sample_range_def
        sample_text_entry_def)
  show "nv_ready [''lan_if=br0'', ''wan_mode=1''] [''adblock_enable=0''] sample_ip_form" "can_write sample_ip_form NVRAM_PATH"
    using sample_cached_ready
    by (simp_all add: sample_ip_form_def sample_page_def nvcache.extend_def nv_ready_def env_ok_def stores_def sample_cached_simps)
qed

lemma sample_ip_field: "text_field sample_ip_form ''to'' range_end ''range''"
proof -
  let ?pa = "vvppa_push range_end create_var_val_pair_plus_array"
  have "find_index_of_var_in_vvppa (Some ?pa) (Some ''to'') = Some 0" "vvpps ?pa ! 0 = Some range_end"
    by (simp_all add: find_index_of_var_in_vvppa_def vvppa_push_def create_var_val_pair_plus_array_def range_end_def
        create_var_val_pair_plus_def numeral_eq_Suc)
  then show ?thesis
    by (simp add: text_field_def sample_ip_form_def nv_okk_def is_hidden_page_var_def strneq_def page_var_hidden_prefix_def
        PAGE_VAR_HIDDEN_PREFIX_LENGTH_def)
      (simp add: range_end_def create_var_val_pair_plus_def)
qed

theorem ip_edit_keeps_other_part_witness:
  "\<exists>t u. save_data sample_ip_form = Ret () t \<and> nvram_get ''range'' t = Ret (Some ''10.0.0.1-10.0.0.7'') u"
proof -
  have "(pp_has range_end, CHR ''-'', True) \<in> set ip_parts" by (simp add: range_end_def ip_parts_def)
  moreover have "ce_value sample_range = Some (''10.0.0.1'' @ CHR ''-'' # ''10.0.0.9'')" "ce_name sample_range = ''range''"
    "ce_type sample_range = NVRAM_ENTRY_TYPE_TEXT" by (simp_all add: sample_range_def sample_text_entry_def)
  moreover have "plain_text ''10.0.0.7''" by (simp add: plain_text_def char_at_def)
  ultimately obtain t where "save_data sample_ip_form = Ret () t"
    "\<exists>u. nvram_get ''range'' t = Ret (hide_deleted ''10.0.0.1-10.0.0.7'') u"
    using ip_edit_keeps_other_part [OF sample_ip_form_facts(3,4,1) _ two_pairs(1) two_pairs(2) sample_ip_field,
        where sep = "CHR ''-''" and second = True and d = sample_range and a = "''10.0.0.1''" and b = "''10.0.0.9''" and v = "''10.0.0.7''"]
      sample_ip_form_facts(2)
    by (auto simp: with_part_def sample_ip_form_def nv_okk_def dest!: spec [of _ "''range''"])
  then show ?thesis by (simp add: hide_deleted_def is_deleted_def strneq_def)
qed

text \<open>
  The submitted text for one end of a range is not limited: together with the other end it
  is printed into an array of 32 bytes, past which it runs when it is longer.
\<close>

theorem ip_edit_overruns:
  assumes "CHR ''-'' \<notin> set a" "31 \<le> length (a @ v)" "v \<noteq> []"
  shows "ip_end (Some (a @ ''-'' @ b)) (Some (v, Own)) = Fault Oob_write"
  using assms by (simp add: ip_end_def to_buf_def before_append)

theorem ip_edit_overruns_witness:
  "ip_end (Some ''192.168.100.100-192.168.100.200'') (Some (''192.168.100.2000'', Own)) = Fault Oob_write"
  using ip_edit_overruns [of "''192.168.100.100''" "''192.168.100.2000''" "''192.168.100.200''"] by simp

text \<open>
  A save request without a body dereferences the NULL list of POST variables.
\<close>

theorem save_without_body_crashes:
  assumes "post_data_vvpa s = None"
  shows "save_data s = Halt (Crash Null_deref) s"
  using assms by (simp add: save_data_def)

theorem save_without_body_crashes_witness: "save_data sample_page = Halt (Crash Null_deref) sample_page"
  using save_without_body_crashes [of sample_page] by simp

end
