(* ===== verification/Page_Form.thy ===== *)
theory Page_Form
  imports Page_Save
begin

section \<open>A form from its description to the store\<close>

text \<open>
  The way of a form through the page server: \<^verbatim>\<open>get_action_page_vars\<close> reads the description
  of the page and fetches the NVRAM variables it names into the cache, \<^verbatim>\<open>save_data\<close> puts the
  submitted values there and writes them back. This theory holds no definitions of the
  program; it composes the operations of \<open>Page_Vars\<close>, \<open>Cache_Sync\<close> and \<open>Page_Save\<close> for
  descriptions of text fields.
\<close>

subsection \<open>Description lines\<close>

definition text_line :: "string \<times> string \<Rightarrow> string" where
  "text_line f = ''@'' @ fst f @ ''# '' @ snd f @ '' text'' @ [CHR 0x0A]"

text \<open>Names that a line of the description can carry.\<close>

definition text_field :: "string \<times> string \<Rightarrow> bool" where
  "text_field f \<longleftrightarrow> word (fst f) \<and> char_at (fst f) 0 \<noteq> CHR ''@'' \<and> \<not> is_hidden_page_var (fst f)
     \<and> word (snd f) \<and> snd f \<noteq> ''UNDEFINED'' \<and> nv_okk (snd f) \<and> length (text_line f) \<le> 127"

lemma fgets_exact:
  assumes "CHR 0x0A \<notin> set l" "length l < n"
  shows "fgets n (l @ CHR 0x0A # r) = (l @ [CHR 0x0A], r)"
  using assms
proof (induction l arbitrary: n)
  case Nil
  then show ?case by (cases n) auto
next
  case (Cons c l)
  then show ?case by (cases n) auto
qed

lemma word_no_newline: "word w \<Longrightarrow> CHR 0x0A \<notin> set w"
  by (auto simp: word_def isspace_def)

lemma page_lines_text: "list_all text_field fs \<Longrightarrow> page_lines (concat (map text_line fs)) = map text_line fs"
proof (induction fs)
  case Nil
  show ?case by (simp add: page_lines.simps)
next
  case (Cons f fs)
  let ?l = "''@'' @ fst f @ ''# '' @ snd f @ '' text''" and ?r = "concat (map text_line fs)"
  have f: "text_field f" using Cons.prems by simp
  then have "fgets 127 (?l @ CHR 0x0A # ?r) = (?l @ [CHR 0x0A], ?r)"
    by (intro fgets_exact) (auto simp: text_field_def text_line_def dest: word_no_newline)
  moreover have "concat (map text_line (f # fs)) = ?l @ CHR 0x0A # ?r" "text_line f = ?l @ [CHR 0x0A]"
    by (simp_all add: text_line_def)
  ultimately show ?case using Cons by (subst page_lines.simps) simp
qed

definition text_plus :: "string \<times> string \<Rightarrow> var_val_pair_plus" where
  "text_plus f = create_var_val_pair_plus (Some (fst f)) (Some (snd f))"

lemma parse_text_line:
  assumes "text_field f"
  shows "parse_page_line usab nv_type (c_trunc (text_line f)) = Ok (text_plus f, NVRAM_ENTRY_TYPE_TEXT, True)"
proof -
  let ?a = "''@'' @ fst f @ ''#''"
  have w: "word ?a" "word (snd f)" "word ''text''" "fst f \<noteq> []"
    using assms by (auto simp: text_field_def word_def isspace_def)
  have "scan_words (?a @ '' '' @ snd f @ '' '' @ ''text'' @ [CHR 0x0A]) = (?a, snd f, ''text'')"
    using scan_word_word [OF w(1), of "'' '' @ snd f @ '' '' @ ''text'' @ [CHR 0x0A]"]
      scan_word_word [OF w(2), of "'' '' @ ''text'' @ [CHR 0x0A]"] scan_word_word [OF w(3), of "[CHR 0x0A]"]
    by (simp add: scan_words_def scan_word_space isspace_def)
  moreover have "is_cstr (text_line f)" using w by (simp add: text_line_def word_def)
  moreover have "parse_parts usab ''text'' (text_plus f, nv_type, None) = Ok (text_plus f, NVRAM_ENTRY_TYPE_TEXT, None)"
    by (simp add: parse_parts_last parse_part_def char_at_def set_var_val_pair_plus_type_def text_plus_def
        create_var_val_pair_plus_def)
  ultimately show ?thesis
    using trim_page_var_plain [OF w(4)] assms w(4)
    by (simp add: parse_page_line_def text_field_def text_line_def text_plus_def Let_def)
qed

subsection \<open>Fetching a text variable\<close>

text \<open>A cache of texts that nobody has changed yet.\<close>

definition text_cache :: "'z page_scheme \<Rightarrow> bool" where
  "text_cache s \<longleftrightarrow> cached s \<and>
     (\<forall>e\<in>set (nc_list (cache_of s)). \<not> ce_changed e \<and> ce_type e = NVRAM_ENTRY_TYPE_TEXT)"

definition cached_names :: "'z page_scheme \<Rightarrow> string set" where
  "cached_names s = ce_name ` set (nc_list (cache_of s))"

definition same_values :: "string list \<Rightarrow> string list \<Rightarrow> string list \<Rightarrow> bool" where
  "same_values ds es es' \<longleftrightarrow> (\<forall>name. nv_okk name \<longrightarrow> get_spec es' ds name = get_spec es ds name)"

text \<open>A value that is a text: it has no row or cell separators.\<close>

definition text_value :: "string list \<Rightarrow> string list \<Rightarrow> string \<Rightarrow> bool" where
  "text_value es ds name \<longleftrightarrow> (case get_spec es ds name of None \<Rightarrow> True | Some v \<Rightarrow> clean_cell v)"

text \<open>The cache holds what the store holds.\<close>

definition cache_shows :: "string list \<Rightarrow> string list \<Rightarrow> 'z page_scheme \<Rightarrow> bool" where
  "cache_shows es ds s \<longleftrightarrow>
     (\<forall>e\<in>set (nc_list (cache_of s)). nv_okk (ce_name e) \<and> ce_value e = get_spec es ds (ce_name e))"

lemma cache_shows_same: "same_values ds es es' \<Longrightarrow> cache_shows es' ds s = cache_shows es ds s"
  by (auto simp: cache_shows_def same_values_def)

lemma get_spec_store_same: "nv_okk name \<Longrightarrow> same_values ds es (get_spec_store es ds name)"
  by (auto simp: same_values_def get_spec_store_def get_spec_def nv_lookup_update split: option.splits)

lemma parse_entry_text:
  assumes "clean_cell v"
  shows "parse_entry alloc v e = Ok (e\<lparr>ce_type := if v = [] then NVRAM_ENTRY_TYPE_UNKNOWN else NVRAM_ENTRY_TYPE_TEXT\<rparr>)"
  using count_loop_cell [OF assms, of "[]" 1 1 1] by (simp add: parse_entry_def)

lemma require_text_new:
  assumes s: "nv_ready es ds s" "cached s" "name \<notin> cached_names s" and name: "nv_okk name" "name \<noteq> []" "text_value es ds name"
  obtains t e where "require_variable_in_nvram_cache (Some name) NVRAM_ENTRY_TYPE_TEXT s = Ret True t"
    "nv_ready (get_spec_store es ds name) ds t" "same_env s t" "nc t \<noteq> None" "cached t"
    "nc_list (cache_of t) = nc_list (cache_of s) @ [e]"
    "ce_name e = name" "ce_type e = NVRAM_ENTRY_TYPE_TEXT" "\<not> ce_changed e" "ce_value e = get_spec es ds name"
proof -
  let ?c = "cache_of s" and ?s = "create_nvram_cache s"
  have inv: "nc_inv ?c" using s(2) by (simp add: cached_def cache_ok_def)
  have ready: "nv_ready es ds ?s"
    using s(1) by (simp add: create_nvram_cache_def nv_ready_def env_ok_def stores_def)
  from nvram_get_spec [OF ready name(1)] obtain u where
    u: "nvram_get name ?s = Ret (get_spec es ds name) u" "nv_ready (get_spec_store es ds name) ds u"
      "same_but NVRAM_TMP_PATH ?s u" .
  have nc: "nc u = Some ?c" using frame_nc [OF frame_nvram_get u(1)] by (simp add: nc_create)
  then have cu: "cache_of u = ?c" by (simp add: cache_of_def)
  define b where "b = nvram_cache_create_entry name (get_spec es ds name)"
  define e where "e = b\<lparr>ce_type := NVRAM_ENTRY_TYPE_TEXT\<rparr>"
  define i d where "i = nc_num_used ?c" and "d = nc_push b ?c"
  let ?t = "u\<lparr>nc := Some (upd_entry i e d)\<rparr>" and ?v = "u\<lparr>nc := Some d\<rparr>"
  have d: "nc_inv d" "nc_list d = nc_list ?c @ [b]" "i < nc_num_used d" "i = length (nc_list ?c)"
    using nvc.invar_add [OF inv] nvc.elems_add [OF inv] nvc.used_elems [OF inv]
    by (simp_all add: nc_push_counts d_def i_def)
  have l: "nc_list (upd_entry i e d) = nc_list ?c @ [e]" "nc_inv (upd_entry i e d)"
    using nc_list_upd [OF d(1,3), of e] d(2,4) by simp_all
  have put: "put_entry i e (put_entry i x ?v) = ?t" "put_entry i e ?v = ?t" "entry_at i (put_entry i x ?v) = Some x" for x
    using nc_nth(2) [OF d(1,3)] by (simp_all add: entry_at_def put_entry_def upd_entry_def)
  have at0: "entry_at i ?v = Some b" using nc_nth [OF d(1,3)] d(2,4) by (simp add: entry_at_def)
  have b: "ce_type b = NVRAM_ENTRY_TYPE_UNKNOWN" "b\<lparr>ce_type := NVRAM_ENTRY_TYPE_UNKNOWN\<rparr> = b"
    by (simp_all add: b_def nvram_cache_create_entry_def)
  have "find_entry name ?c = None"
    using s(3) by (auto simp: find_entry_list [OF inv] first_index_None_iff cached_names_def)
  then have want: "nvram_cache_want_variable (Some name) s =
      (case get_spec es ds name of None \<Rightarrow> Ret (Some i) ?v
       | Some v \<Rightarrow> sbind (lift (parse_entry (can_alloc ?v) v b) ?v) (\<lambda>e s. Ret (Some i) (put_entry i e s)))"
    using u(1) cu name(2) by (simp add: nvram_cache_want_variable_def Let_def b_def d_def i_def split: option.split)
  have "require_variable_in_nvram_cache (Some name) NVRAM_ENTRY_TYPE_TEXT s = Ret True ?t"
  proof (cases "get_spec es ds name")
    case None
    with want at0 b put(2) show ?thesis by (simp add: require_variable_in_nvram_cache_def with_entry_def e_def)
  next
    case (Some v)
    then have "clean_cell v" using name(3) by (simp add: text_value_def)
    note pe = parse_entry_text [OF this, of "can_alloc ?v" b]
    show ?thesis
    proof (cases "v = []")
      case True
      with pe b(2) want Some have "nvram_cache_want_variable (Some name) s = Ret (Some i) (put_entry i b ?v)"
        by (simp add: lift_def)
      with put(3) [of b] put(1) [of b] b(1) show ?thesis
        by (simp add: require_variable_in_nvram_cache_def with_entry_def flip: e_def)
    next
      case False
      with pe want Some have "nvram_cache_want_variable (Some name) s = Ret (Some i) (put_entry i e ?v)"
        by (simp add: lift_def e_def)
      with put(3) [of e] put(2) show ?thesis
        by (simp add: require_variable_in_nvram_cache_def with_entry_def) (simp add: e_def)
    qed
  qed
  moreover have "nv_ready (get_spec_store es ds name) ds ?t" using u(2) by (simp add: nv_ready_def env_ok_def stores_def)
  moreover have "same_env s ?t"
  proof -
    from u(3) obtain f l h where "u = ?s\<lparr>files := f, nv_list := l, held := h\<rparr>"
      "\<And>q. q \<noteq> NVRAM_TMP_PATH \<Longrightarrow> f q = files ?s q" unfolding same_but_def by metis
    then show ?thesis by (simp add: same_env_def create_nvram_cache_def)
  qed
  moreover have e: "ce_name e = name" "ce_type e = NVRAM_ENTRY_TYPE_TEXT" "\<not> ce_changed e" "entry_inv e" "ce_value e = get_spec es ds name"
    by (simp_all add: e_def b_def nvram_cache_create_entry_def entry_inv_def)
  moreover have "cached ?t"
    using s(2,3) l e by (auto simp: cached_def cache_ok_def cache_of_def cached_names_def)
  ultimately show thesis using l(1) by (intro that [of ?t e]) (simp_all add: cache_of_def)
qed

lemma require_text_old:
  assumes s: "text_cache s" "name \<in> cached_names s" and name: "name \<noteq> []"
  shows "require_variable_in_nvram_cache (Some name) NVRAM_ENTRY_TYPE_TEXT s = Ret True (create_nvram_cache s)"
proof -
  let ?c = "cache_of s"
  have ok: "cache_ok ?c" "nc_inv ?c" using s(1) by (simp_all add: text_cache_def cached_def cache_ok_def)
  from s obtain k where k: "k < length (nc_list ?c)" "ce_name (nc_list ?c ! k) = name"
    by (auto simp: cached_names_def in_set_conv_nth)
  then have ty: "ce_type (nc_list ?c ! k) = NVRAM_ENTRY_TYPE_TEXT" using s(1) by (simp add: text_cache_def)
  have ku: "k < nc_num_used ?c" using k(1) nvc.used_elems [OF ok(2)] by simp
  from want_cached [OF nc_create ok(1) ku k(2) name]
  have w: "nvram_cache_want_variable (Some name) (create_nvram_cache s) = Ret (Some k) (create_nvram_cache s)"
    "entry_at k (create_nvram_cache s) = Some (nc_list ?c ! k)" by simp_all
  have "nvram_cache_want_variable (Some name) s = nvram_cache_want_variable (Some name) (create_nvram_cache s)"
    using create_nvram_cache_id [OF nc_create, of s] name by (simp add: nvram_cache_want_variable_def Let_def)
  with w ty show ?thesis by (simp add: require_variable_in_nvram_cache_def with_entry_def)
qed

lemma require_text:
  assumes s: "nv_ready es ds s" "text_cache s" and name: "nv_okk name" "name \<noteq> []" "text_value es ds name"
  obtains t es' where "require_variable_in_nvram_cache (Some name) NVRAM_ENTRY_TYPE_TEXT s = Ret True t"
    "nv_ready es' ds t" "same_values ds es es'" "same_env s t" "nc t \<noteq> None" "text_cache t"
    "cached_names t = insert name (cached_names s)" "cache_shows es ds s \<longrightarrow> cache_shows es' ds t"
proof (cases "name \<in> cached_names s")
  case True
  let ?t = "create_nvram_cache s"
  have "nv_ready es ds ?t" "same_env s ?t" "nc ?t \<noteq> None" "text_cache ?t" "cached_names ?t = insert name (cached_names s)"
    "cache_shows es ds ?t = cache_shows es ds s"
    using s True
    by (auto simp: create_nvram_cache_def nv_ready_def env_ok_def stores_def same_env_def text_cache_def
        cached_names_def cached_def cache_of_def cache_shows_def)
  with require_text_old [OF s(2) True name(2)] show thesis by (intro that [of ?t es]) (simp_all add: same_values_def)
next
  case False
  have "cached s" using s(2) by (simp add: text_cache_def)
  from require_text_new [OF s(1) this False name] obtain t e where
    t: "require_variable_in_nvram_cache (Some name) NVRAM_ENTRY_TYPE_TEXT s = Ret True t"
      "nv_ready (get_spec_store es ds name) ds t" "same_env s t" "nc t \<noteq> None" "cached t"
      "nc_list (cache_of t) = nc_list (cache_of s) @ [e]"
      "ce_name e = name" "ce_type e = NVRAM_ENTRY_TYPE_TEXT" "\<not> ce_changed e" "ce_value e = get_spec es ds name" .
  then have "text_cache t" "cached_names t = insert name (cached_names s)"
    using s(2) by (auto simp: text_cache_def cached_names_def)
  moreover have "cache_shows es ds s \<longrightarrow> cache_shows (get_spec_store es ds name) ds t"
    using t(6,7,10) name(1) unfolding cache_shows_same [OF get_spec_store_same [OF name(1)]] by (auto simp: cache_shows_def)
  ultimately show thesis using t get_spec_store_same [OF name(1)] by (intro that) simp_all
qed

subsection \<open>Reading the description\<close>

lemma same_values_trans: "same_values ds es es' \<Longrightarrow> same_values ds es' es'' \<Longrightarrow> same_values ds es es''"
  by (simp add: same_values_def)

lemma text_value_same: "same_values ds es es' \<Longrightarrow> nv_okk name \<Longrightarrow> text_value es' ds name = text_value es ds name"
  by (simp add: same_values_def text_value_def)

lemma page_vars_text:
  assumes "nv_ready es ds s" "text_cache s" "list_all text_field fs" "\<forall>f\<in>set fs. text_value es ds (snd f)" "vvppa_inv a"
  shows "\<exists>b t es'. page_vars_loop (map text_line fs) ty a s = Ret b t
    \<and> vvppa_inv b \<and> vvppa_list b = vvppa_list a @ map text_plus fs
    \<and> nv_ready es' ds t \<and> same_values ds es es' \<and> same_env s t \<and> text_cache t \<and> (fs \<noteq> [] \<or> nc s \<noteq> None \<longrightarrow> nc t \<noteq> None)
    \<and> cached_names t = cached_names s \<union> snd ` set fs \<and> (cache_shows es ds s \<longrightarrow> cache_shows es' ds t)"
  using assms
proof (induction fs arbitrary: es s a ty)
  case Nil
  have "same_values ds es es" by (simp add: same_values_def)
  with Nil show ?case by (intro exI [of _ a] exI [of _ s] exI [of _ es]) simp
next
  case (Cons f fs)
  have f: "text_field f" "nv_okk (snd f)" "snd f \<noteq> []" "text_value es ds (snd f)"
    using Cons.prems(3,4) by (auto simp: text_field_def word_def)
  from require_text [OF Cons.prems(1,2) f(2-4)] obtain u es1 where
    u: "require_variable_in_nvram_cache (Some (snd f)) NVRAM_ENTRY_TYPE_TEXT s = Ret True u"
      "nv_ready es1 ds u" "same_values ds es es1" "same_env s u" "nc u \<noteq> None" "text_cache u"
      "cached_names u = insert (snd f) (cached_names s)" "cache_shows es ds s \<longrightarrow> cache_shows es1 ds u" .
  have fs: "list_all text_field fs" "\<forall>f\<in>set fs. text_value es1 ds (snd f)"
    using Cons.prems(3,4) text_value_same [OF u(3)] by (auto simp: text_field_def list_all_iff)
  note push = vvppa.invar_add [OF Cons.prems(5), of "text_plus f"] vvppa.elems_add [OF Cons.prems(5), of "text_plus f"]
  from Cons.IH [OF u(2,6) fs push(1), of NVRAM_ENTRY_TYPE_TEXT] obtain b t es2 where
    t: "page_vars_loop (map text_line fs) NVRAM_ENTRY_TYPE_TEXT (vvppa_push (text_plus f) a) u = Ret b t" "vvppa_inv b"
      "vvppa_list b = vvppa_list (vvppa_push (text_plus f) a) @ map text_plus fs" "nv_ready es2 ds t"
      "same_values ds es1 es2" "same_env u t" "text_cache t" "nc t \<noteq> None" "cached_names t = cached_names u \<union> snd ` set fs"
      "cache_shows es1 ds u \<longrightarrow> cache_shows es2 ds t"
    using u(5) by blast
  have "page_vars_loop (map text_line (f # fs)) ty a s = Ret b t"
    using parse_text_line [OF f(1)] u(1) t(1) by (simp add: text_plus_def create_var_val_pair_plus_def)
  with t push(2) u same_values_trans [OF u(3) t(5)] same_env_trans [OF u(4) t(6)] show ?case
    by (intro exI [of _ b] exI [of _ t] exI [of _ es2]) auto
qed

text \<open>Where the variables of the description are found.\<close>

lemma described_index:
  assumes b: "vvppa_inv b" "vvppa_list b = map text_plus fs" and fs: "distinct (map fst fs)"
  shows "find_index_of_var_in_vvppa (Some b) (Some n) = first_index (\<lambda>f. fst f = n) fs"
    "f \<in> set fs \<Longrightarrow> \<exists>i. find_index_of_var_in_vvppa (Some b) (Some (fst f)) = Some i \<and> vvpps b ! i = Some (text_plus f)"
proof -
  have slots: "take (pnum_used b) (vvpps b) = map (Some \<circ> text_plus) fs"
  proof -
    have "map Some (map the xs) = xs" if "None \<notin> set xs" for xs :: "var_val_pair_plus option list"
      using that by (induction xs) auto
    then show ?thesis using b unfolding vvppa_inv_def vvppa_list_def by (metis map_map)
  qed
  show idx: "find_index_of_var_in_vvppa (Some b) (Some n) = first_index (\<lambda>f. fst f = n) fs" for n
  proof -
    have "first_index (\<lambda>slot. case slot of None \<Rightarrow> False | Some p \<Rightarrow> pp_var p = Some n) (map (Some \<circ> text_plus) gs) =
        first_index (\<lambda>f. fst f = n) gs" for gs
      by (induction gs) (simp_all add: text_plus_def create_var_val_pair_plus_def)
    then show ?thesis by (simp add: find_index_of_var_in_vvppa_def slots)
  qed
  assume f: "f \<in> set fs"
  then obtain i where i: "first_index (\<lambda>g. fst g = fst f) fs = Some i"
    by (metis (mono_tags, lifting) first_index_None_iff not_None_eq)
  note fi = first_index_SomeD [OF i]
  have "fs ! i = f"
    using fi f fs by (metis distinct_map inj_onD nth_mem)
  then have "vvpps b ! i = Some (text_plus f)"
    using slots fi by (metis comp_apply length_map length_take min_less_iff_conj nth_map nth_take)
  with i show "\<exists>i. find_index_of_var_in_vvppa (Some b) (Some (fst f)) = Some i \<and> vvpps b ! i = Some (text_plus f)"
    by (simp add: idx)
qed

text \<open>The fields of the description are the fields of the form.\<close>

lemma described_fields:
  assumes b: "vvppa_inv b" "vvppa_list b = map text_plus fs"
    and fs: "list_all text_field fs" "distinct (map fst fs)"
    and s: "action_page_vars s = Some b" "text_cache s" "snd ` set fs \<subseteq> cached_names s"
  shows "f \<in> set fs \<Longrightarrow> is_field s (fst f) (snd f)"
    "n \<notin> fst ` set fs \<Longrightarrow> \<not> is_hidden_page_var n \<Longrightarrow> is_unknown s n"
proof -
  note idx = described_index [OF b fs(2)]
  show "n \<notin> fst ` set fs \<Longrightarrow> \<not> is_hidden_page_var n \<Longrightarrow> is_unknown s n"
    by (auto simp: is_unknown_def s(1) idx(1) first_index_None_iff)
  assume f: "f \<in> set fs"
  then have tf: "text_field f" using fs(1) by (simp add: list_all_iff)
  from idx(2) [OF f] obtain i where "find_index_of_var_in_vvppa (Some b) (Some (fst f)) = Some i" "vvpps b ! i = Some (text_plus f)"
    by blast
  moreover have "snd f \<in> cached_names s" using f s(3) by auto
  ultimately show "is_field s (fst f) (snd f)"
    using tf s(1,2)
    by (auto simp: is_field_def text_field_def word_def text_entry_def text_plus_def create_var_val_pair_plus_def
        cached_names_def text_cache_def)
qed

lemma form_changes_distinct:
  assumes "distinct (map fst ps)" "distinct (map fst fs)" "distinct (map snd fs)"
  shows "distinct (map fst (form_changes (map_of fs) ps))"
  using assms(1)
proof (induction ps)
  case (Cons p ps)
  have "snd f = snd g \<Longrightarrow> f \<in> set fs \<Longrightarrow> g \<in> set fs \<Longrightarrow> f = g" for f g
    using assms(3) by (metis distinct_map inj_onD)
  then have inj: "map_of fs m = Some v \<Longrightarrow> map_of fs n = Some v \<Longrightarrow> m = n" for m n v
    by (metis fst_conv map_of_SomeD snd_conv)
  have "v \<notin> fst ` set (form_changes (map_of fs) ps)" if "map_of fs (fst p) = Some v" for v
  proof
    assume "v \<in> fst ` set (form_changes (map_of fs) ps)"
    then obtain n x where n: "(n, x) \<in> set ps" "map_of fs n = Some v"
      by (auto simp: form_changes_def split: option.splits)
    with inj [OF that n(2)] Cons.prems show False by (auto simp: image_iff)
  qed
  moreover have "distinct (map fst (form_changes (map_of fs) ps))" using Cons by simp
  ultimately show ?case by (cases p) (auto simp: form_changes_def split: option.splits)
qed (simp add: form_changes_def)

lemma described_form_store:
  assumes "nv_ready es ds s" "can_write s NVRAM_PATH" "text_cache s"
    and page: "fs \<noteq> []" "list_all text_field fs" "distinct (map fst fs)" "distinct (map snd fs)"
      "\<forall>f\<in>set fs. text_value es ds (snd f)"
    and form: "post_data_vvpa s = Some a" "vvpa_inv a" "vvpa_list a = map pair_of ps" "distinct (map fst ps)"
      "list_all (\<lambda>(n, x). \<not> is_hidden_page_var n \<and> plain_text x) ps"
  shows "\<exists>t u es'. get_action_page_vars (concat (map text_line fs)) s = Ret () t \<and> save_data t = Ret () u
    \<and> nv_ready es' ds u \<and> is_exec t = is_exec s \<and> is_exec u = is_exec s
    \<and> (\<forall>name. nv_okk name \<longrightarrow> get_spec es' ds name =
        (case map_of (form_changes (map_of fs) ps) name of Some x \<Rightarrow> hide_deleted x | None \<Rightarrow> get_spec es ds name))"
proof -
  from page_vars_text [OF assms(1,3) page(2,5) vvppa_inv_create, of NVRAM_ENTRY_TYPE_UNKNOWN] page(1)
  obtain b r es' where
    r: "page_vars_loop (map text_line fs) NVRAM_ENTRY_TYPE_UNKNOWN create_var_val_pair_plus_array s = Ret b r"
      "vvppa_inv b" "vvppa_list b = map text_plus fs" "nv_ready es' ds r" "same_values ds es es'" "same_env s r"
      "text_cache r" "nc r \<noteq> None" "cached_names r = cached_names s \<union> snd ` set fs"
    by (auto simp: vvppa_list_def create_var_val_pair_plus_array_def)
  let ?t = "r\<lparr>action_page_vars := Some b\<rparr>"
  have co: "cache_of ?t = cache_of r" by (simp add: cache_of_def)
  have t: "nv_ready es' ds ?t" "can_write ?t NVRAM_PATH" "post_data_vvpa ?t = Some a" "text_cache ?t"
    "snd ` set fs \<subseteq> cached_names ?t"
    using r assms(2) form(1)
    by (auto elim!: same_envE simp: nv_ready_def env_ok_def stores_def text_cache_def cached_def cached_names_def co)
  have sv: "saving ?t" using t(4) r(8) by (auto simp: saving_def text_cache_def)
  have "\<forall>e\<in>set (nc_list (cache_of ?t)). \<not> ce_changed e" using t(4) by (auto simp: text_cache_def)
  then have "changes ?t = Map.empty" by (simp add: changes_def pending_def)
  then have rb: "read_back ?t es' ds name = get_spec es ds name" if "nv_okk name" for name
    using that r(5) by (simp add: read_back_def same_values_def)
  note df = described_fields [OF r(2,3) page(2,3) _ t(4,5)]
  have "form_ok ?t (map_of fs) ps"
    unfolding form_ok_def list_all_iff
  proof (intro conjI ballI form_changes_distinct form(4) page(3,4))
    fix p
    assume p: "p \<in> set ps"
    obtain n x where nx: "p = (n, x)" by (cases p)
    with form(5) p have px: "\<not> is_hidden_page_var n" "plain_text x" by (auto simp: list_all_iff)
    show "case p of (n, x) \<Rightarrow> case map_of fs n of None \<Rightarrow> is_unknown ?t n | Some nv \<Rightarrow> is_field ?t n nv \<and> plain_text x"
    proof (cases "map_of fs n")
      case None
      then have "n \<notin> fst ` set fs" by (simp add: map_of_eq_None_iff)
      with None show ?thesis using df(2) [of n] px nx by simp
    next
      case (Some nv)
      then show ?thesis using df(1) [of "(n, nv)"] px nx by (auto dest: map_of_SomeD)
    qed
  qed
  from submitted_form_saved [OF t(1,2) sv this t(3) form(2,3)] obtain u es2 where
    u: "save_data ?t = Ret () u" "nv_ready es2 ds u" "is_exec u = is_exec ?t" "\<forall>name. nv_okk name \<longrightarrow> get_spec es2 ds name =
      (case map_of (form_changes (map_of fs) ps) name of Some x \<Rightarrow> hide_deleted x | None \<Rightarrow> read_back ?t es' ds name)"
    by blast
  then have "\<forall>name. nv_okk name \<longrightarrow> get_spec es2 ds name =
      (case map_of (form_changes (map_of fs) ps) name of Some x \<Rightarrow> hide_deleted x | None \<Rightarrow> get_spec es ds name)"
    using rb by (simp cong: option.case_cong)
  moreover have "get_action_page_vars (concat (map text_line fs)) s = Ret () ?t"
    using r(1) by (simp add: get_action_page_vars_def get_page_vars_def page_lines_text [OF page(2)])
  moreover have "is_exec ?t = is_exec s" using r(6) by (elim same_envE) simp
  ultimately show ?thesis using u(1-3) by metis
qed

subsection \<open>Properties\<close>

text \<open>
  C8. A form of text fields is saved from its description on: after get_action_page_vars has
  read the lines that describe the fields and save_data has run on the submitted values,
  every NVRAM variable that the description gives for a submitted field reads as the value
  submitted, and every other variable as before; submitted variables without a line in the
  description have no effect.
\<close>

theorem described_form_is_saved:
  assumes "nv_ready es ds s" "can_write s NVRAM_PATH" "text_cache s"
    and page: "fs \<noteq> []" "list_all text_field fs" "distinct (map fst fs)" "distinct (map snd fs)"
      "\<forall>f\<in>set fs. text_value es ds (snd f)"
    and form: "post_data_vvpa s = Some a" "vvpa_inv a" "vvpa_list a = map pair_of ps" "distinct (map fst ps)"
      "list_all (\<lambda>(n, x). \<not> is_hidden_page_var n \<and> plain_text x) ps"
  shows "\<exists>t u. get_action_page_vars (concat (map text_line fs)) s = Ret () t \<and> save_data t = Ret () u
    \<and> (\<forall>name. nv_okk name \<longrightarrow> (\<exists>w. nvram_get name u =
        Ret (case map_of (form_changes (map_of fs) ps) name of
               Some x \<Rightarrow> hide_deleted x | None \<Rightarrow> get_spec es ds name) w))"
proof -
  from described_form_store [OF assms] obtain t u es' where
    u: "get_action_page_vars (concat (map text_line fs)) s = Ret () t" "save_data t = Ret () u" "nv_ready es' ds u"
      "\<forall>name. nv_okk name \<longrightarrow> get_spec es' ds name =
        (case map_of (form_changes (map_of fs) ps) name of Some x \<Rightarrow> hide_deleted x | None \<Rightarrow> get_spec es ds name)"
    by blast
  then show ?thesis using ready_reads [OF u(3)] by (intro exI [of _ t] exI [of _ u]) (metis (no_types, lifting))
qed

definition sample_request :: page where
  "sample_request = sample_page\<lparr>nc := None,
     post_data_vvpa := Some (fold vvpa_push (map pair_of [(''save'', ''Apply''), (''mode'', ''2'')]) create_var_val_pair_array)\<rparr>"

abbreviation sample_fields :: "(string \<times> string) list" where
  "sample_fields \<equiv> [(''mode'', ''wan_mode''), (''lan'', ''lan_if'')]"

abbreviation sample_values :: "(string \<times> string) list" where
  "sample_values \<equiv> [(''save'', ''Apply''), (''mode'', ''2'')]"

lemma sample_request_facts:
  "nv_ready [''lan_if=br0'', ''wan_mode=1''] [''adblock_enable=0''] sample_request" "can_write sample_request NVRAM_PATH"
  "text_cache sample_request"
  "post_data_vvpa sample_request = Some (fold vvpa_push (map pair_of sample_values) create_var_val_pair_array)"
  using sample_cached_ready
  by (simp_all add: sample_request_def sample_page_def nvcache.extend_def nv_ready_def env_ok_def stores_def
      sample_cached_simps text_cache_def cached_def cache_of_def nc_list_def)

lemma sample_form_facts:
  "list_all text_field sample_fields"
  "\<forall>f\<in>set sample_fields. text_value [''lan_if=br0'', ''wan_mode=1''] [''adblock_enable=0''] (snd f)"
  "list_all (\<lambda>(n, x). \<not> is_hidden_page_var n \<and> plain_text x) sample_values"
proof -
  have hid: "\<not> is_hidden_page_var n" if "n \<in> {''mode'', ''lan'', ''save''}" for n
    using that by (auto simp: is_hidden_page_var_def strneq_def page_var_hidden_prefix_def PAGE_VAR_HIDDEN_PREFIX_LENGTH_def)
  show "list_all text_field sample_fields"
    by (simp add: text_field_def word_def isspace_def char_at_def hid nv_okk_def text_line_def)
  show "\<forall>f\<in>set sample_fields. text_value [''lan_if=br0'', ''wan_mode=1''] [''adblock_enable=0''] (snd f)"
    by (simp add: text_value_def get_spec_def nv_match_def hide_deleted_def is_deleted_def strneq_def clean_cell_def)
  show "list_all (\<lambda>(n, x). \<not> is_hidden_page_var n \<and> plain_text x) sample_values"
    by (simp add: hid plain_text_def char_at_def)
qed

theorem described_form_is_saved_witness:
  "\<exists>t u w. get_action_page_vars (concat (map text_line sample_fields)) sample_request = Ret () t
     \<and> save_data t = Ret () u \<and> nvram_get ''wan_mode'' u = Ret (Some ''2'') w"
proof -
  from described_form_is_saved [OF sample_request_facts(1-3) _ sample_form_facts(1) _ _ sample_form_facts(2)
      sample_request_facts(4) two_pairs _ sample_form_facts(3)] obtain t u where
    "get_action_page_vars (concat (map text_line sample_fields)) sample_request = Ret () t" "save_data t = Ret () u"
    "\<exists>w. nvram_get ''wan_mode'' u = Ret (hide_deleted ''2'') w"
    by (auto simp: form_changes_def nv_okk_def dest!: spec [of _ "''wan_mode''"])
  then show ?thesis by (auto simp: hide_deleted_def is_deleted_def strneq_def)
qed

end
