(* ===== verification/Page_Render.thy ===== *)
theory Page_Render
  imports Page_Save
begin

unbundle bit_operations_syntax

section \<open>Rendering a page\<close>

text \<open>
  \<^verbatim>\<open>core_info_to_render_data\<close>, \<^verbatim>\<open>render_page_variable_to_stdout\<close> and \<^verbatim>\<open>render_page\<close>: the HTML
  source is copied to standard output and every \<^verbatim>\<open>@name#\<close> in it is replaced by the value of
  the variable, from the request, from the core information, or from the cache.
\<close>

subsection \<open>Files\<close>

definition fopen_r :: "string \<Rightarrow> 'z nvram_scheme \<Rightarrow> bytes option" where
  "fopen_r name s = (if can_read s name then files s name else None)"

subsection \<open>Core information\<close>

text \<open>
  \<^verbatim>\<open>sprintf(sid, value)\<close> into 20 bytes, with the submitted value as the format: a percent sign
  in it makes \<^verbatim>\<open>sprintf\<close> fetch arguments that were never passed.
\<close>

definition sprintf_sid :: "string \<Rightarrow> string res" where
  "sprintf_sid v =
     (if CHR ''%'' \<in> set v then Fault Uninit_read
      else if 20 \<le> length v then Fault Oob_write
      else Ok v)"

definition session_id :: "'z page_scheme \<Rightarrow> string res" where
  "session_id s =
     (let sid0 = (case fopen_r ''/tmp/SessionFile'' s of None \<Rightarrow> [] | Some b \<Rightarrow> c_trunc (fst (fgets 15 b)))
      in rbind (if length sid0 < 5 then
                  (case get_post_value (Some ''SID'') s of None \<Rightarrow> Ok sid0 | Some v \<Rightarrow> sprintf_sid v)
                else Ok sid0) (\<lambda>sid1.
         if length sid1 < 5 then
           (case get_get_value (Some ''id'') s of None \<Rightarrow> Ok sid1 | Some v \<Rightarrow> sprintf_sid v)
         else Ok sid1))"

definition add_render_data :: "string \<Rightarrow> string \<Rightarrow> 'z page_scheme \<Rightarrow> 'z page_scheme" where
  "add_render_data var v s =
     s\<lparr>data_for_render_vvpa := Some (addto_var_val_pair_array (data_for_render_vvpa s) (Some var) (Some v))\<rparr>"

definition core_info_to_render_data :: "'z page_scheme \<Rightarrow> (unit, 'z page_scheme) run" where
  "core_info_to_render_data s =
     sbind (lift (session_id s) s) (\<lambda>sid s.
       let s = add_render_data ''post_par'' (''?id='' @ sid) s;
           s = add_render_data ''model_name'' ''DGND3700v2'' s;
           parent = (case get_get_or_post_value (Some ''this_file'') s of
                       Some v \<Rightarrow> v
                     | None \<Rightarrow> (case get_get_or_post_value (Some ''next_file'') s of Some v \<Rightarrow> v | None \<Rightarrow> []))
       in Ret () (add_render_data ''parent_file'' parent s))"

subsection \<open>One variable\<close>

text \<open>
  The part of a range or of an address with port that is shown. The first part is copied
  with \<^verbatim>\<open>strncpy\<close> into an array that is never terminated, so its length is read from memory
  nothing was written to.
\<close>

definition shown_part :: "char \<Rightarrow> bool \<Rightarrow> string \<Rightarrow> cptr res" where
  "shown_part sep second cp =
     (case strchr cp sep of
        Some cp2 \<Rightarrow> if second then Ok (Some (tl cp2)) else Fault Uninit_read
      | None \<Rightarrow> if second then Ok (Some []) else Ok (Some cp))"

definition shown_ip :: "var_val_pair_plus \<Rightarrow> cptr \<Rightarrow> cptr res" where
  "shown_ip e cp =
     (if has_flag e VVPP_HAS_IP_RANGE then
        (case cp of
           None \<Rightarrow> Ok (Some [])
         | Some v \<Rightarrow> if v = ''0/0'' \<or> v = [] then Ok (Some [])
             else shown_part (CHR ''-'') (has_flag e VVPP_HAS_IP_END) v)
      else if has_flag e VVPP_HAS_IP_NUM_PORT then
        (case cp of
           None \<Rightarrow> Ok (Some [])
         | Some v \<Rightarrow> if v = [] then Ok (Some [])
             else shown_part (CHR '':'') (has_flag e VVPP_HAS_IP_PORT) v)
      else Ok cp)"

text \<open>
  One row of a list. The start of an option is written with a length of 13, one less than
  the text has.
\<close>

definition list_row :: "vvpp_type \<Rightarrow> string \<Rightarrow> string" where
  "list_row ty cp =
     (if ty = VVPP_TYPE_OPTION_LIST
      then take 13 ''<option name=\"'' @ cp @ ''\">'' @ cp @ ''</option>''
      else cp @ [CHR 0x0A])"

fun render_rows :: "var_val_pair_plus \<Rightarrow> nat list \<Rightarrow> 'z page_scheme \<Rightarrow> (unit, 'z page_scheme) run" where
  "render_rows e [] s = Ret () s"
| "render_rows e (i # is) s =
     sbind (get_array_value_from_nvram_cache (pp_value e) (int i) (pp_column e) s) (\<lambda>cp s.
       render_rows e is (case cp of None \<Rightarrow> s | Some v \<Rightarrow> put_out (list_row (pp_type e) v) s))"

definition render_list :: "var_val_pair_plus \<Rightarrow> 'z page_scheme \<Rightarrow> (unit, 'z page_scheme) run" where
  "render_list e s =
     sbind (get_array_num_rows_from_nvram_cache (pp_value e) s) (\<lambda>n s.
       if n = NVRAM_POS_QUERY_FAILED then Ret () s else render_rows e [0..<nat n] s)"

text \<open>The stored value of a variable that is not a list.\<close>

definition stored_value :: "var_val_pair_plus \<Rightarrow> 'z page_scheme \<Rightarrow> (cptr, 'z page_scheme) run" where
  "stored_value e s =
     (if pp_type e = VVPP_TYPE_ARRAY_ENTRY
      then get_array_value_from_nvram_cache (pp_value e) (selected_row e s) (pp_column e) s
      else get_value_from_nvram_cache (pp_value e) s)"

definition put_opt :: "cptr \<Rightarrow> 'z page_scheme \<Rightarrow> 'z page_scheme" where
  "put_opt cp s = (case cp of None \<Rightarrow> s | Some v \<Rightarrow> put_out v s)"

definition render_entry :: "var_val_pair_plus \<Rightarrow> 'z page_scheme \<Rightarrow> (unit, 'z page_scheme) run" where
  "render_entry e s =
     (if pp_type e = VVPP_TYPE_OPTION_LIST \<or> pp_type e = VVPP_TYPE_LIST then render_list e s
      else sbind (stored_value e s) (\<lambda>cp s.
           sbind (lift (shown_ip e cp) s) (\<lambda>cp s.
             let cp = (if has_flag e VVPP_HAS_TRANSLATE \<and> cp \<noteq> None
                       then find_var_from_value (pp_translate_vvpa e) cp else cp)
             in Ret () (put_opt cp s))))"

text \<open>A value of the request, or of the core information.\<close>

definition incoming_value :: "cptr \<Rightarrow> 'z page_scheme \<Rightarrow> cptr" where
  "incoming_value var s =
     (case get_get_or_post_value var s of
        Some v \<Rightarrow> Some v
      | None \<Rightarrow> find_value_from_var (data_for_render_vvpa s) var)"

definition render_page_variable_to_stdout :: "string \<Rightarrow> 'z page_scheme \<Rightarrow> (unit, 'z page_scheme) run" where
  "render_page_variable_to_stdout pv s =
     (case incoming_value (Some pv) s of
        Some v \<Rightarrow> Ret () (put_out v s)
      | None \<Rightarrow>
          (case find_index_of_var_in_vvppa (render_page_vars s) (Some pv) of
             None \<Rightarrow> sbind (get_value_from_nvram_cache (Some pv) s) (\<lambda>cp s. Ret () (put_opt cp s))
           | Some i \<Rightarrow>
               (case (case render_page_vars s of None \<Rightarrow> None | Some a \<Rightarrow> vvpps a ! i) of
                  None \<Rightarrow> Halt (Crash Null_deref) s
                | Some e \<Rightarrow>
                    (case incoming_value (pp_value e) s of
                       Some v \<Rightarrow> Ret () (put_out v s)
                     | None \<Rightarrow> render_entry e s))))"

subsection \<open>The page\<close>

text \<open>
  \<open>var\<close> is the content of \<^verbatim>\<open>variable\<close> so far. The character read is a signed \<^verbatim>\<open>char\<close> compared
  with \<^verbatim>\<open>EOF\<close>, so the byte 255 ends the page.
\<close>

fun render_loop :: "bytes \<Rightarrow> bool \<Rightarrow> string \<Rightarrow> 'z page_scheme \<Rightarrow> (unit, 'z page_scheme) run" where
  "render_loop [] in_variable var s = Ret () s"
| "render_loop (c # r) in_variable var s =
     (if c = CHR 0xFF then Ret () s
      else if in_variable then
        (if c = CHR ''@'' then render_loop r True [] (put_out var s)
         else if c = CHR ''#'' then
           (let v = c_trunc var; v = (if is_hidden_page_var v then drop 2 v else v)
            in sbind (render_page_variable_to_stdout v s) (\<lambda>_ s. render_loop r False [] s))
         else if length var + 1 = 127 then render_loop r False [] (put_out (var @ [c]) s)
         else render_loop r True (var @ [c]) s)
      else if c = CHR ''@'' then render_loop r True [] s
      else render_loop r False [] (put_out [c] s))"

definition content_header :: string where
  "content_header = ''Content-Type: text/html'' @ [CHR 0x0A, CHR 0x0A]"

definition render_page :: "string \<Rightarrow> 'z page_scheme \<Rightarrow> (unit, 'z page_scheme) run" where
  "render_page page s =
     (case fopen_r page s of
        None \<Rightarrow> pass_to_netgear_setup_and_exit None (Some page) True s
      | Some src \<Rightarrow> render_loop src False [] (put_out content_header s))"

subsection \<open>Lemmas\<close>

lemma put_out_append [simp]: "put_out b (put_out a s) = put_out (a @ b) s"
  by (simp add: put_out_def)

lemma render_loop_text:
  "CHR ''@'' \<notin> set t \<Longrightarrow> CHR 0xFF \<notin> set t \<Longrightarrow>
   render_loop (t @ r) False [] s = render_loop r False [] (put_out t s)"
  by (induction t arbitrary: s) (auto simp: put_out_def)

lemma render_loop_name:
  "\<forall>c\<in>set n. c \<noteq> CHR ''@'' \<and> c \<noteq> CHR ''#'' \<and> c \<noteq> CHR 0xFF \<Longrightarrow> length var + length n < 127 \<Longrightarrow>
   render_loop (n @ CHR ''#'' # r) True var s =
     (let v = c_trunc (var @ n); v = (if is_hidden_page_var v then drop 2 v else v)
      in sbind (render_page_variable_to_stdout v s) (\<lambda>_ s. render_loop r False [] s))"
  by (induction n arbitrary: var) auto

subsection \<open>Properties\<close>

text \<open>
  Rendering replaces exactly the variables: text without an at sign is copied as it is,
  and the value of the variable stands where its name stood between at sign and hash; the
  rest of the page is rendered after it.
\<close>

theorem page_variable_is_replaced:
  assumes "CHR ''@'' \<notin> set t" "CHR 0xFF \<notin> set t" "length n < 127" "is_cstr n" "\<not> is_hidden_page_var n"
    "\<forall>c\<in>set n. c \<noteq> CHR ''@'' \<and> c \<noteq> CHR ''#'' \<and> c \<noteq> CHR 0xFF"
  shows "render_loop (t @ ''@'' @ n @ ''#'' @ r) False [] s =
    sbind (render_page_variable_to_stdout n (put_out t s)) (\<lambda>_ s. render_loop r False [] s)"
  using assms render_loop_name [OF assms(6), of "[]" r "put_out t s"]
  by (simp add: render_loop_text Let_def)

theorem page_variable_is_replaced_witness:
  "render_loop ''<b>@model_name#</b>'' False [] (add_render_data ''model_name'' ''DGND3700v2'' sample_page) =
    Ret () (put_out ''<b>DGND3700v2</b>'' (add_render_data ''model_name'' ''DGND3700v2'' sample_page))"
proof -
  let ?s = "add_render_data ''model_name'' ''DGND3700v2'' sample_page"
  have h: "\<not> is_hidden_page_var ''model_name''"
    by (simp add: is_hidden_page_var_def strneq_def page_var_hidden_prefix_def PAGE_VAR_HIDDEN_PREFIX_LENGTH_def)
  have v: "incoming_value (Some ''model_name'') (put_out ''<b>'' ?s) = Some ''DGND3700v2''"
    by (simp add: incoming_value_def get_get_or_post_value_def get_get_value_def get_post_value_def add_render_data_def
        put_out_def find_value_from_var_def addto_var_val_pair_array_def vvpa_push_def create_var_val_pair_array_def
        create_var_val_pair_def numeral_eq_Suc)
  have e: "render_loop ''</b>'' False [] u = Ret () (put_out ''</b>'' u)" for u :: page
    using render_loop_text [of "''</b>''" "[]" u] by simp
  show ?thesis
    using page_variable_is_replaced [of "''<b>''" "''model_name''" "''</b>''" ?s] h v e
    by (simp add: render_page_variable_to_stdout_def)
qed

text \<open>
  A byte 255 in a page ends the output there, and a variable name that is not closed by
  a hash before the end of the page is swallowed.
\<close>

theorem page_output_cut:
  assumes "CHR ''@'' \<notin> set t" "CHR 0xFF \<notin> set t"
    "\<forall>c\<in>set n. c \<noteq> CHR ''@'' \<and> c \<noteq> CHR ''#'' \<and> c \<noteq> CHR 0xFF" "length n < 127"
  shows "render_loop (t @ CHR 0xFF # r) False [] s = Ret () (put_out t s)
    \<and> render_loop (t @ ''@'' @ n) False [] s = Ret () (put_out t s)"
proof -
  have "render_loop n True var s = Ret () s"
    if "\<forall>c\<in>set n. c \<noteq> CHR ''@'' \<and> c \<noteq> CHR ''#'' \<and> c \<noteq> CHR 0xFF" "length var + length n < 127" for n var and s :: "'a page_scheme"
    using that by (induction n arbitrary: var) auto
  with assms show ?thesis by (simp add: render_loop_text)
qed

theorem page_output_cut_witness:
  "render_loop (''ab'' @ CHR 0xFF # ''cd'') False [] sample_page = Ret () (put_out ''ab'' sample_page)
    \<and> render_loop ''ab@name'' False [] sample_page = Ret () (put_out ''ab'' sample_page)"
  using page_output_cut [of "''ab''" "''name''" "''cd''" sample_page] by simp

text \<open>
  Of a stored range the page shows the part after the dash in the field for its end, while
  the field for its start prints a copy that has no terminator.
\<close>

theorem ip_range_shown:
  assumes "CHR ''-'' \<notin> set a" "a @ ''-'' @ b \<noteq> ''0/0''"
    "has_flag e VVPP_HAS_IP_RANGE"
  shows "shown_ip e (Some (a @ ''-'' @ b)) =
    (if has_flag e VVPP_HAS_IP_END then Ok (Some b) else Fault Uninit_read)"
  using assms by (simp add: shown_ip_def shown_part_def strchr_append)

theorem ip_range_shown_witness:
  "shown_ip ((create_var_val_pair_plus None None)\<lparr>pp_has := VVPP_HAS_IP_END\<rparr>) (Some ''10.0.0.1-10.0.0.9'') = Ok (Some ''10.0.0.9'')
    \<and> shown_ip ((create_var_val_pair_plus None None)\<lparr>pp_has := VVPP_HAS_IP_START\<rparr>) (Some ''10.0.0.1-10.0.0.9'') = Fault Uninit_read"
  using ip_range_shown [of "''10.0.0.1''" "''10.0.0.9''" "(create_var_val_pair_plus None None)\<lparr>pp_has := VVPP_HAS_IP_END\<rparr>"]
    ip_range_shown [of "''10.0.0.1''" "''10.0.0.9''" "(create_var_val_pair_plus None None)\<lparr>pp_has := VVPP_HAS_IP_START\<rparr>"]
  by (simp add: has_flag_def vvpp_has_defs VVPP_HAS_IP_RANGE_def)

text \<open>
  The session id of a request, when no session file exists, is printed into 20 bytes with
  the submitted value as the format: a longer value overruns the array and one with a
  percent sign reads arguments that are not there.
\<close>

theorem session_id_from_request:
  assumes "fopen_r ''/tmp/SessionFile'' s = None" "get_post_value (Some ''SID'') s = Some v"
  shows "(CHR ''%'' \<in> set v \<longrightarrow> session_id s = Fault Uninit_read)
    \<and> (CHR ''%'' \<notin> set v \<and> 20 \<le> length v \<longrightarrow> session_id s = Fault Oob_write)
    \<and> (CHR ''%'' \<notin> set v \<and> 5 \<le> length v \<and> length v < 20 \<longrightarrow> session_id s = Ok v)"
  using assms by (simp add: session_id_def sprintf_sid_def)

theorem session_id_from_request_witness:
  "session_id (sample_page\<lparr>post_data_vvpa := Some (fold vvpa_push [pair_of (''SID'', ''%n%n%n'')] create_var_val_pair_array)\<rparr>)
    = Fault Uninit_read"
proof -
  let ?s = "sample_page\<lparr>post_data_vvpa := Some (fold vvpa_push [pair_of (''SID'', ''%n%n%n'')] create_var_val_pair_array)\<rparr>"
  have "fopen_r ''/tmp/SessionFile'' ?s = None"
    by (simp add: fopen_r_def sample_page_def nvcache.extend_def sample_cached_def nvram.extend_def sample_defs)
  moreover have "get_post_value (Some ''SID'') ?s = Some ''%n%n%n''"
    by (simp add: get_post_value_def find_value_from_var_def vvpa_push_def create_var_val_pair_array_def
        pair_of_def create_var_val_pair_def numeral_eq_Suc)
  ultimately show ?thesis using session_id_from_request [of ?s "''%n%n%n''"] by simp
qed

end
