(* ===== verification/Page_Main.thy ===== *)
theory Page_Main
  imports Page_Render
begin

section \<open>The page server: the request as a whole\<close>

text \<open>
  \<^verbatim>\<open>main\<close> and \<^verbatim>\<open>cleanup\<close> of \<^verbatim>\<open>page-server.c\<close>: the request is read, a save or delete is carried
  out for the page that sent it, and the next page is rendered where its description exists;
  everything else is handed to the vendor's program.
\<close>

subsection \<open>Cleaning up\<close>

text \<open>
  \<^verbatim>\<open>get_data\<close> points into the environment, so freeing it is an error; it is the first thing
  done. The frees after it leave no trace in the model but the dangling globals.
\<close>

definition cleanup :: "'z page_scheme \<Rightarrow> (unit, 'z page_scheme) run" where
  "cleanup s =
     (if get_data s \<noteq> None then Halt (Crash Bad_free) s
      else Ret () (free_nvram_cache (s\<lparr>post_data := None, post_data_vvpa := None, get_data_vvpa := None,
             data_for_render_vvpa := None, action_page_vars := None, render_page_vars := None,
             env_vvpa := None, env_for_our_scripts := None\<rparr>)))"

subsection \<open>What is to be done\<close>

datatype page_action =
    ACTION_UNKNOWN | ACTION_NONE | ACTION_OTHER | ACTION_CFG_INIT | ACTION_NEWFILE | ACTION_EDIT
  | ACTION_SAVE | ACTION_SAVE_PWD | ACTION_DELETE

definition parse_todo :: "cptr \<Rightarrow> page_action" where
  "parse_todo todo_value =
     (case todo_value of
        None \<Rightarrow> ACTION_NONE
      | Some t \<Rightarrow>
          if t = ''cfg_init'' then ACTION_CFG_INIT
          else if t = ''edit'' then ACTION_EDIT
          else if t = ''newfile'' then ACTION_NEWFILE
          else if t = ''save_passwd'' then ACTION_SAVE_PWD
          else if t = ''save'' then ACTION_SAVE
          else if t = ''delete'' then ACTION_DELETE
          else ACTION_OTHER)"

text \<open>
  \<^verbatim>\<open>value[80] = 0\<close> through the pointer \<^verbatim>\<open>get_get_or_post_value\<close> returned, which is the value
  field of the pair it was found in.
\<close>

definition cap_in_vvpa :: "string \<Rightarrow> var_val_pair_array option \<Rightarrow> var_val_pair_array option" where
  "cap_in_vvpa var ap =
     update_or_add_value_in_var_val_pair_array ap (Some var)
       (map_option (take 80) (find_value_from_var ap (Some var))) False"

definition cap_value :: "string \<Rightarrow> 'z page_scheme \<Rightarrow> 'z page_scheme" where
  "cap_value var s =
     (let h_var = page_var_hidden_prefix @ var
      in if get_get_value (Some h_var) s \<noteq> None then s\<lparr>get_data_vvpa := cap_in_vvpa h_var (get_data_vvpa s)\<rparr>
         else if get_post_value (Some h_var) s \<noteq> None then s\<lparr>post_data_vvpa := cap_in_vvpa h_var (post_data_vvpa s)\<rparr>
         else if get_get_value (Some var) s \<noteq> None then s\<lparr>get_data_vvpa := cap_in_vvpa var (get_data_vvpa s)\<rparr>
         else s\<lparr>post_data_vvpa := cap_in_vvpa var (post_data_vvpa s)\<rparr>)"

definition cap_file :: "string \<Rightarrow> cptr \<Rightarrow> 'z page_scheme \<Rightarrow> cptr \<times> 'z page_scheme" where
  "cap_file var v s =
     (case v of
        None \<Rightarrow> (None, s)
      | Some f \<Rightarrow> if 80 < length f then (Some (take 80 f), cap_value var s) else (v, s))"

text \<open>The description of a page, from \<^verbatim>\<open>render-data/name\<close>.\<close>

definition page_description :: "cptr \<Rightarrow> 'z page_scheme \<Rightarrow> bytes option" where
  "page_description v s = (case v of None \<Rightarrow> None | Some f \<Rightarrow> fopen_r (''render-data/'' @ f) s)"

text \<open>
  Saving or deleting. The results of the action scripts are ignored; whether the action was
  done is what the caller gets.
\<close>

definition main_action ::
  "page_action \<Rightarrow> cptr \<Rightarrow> 'z page_scheme \<Rightarrow> (page_action \<times> cptr, 'z page_scheme) run" where
  "main_action action_todo this_file_value s =
     (if action_todo \<in> {ACTION_SAVE, ACTION_SAVE_PWD, ACTION_DELETE} then
        let (this_file_value, s) = cap_file ''this_file'' this_file_value s
        in sbind (case page_description this_file_value s of
                    None \<Rightarrow> Ret False s
                  | Some fp \<Rightarrow> sbind (get_action_page_vars fp s) (\<lambda>_ s. Ret True s)) (\<lambda>have_data_for_action s.
           sbind (if have_data_for_action \<and> action_todo = ACTION_SAVE then
                    sbind (do_pre_save_action this_file_value s) (\<lambda>_ s.
                    sbind (save_data s) (\<lambda>_ s.
                    sbind (do_post_save_action this_file_value s) (\<lambda>_ s. Ret ACTION_SAVE s)))
                  else if have_data_for_action \<and> action_todo = ACTION_DELETE then
                    sbind (do_pre_delete_action this_file_value s) (\<lambda>_ s.
                    sbind (delete_data s) (\<lambda>done s.
                      if done then
                        sbind (do_post_delete_action this_file_value s) (\<lambda>_ s. Ret ACTION_DELETE s)
                      else Ret ACTION_NONE s))
                  else Ret ACTION_NONE s) (\<lambda>action_done s.
           Ret (action_done, this_file_value)
             (if action_todo = ACTION_SAVE_PWD \<and> this_file_value \<noteq> None
              then s\<lparr>post_netgear_action := True\<rparr> else s)))
      else Ret (ACTION_NONE, this_file_value) s)"

text \<open>Rendering, when the next page has a description; a page that was rendered ends the process.\<close>

definition main_render :: "cptr \<Rightarrow> 'z page_scheme \<Rightarrow> (cptr, 'z page_scheme) run" where
  "main_render next_file_value s =
     (let (next_file_value, s) = cap_file ''next_file'' next_file_value s
      in case (next_file_value, page_description next_file_value s) of
           (Some f, Some fp) \<Rightarrow>
             sbind (get_render_page_vars fp s) (\<lambda>_ s.
             sbind (core_info_to_render_data s) (\<lambda>_ s.
             sbind (render_page f s) (\<lambda>_ s.
             sbind (cleanup s) (\<lambda>_ s. Halt (Exit 0) s))))
         | _ \<Rightarrow> Ret next_file_value s)"

text \<open>
  Handing over. After an action that was done here, \<^verbatim>\<open>todo\<close> and \<^verbatim>\<open>next_file\<close> are set in the GET
  data. Where \<^verbatim>\<open>next_file\<close> was found there under this name, its value is freed before the
  copy of it is made.
\<close>

definition next_file_in_get :: "'z page_scheme \<Rightarrow> bool" where
  "next_file_in_get s \<longleftrightarrow>
     get_get_value (Some (page_var_hidden_prefix @ ''next_file'')) s = None
     \<and> get_post_value (Some (page_var_hidden_prefix @ ''next_file'')) s = None
     \<and> get_get_value (Some ''next_file'') s \<noteq> None"

definition main_handover ::
  "page_action \<Rightarrow> page_action \<Rightarrow> cptr \<Rightarrow> cptr \<Rightarrow> 'z page_scheme \<Rightarrow> ('a, 'z page_scheme) run" where
  "main_handover action_todo action_done this_file_value next_file_value s =
     (if action_todo = action_done \<and> action_todo \<noteq> ACTION_NONE then
        let s = set_get_value (Some ''todo'') (Some ''cfg_init'') s
        in if next_file_in_get s then Halt (Crash Use_after_free) s
           else pass_to_netgear_setup_and_exit this_file_value next_file_value False
                  (set_get_value (Some ''next_file'') next_file_value s)
      else pass_to_netgear_setup_and_exit this_file_value next_file_value True s)"

text \<open>The request after its data has been read.\<close>

definition serve_request :: "'z page_scheme \<Rightarrow> (int, 'z page_scheme) run" where
  "serve_request s =
     (let todo_value = get_get_or_post_value (Some ''todo'') s;
          next_file_value = get_get_or_post_value (Some ''next_file'') s;
          this_file_value = get_get_or_post_value (Some ''this_file'') s
      in if ends_with next_file_value (Some ''.xml'') \<or> ends_with this_file_value (Some ''.xml'') then
           pass_to_netgear_setup_and_exit this_file_value next_file_value False s
         else
           sbind (lift (parse_argv_type_data_into_vvpa (Some (environ s)) (env_vvpa s)) s) (\<lambda>env s.
             let s = s\<lparr>env_vvpa := env\<rparr>; action_todo = parse_todo todo_value
             in sbind (main_action action_todo this_file_value s) (\<lambda>(action_done, this_file_value) s.
                sbind (main_render next_file_value s) (\<lambda>next_file_value s.
                main_handover action_todo action_done this_file_value next_file_value s))))"

definition main :: "string list \<Rightarrow> 'z page_scheme \<Rightarrow> (int, 'z page_scheme) run" where
  "main argv s =
     (let s = s\<lparr>incoming_argv := argv, get_data := getenv ''QUERY_STRING'' s\<rparr>
      in sbind (get_post_data s) (\<lambda>_ s.
           if get_data s = None then pass_to_netgear_setup_and_exit None None False s
           else
             sbind (lift (parse_post_get_type_data_into_vvpa (get_data s) None ''&'') s) (\<lambda>g s.
               let s = s\<lparr>get_data_vvpa := g\<rparr>
               in sbind (lift (parse_post_get_type_data_into_vvpa (post_data s) None ''&'') s) (\<lambda>p s.
                    serve_request (s\<lparr>post_data_vvpa := p\<rparr>)))))"

subsection \<open>Lemmas\<close>

definition stops :: "('a, 's) run \<Rightarrow> bool" where
  "stops r \<longleftrightarrow> (\<exists>e t. r = Halt e t)"

lemma stops_simps [simp, run_simps]: "stops (Halt e t)" "\<not> stops (Ret x t)"
  by (simp_all add: stops_def)

lemma stops_sbind [intro]: "(\<And>x t. m = Ret x t \<Longrightarrow> stops (f x t)) \<Longrightarrow> stops (sbind m f)"
  by (cases m) auto

lemma stops_pass [simp]: "stops (pass_to_netgear_setup_and_exit a b c s)"
  unfolding pass_to_netgear_setup_and_exit_def Let_def by (auto intro!: stops_sbind)

lemma stops_handover [simp]: "stops (main_handover todo act a b s)"
  by (simp add: main_handover_def Let_def)

lemma stops_serve: "stops (serve_request s)"
  unfolding serve_request_def Let_def by (auto intro!: stops_sbind)

subsection \<open>Properties\<close>

text \<open>
  The main program never returns to its caller: whatever the request and the files, it
  ends by exit or by a crash, and the statement after the last hand-over is never reached.
\<close>

theorem main_never_returns: "\<exists>e t. main argv s = Halt e t"
proof -
  have "stops (main argv s)"
    unfolding main_def Let_def by (auto intro!: stops_sbind stops_serve)
  then show ?thesis by (simp add: stops_def)
qed

text \<open>The hand-over without POST data, where no script runs after it.\<close>

lemma pass_plain:
  assumes "make_query_string s = Ok q" "\<not> send \<or> post_data s = None" "\<not> post_netgear_action s"
    "can_alloc s 1024"
    and e: "e = nv_update ''REQUEST_METHOD'' ''GET'' (nv_update ''QUERY_STRING'' q (environ s))"
    and r: "r = prog s ''netgear-setup.cgi'' e (incoming_argv s) None (files s)"
  shows "pass_to_netgear_setup_and_exit a b send s =
    Halt (Exit (p_status r)) (s\<lparr>environ := e, files := p_files r, stdout := stdout s @ p_out r @ [CHR 0x0A],
      log := log s @ p_err r\<rparr>)"
  using assms
  by (cases send) (simp_all add: pass_to_netgear_setup_and_exit_def setenv_def run_external_prog_def put_out_def Let_def)

text \<open>
  A request without a query string is handed to the vendor's program as it came: it runs
  once, as a GET request with an empty query and without input, its output is the answer and
  its status is the exit status.
\<close>

theorem request_without_query_handed_over:
  assumes "getenv ''QUERY_STRING'' s = None" "getenv ''CONTENT_LENGTH'' s = None" "get_data_vvpa s = None"
    "\<not> post_netgear_action s" "can_alloc s 1024"
  shows "\<exists>e t. main argv s = Halt (Exit (p_status (prog s ''netgear-setup.cgi'' e argv None (files s)))) t
    \<and> nv_lookup e ''REQUEST_METHOD'' = Some ''GET'' \<and> nv_lookup e ''QUERY_STRING'' = Some []
    \<and> stdout t = stdout s @ p_out (prog s ''netgear-setup.cgi'' e argv None (files s)) @ [CHR 0x0A]"
proof -
  let ?s = "s\<lparr>incoming_argv := argv, get_data := None\<rparr>"
  let ?e = "nv_update ''REQUEST_METHOD'' ''GET'' (nv_update ''QUERY_STRING'' [] (environ s))"
  have "make_query_string ?s = Ok []" using assms(3) by (simp add: make_query_string_def)
  from pass_plain [OF this _ _ _ refl refl, of False None None] assms(4,5)
  have "main argv s = Halt (Exit (p_status (prog s ''netgear-setup.cgi'' ?e argv None (files s))))
      (?s\<lparr>environ := ?e, files := p_files (prog s ''netgear-setup.cgi'' ?e argv None (files s)),
        stdout := stdout s @ p_out (prog s ''netgear-setup.cgi'' ?e argv None (files s)) @ [CHR 0x0A],
        log := log s @ p_err (prog s ''netgear-setup.cgi'' ?e argv None (files s))\<rparr>)"
    using assms(1,2) by (simp add: main_def get_post_data_def getenv_def Let_def)
  moreover have "nv_lookup ?e ''REQUEST_METHOD'' = Some ''GET''" "nv_lookup ?e ''QUERY_STRING'' = Some []"
    by (simp_all add: nv_lookup_update nv_okk_def)
  ultimately show ?thesis by auto
qed

theorem request_without_query_handed_over_witness:
  "\<exists>t. main [''setup.cgi''] (sample_page\<lparr>environ := [''HOME=/'']\<rparr>) = Halt (Exit 0) t
    \<and> stdout t = ''ok'' @ [CHR 0x0A]"
proof -
  have "\<not> post_netgear_action (sample_page\<lparr>environ := [''HOME=/'']\<rparr>)" by simp
  then show ?thesis
    using request_without_query_handed_over [of "sample_page\<lparr>environ := [''HOME=/'']\<rparr>" "[''setup.cgi'']"]
    by (auto simp: getenv_def nv_match_def strneq_def char_at_def)
qed

subsubsection \<open>A page that is served here\<close>

lemma core_info_frame:
  assumes "session_id s = Ok sid"
  shows "\<exists>d. core_info_to_render_data s = Ret () (s\<lparr>data_for_render_vvpa := d\<rparr>)"
  using assms by (auto simp: core_info_to_render_data_def add_render_data_def Let_def)

lemma session_id_frame [simp]: "session_id (s\<lparr>render_page_vars := a\<rparr>) = session_id s"
proof -
  have "fopen_r n (s\<lparr>render_page_vars := a\<rparr>) = fopen_r n s"
    "get_post_value v (s\<lparr>render_page_vars := a\<rparr>) = get_post_value v s"
    "get_get_value v (s\<lparr>render_page_vars := a\<rparr>) = get_get_value v s" for n v
    by (simp_all add: fopen_r_def get_post_value_def get_get_value_def)
  then show ?thesis by (simp only: session_id_def)
qed

lemma get_render_page_vars_empty:
  "get_render_page_vars [] s = Ret () (s\<lparr>render_page_vars := Some create_var_val_pair_plus_array\<rparr>)"
  by (simp add: get_render_page_vars_def get_page_vars_def page_lines.simps)

text \<open>
  A page without variables is answered with the header and its text, byte for byte, and
  the vendor's program does not run; the process then ends in cleanup, which frees the query
  string inside the environment.
\<close>

theorem static_page_served:
  assumes "length f \<le> 80" "fopen_r (''render-data/'' @ f) s = Some []" "fopen_r f s = Some t"
    "CHR ''@'' \<notin> set t" "CHR 0xFF \<notin> set t" "session_id s = Ok sid" "get_data s \<noteq> None"
  shows "\<exists>u. main_render (Some f) s = Halt (Crash Bad_free) u \<and> stdout u = stdout s @ content_header @ t
    \<and> files u = files s"
proof -
  let ?r = "s\<lparr>render_page_vars := Some create_var_val_pair_plus_array\<rparr>"
  obtain d where d: "core_info_to_render_data ?r = Ret () (?r\<lparr>data_for_render_vvpa := d\<rparr>)"
    using core_info_frame [of ?r sid] assms(6) by auto
  let ?u = "?r\<lparr>data_for_render_vvpa := d\<rparr>"
  have "fopen_r f ?u = Some t" using assms(3) by (simp add: fopen_r_def split: if_splits)
  with render_loop_text [OF assms(4,5), of "[]" "put_out content_header ?u"]
  have page: "render_page f ?u = Ret () (put_out (content_header @ t) ?u)" by (simp add: render_page_def)
  have "main_render (Some f) s = Halt (Crash Bad_free) (put_out (content_header @ t) ?u)"
    using assms(1,2,7) d page
    by (simp add: main_render_def cap_file_def page_description_def get_render_page_vars_empty cleanup_def put_out_def)
  then show ?thesis by (simp add: put_out_def)
qed

definition help_page :: page where
  "help_page = sample_page\<lparr>get_data := Some ''next_file=help.htm'',
     files := (files sample_page)(''render-data/help.htm'' := Some [], ''help.htm'' := Some ''<p>Help</p>''),
     can_read := (\<lambda>_. True)\<rparr>"

theorem static_page_served_witness:
  "\<exists>u. main_render (Some ''help.htm'') help_page = Halt (Crash Bad_free) u
    \<and> stdout u = content_header @ ''<p>Help</p>''"
proof -
  have no: "fopen_r ''/tmp/SessionFile'' help_page = None"
    by (simp add: fopen_r_def help_page_def sample_page_def nvcache.extend_def sample_cached_def nvram.extend_def sample_defs)
  then have "session_id help_page = Ok []"
    by (simp add: session_id_def get_post_value_def get_get_value_def find_value_from_var_def help_page_def)
  then show ?thesis
    using static_page_served [of "''help.htm''" help_page "''<p>Help</p>''" "[]"]
    by (auto simp: fopen_r_def help_page_def)
qed

subsubsection \<open>Handing over after an action\<close>

lemma update_or_add_put:
  "update_or_add_value_in_var_val_pair_array (Some a) (Some n) (Some v) True = Some (vvpa_put n v a)"
  by (auto simp: vvpa_put_def update_or_add_value_in_var_val_pair_array_def split: option.split)

lemma set_get_value_lookup:
  assumes "get_data_vvpa s = Some a" "vvpa_inv a"
  shows "get_get_value (Some k) (set_get_value (Some n) (Some v) s) = (if k = n then Some v else get_get_value (Some k) s)"
    "get_post_value k' (set_get_value (Some n) (Some v) s) = get_post_value k' s"
proof -
  show "get_get_value (Some k) (set_get_value (Some n) (Some v) s) = (if k = n then Some v else get_get_value (Some k) s)"
    using assms vvpa_kv.lookup_update [of a n v k]
    by (simp add: get_get_value_def set_get_value_def update_or_add_put flip: vvpa_lookup_def)
  show "get_post_value k' (set_get_value (Some n) (Some v) s) = get_post_value k' s"
    by (simp add: get_post_value_def set_get_value_def)
qed

text \<open>
  After a save the request is handed over as an ordinary request for the next page; but
  where the next page was named in the query string itself, its name is used after it has
  been freed.
\<close>

theorem handover_after_save:
  assumes "get_data_vvpa s = Some a" "vvpa_inv a"
  shows "if next_file_in_get s
    then \<exists>t. main_handover ACTION_SAVE ACTION_SAVE this (Some f) s = Halt (Crash Use_after_free) t
    else \<exists>t. main_handover ACTION_SAVE ACTION_SAVE this (Some f) s = pass_to_netgear_setup_and_exit this (Some f) False t
      \<and> get_get_value (Some ''todo'') t = Some ''cfg_init'' \<and> get_get_value (Some ''next_file'') t = Some f"
proof -
  let ?t = "set_get_value (Some ''todo'') (Some ''cfg_init'') s"
  let ?u = "set_get_value (Some ''next_file'') (Some f) ?t"
  have in_get: "next_file_in_get ?t = next_file_in_get s"
    by (simp add: next_file_in_get_def set_get_value_lookup [OF assms] page_var_hidden_prefix_def)
  have t: "get_data_vvpa ?t = Some (vvpa_put ''todo'' ''cfg_init'' a)" "vvpa_inv (vvpa_put ''todo'' ''cfg_init'' a)"
    using assms by (simp_all add: set_get_value_def update_or_add_put vvpa_kv.invar_update)
  have "get_get_value (Some ''todo'') ?u = Some ''cfg_init''" "get_get_value (Some ''next_file'') ?u = Some f"
    by (simp_all add: set_get_value_lookup [OF t] set_get_value_lookup [OF assms])
  with in_get show ?thesis by (auto simp: main_handover_def Let_def)
qed

theorem handover_after_save_witness:
  "\<exists>t. main_handover ACTION_SAVE ACTION_SAVE (Some ''a.htm'') (Some ''b.htm'')
      (sample_page\<lparr>get_data_vvpa := Some (fold vvpa_push [pair_of (''next_file'', ''b.htm'')] create_var_val_pair_array)\<rparr>)
    = Halt (Crash Use_after_free) t"
proof -
  let ?a = "fold vvpa_push [pair_of (''next_file'', ''b.htm'')] create_var_val_pair_array"
  let ?s = "sample_page\<lparr>get_data_vvpa := Some ?a\<rparr>"
  have "vvpa_lookup ?a k = (if k = ''next_file'' then Some ''b.htm'' else None)" for k
    using two_pairs [of "[pair_of (''next_file'', ''b.htm'')]"]
    by (auto simp: vvpa_lookup_list pair_of_def create_var_val_pair_def)
  then have "next_file_in_get ?s"
    by (simp add: next_file_in_get_def get_get_value_def get_post_value_def page_var_hidden_prefix_def
        find_value_from_var_def [of None] flip: vvpa_lookup_def)
  then show ?thesis
    using handover_after_save [of ?s ?a "Some ''a.htm''" "''b.htm''"] two_pairs(1) [of "[pair_of (''next_file'', ''b.htm'')]"]
    by simp
qed

end
