(* ===== verification/Page_Show.thy ===== *)
theory Page_Show
  imports Page_Form Page_Main
begin

section \<open>A page from the store to the browser\<close>

text \<open>
  The way of the settings onto a page: \<^verbatim>\<open>main\<close> reads the description of the page, fetches the
  NVRAM variables it names into the cache and renders the page with their values. Like
  \<open>Page_Form\<close> this theory holds no definitions of the program; it composes the operations of
  \<open>Page_Vars\<close>, \<open>Cache_Sync\<close>, \<open>Page_Render\<close> and \<open>Page_Main\<close> for pages with text fields, and puts
  saving and showing together.
\<close>

subsection \<open>Templates\<close>

text \<open>A page: pieces of text, each followed by a field, and the rest.\<close>

definition template :: "(string \<times> string) list \<Rightarrow> string \<Rightarrow> string" where
  "template ps rest = concat (map (\<lambda>(t, n). t @ ''@'' @ n @ ''#'') ps) @ rest"

definition filled :: "(string \<Rightarrow> cptr) \<Rightarrow> (string \<times> string) list \<Rightarrow> string \<Rightarrow> string" where
  "filled val ps rest = concat (map (\<lambda>(t, n). t @ (case val n of None \<Rightarrow> [] | Some v \<Rightarrow> v)) ps) @ rest"

definition plain_page_text :: "string \<Rightarrow> bool" where
  "plain_page_text t \<longleftrightarrow> CHR ''@'' \<notin> set t \<and> CHR 0xFF \<notin> set t"

definition field_name :: "string \<Rightarrow> bool" where
  "field_name n \<longleftrightarrow> length n < 127 \<and> is_cstr n \<and> \<not> is_hidden_page_var n
     \<and> (\<forall>c\<in>set n. c \<noteq> CHR ''@'' \<and> c \<noteq> CHR ''#'' \<and> c \<noteq> CHR 0xFF)"

definition template_ok :: "string set \<Rightarrow> (string \<times> string) list \<Rightarrow> string \<Rightarrow> bool" where
  "template_ok ns ps rest \<longleftrightarrow> plain_page_text rest
     \<and> list_all (\<lambda>(t, n). plain_page_text t \<and> field_name n \<and> n \<in> ns) ps"

lemma render_template:
  assumes "template_ok ns ps rest"
    and var: "\<And>n out. n \<in> ns \<Longrightarrow> render_page_variable_to_stdout n (put_out out s) = Ret () (put_opt (val n) (put_out out s))"
  shows "render_loop (template ps rest) False [] (put_out out s) = Ret () (put_out (out @ filled val ps rest) s)"
  using assms(1)
proof (induction ps arbitrary: out)
  case Nil
  then have "CHR ''@'' \<notin> set rest" "CHR 0xFF \<notin> set rest" by (simp_all add: template_ok_def plain_page_text_def)
  from render_loop_text [OF this, of "[]" "put_out out s"] show ?case by (simp add: template_def filled_def)
next
  case (Cons p ps)
  obtain t n where p: "p = (t, n)" by (cases p)
  from Cons.prems p have t: "CHR ''@'' \<notin> set t" "CHR 0xFF \<notin> set t" and n: "field_name n" "n \<in> ns"
    and ok: "template_ok ns ps rest" by (simp_all add: template_ok_def plain_page_text_def)
  let ?v = "case val n of None \<Rightarrow> [] | Some v \<Rightarrow> v"
  have nm: "\<forall>c\<in>set n. c \<noteq> CHR ''@'' \<and> c \<noteq> CHR ''#'' \<and> c \<noteq> CHR 0xFF" "length ([]::string) + length n < 127"
    "is_cstr n" "\<not> is_hidden_page_var n"
    using n(1) by (simp_all add: field_name_def)
  have "template (p # ps) rest = t @ CHR ''@'' # n @ CHR ''#'' # template ps rest" by (simp add: template_def p)
  then have "render_loop (template (p # ps) rest) False [] (put_out out s) =
      sbind (render_page_variable_to_stdout n (put_out (out @ t) s)) (\<lambda>_ s. render_loop (template ps rest) False [] s)"
    using nm by (simp add: render_loop_text [OF t] render_loop_name [OF nm(1,2)] Let_def)
  also have "\<dots> = render_loop (template ps rest) False [] (put_out ((out @ t) @ ?v) s)"
    using var [OF n(2), of "out @ t"] by (simp add: put_opt_def put_out_def split: option.split)
  also have "\<dots> = Ret () (put_out (((out @ t) @ ?v) @ filled val ps rest) s)" by (rule Cons.IH [OF ok])
  finally show ?case by (simp add: filled_def p)
qed

subsection \<open>Fields\<close>

text \<open>No value for the name comes with the request or from the core information.\<close>

definition unsent :: "string \<Rightarrow> 'z page_scheme \<Rightarrow> bool" where
  "unsent n s \<longleftrightarrow> incoming_value (Some n) s = None"

lemma get_get_or_post_value_cong:
  "get_data_vvpa t = get_data_vvpa s \<Longrightarrow> post_data_vvpa t = post_data_vvpa s \<Longrightarrow>
   get_get_or_post_value v t = get_get_or_post_value v s"
  by (simp only: get_get_or_post_value_def get_get_value_def get_post_value_def)

lemma unsent_put_out [simp]: "unsent n (put_out out s) = unsent n s"
  using get_get_or_post_value_cong [of "put_out out s" s "Some n"]
  by (simp add: unsent_def incoming_value_def put_out_def split: option.split)

lemma text_plus_fields:
  "pp_value (text_plus f) = Some (snd f)" "pp_type (text_plus f) = VVPP_TYPE_TEXT" "has_flag (text_plus f) k = False"
  by (simp_all add: text_plus_def create_var_val_pair_plus_def has_flag_def VVPP_HAS_NO_EXTRAS_def)

lemma field_shown:
  assumes b: "vvppa_inv b" "vvppa_list b = map text_plus fs" "distinct (map fst fs)"
    and s: "render_page_vars s = Some b" "text_cache s" "nc s \<noteq> None" "cache_shows es ds s" "snd f \<in> cached_names s"
    and f: "f \<in> set fs" "snd f \<noteq> []" "unsent (fst f) s" "unsent (snd f) s"
  shows "render_page_variable_to_stdout (fst f) s = Ret () (put_opt (get_spec es ds (snd f)) s)"
proof -
  from described_index(2) [OF b f(1)] obtain i where
    i: "find_index_of_var_in_vvppa (Some b) (Some (fst f)) = Some i" "vvpps b ! i = Some (text_plus f)" by blast
  from s(3) obtain c where c: "nc s = Some c" "cache_of s = c" by (auto simp: cache_of_def)
  have ok: "cache_ok c" "nc_inv c" using s(2) c(2) by (auto simp: text_cache_def cached_def cache_ok_def)
  from s(5) c(2) obtain k where k: "k < length (nc_list c)" "ce_name (nc_list c ! k) = snd f"
    by (auto simp: cached_names_def in_set_conv_nth)
  then have e: "ce_type (nc_list c ! k) = NVRAM_ENTRY_TYPE_TEXT" "ce_value (nc_list c ! k) = get_spec es ds (snd f)"
    using s(2,4) c(2) by (auto simp: text_cache_def cache_shows_def)
  have "k < nc_num_used c" using k(1) nvc.used_elems [OF ok(2)] by simp
  from cached_text_get_set(1) [OF c(1) ok(1) this k(2) f(2) e(1)] e(2)
  have "get_value_from_nvram_cache (Some (snd f)) s = Ret (get_spec es ds (snd f)) s" by simp
  then have "render_entry (text_plus f) s = Ret () (put_opt (get_spec es ds (snd f)) s)"
    by (simp add: render_entry_def stored_value_def text_plus_fields shown_ip_def)
  with i s(1) f(3,4) show ?thesis
    by (simp add: render_page_variable_to_stdout_def unsent_def text_plus_fields)
qed

text \<open>The core information is three variables.\<close>

definition core_names :: "string set" where
  "core_names = {''post_par'', ''model_name'', ''parent_file''}"

lemma core_info_shows:
  assumes "session_id s = Ok sid" "data_for_render_vvpa s = None"
  obtains d where "core_info_to_render_data s = Ret () (s\<lparr>data_for_render_vvpa := Some d\<rparr>)"
    "\<And>k. k \<notin> core_names \<Longrightarrow> find_value_from_var (Some d) (Some k) = None"
proof -
  define z where "z = (case get_get_or_post_value (Some ''this_file'') s of Some v \<Rightarrow> v
    | None \<Rightarrow> (case get_get_or_post_value (Some ''next_file'') s of Some v \<Rightarrow> v | None \<Rightarrow> []))"
  define add where "add = (\<lambda>n v a. vvpa_push (create_var_val_pair (Some n) (Some v)) a)"
  let ?d = "add ''parent_file'' z (add ''model_name'' ''DGND3700v2'' (add ''post_par'' (''?id='' @ sid) create_var_val_pair_array))"
  have req: "get_get_or_post_value v (s\<lparr>data_for_render_vvpa := x\<rparr>) = get_get_or_post_value v s" for v x
    by (rule get_get_or_post_value_cong) simp_all
  have "core_info_to_render_data s = Ret () (s\<lparr>data_for_render_vvpa := Some ?d\<rparr>)"
    using assms by (simp add: core_info_to_render_data_def add_render_data_def addto_var_val_pair_array_def Let_def
        add_def z_def req cong: option.case_cong)
  moreover have inv: "vvpa_inv (add n v a)" "vvpa_list (add n v a) = vvpa_list a @ [create_var_val_pair (Some n) (Some v)]"
    if "vvpa_inv a" for n v a
    using vvpa.invar_add [OF that] vvpa.elems_add [OF that] by (simp_all add: add_def)
  then have "find_value_from_var (Some ?d) (Some k) = None" if "k \<notin> core_names" for k
    using that vvpa_lookup_list [of ?d k] by (auto simp: inv create_var_val_pair_def core_names_def simp flip: vvpa_lookup_def)
  ultimately show thesis by (rule that)
qed

text \<open>
  A request for the page \<open>pg\<close> with the source \<open>src\<close> and a description of the fields \<open>fs\<close>, none of
  which the request itself gives a value.
\<close>

definition page_request :: "string \<Rightarrow> (string \<times> string) list \<Rightarrow> string \<Rightarrow> 'z page_scheme \<Rightarrow> bool" where
  "page_request pg fs src s \<longleftrightarrow> length pg \<le> 80 \<and> pg \<noteq> NVRAM_TMP_PATH
     \<and> fopen_r (''render-data/'' @ pg) s = Some (concat (map text_line fs)) \<and> fopen_r pg s = Some src
     \<and> (case session_id s of Ok sid \<Rightarrow> True | Fault e \<Rightarrow> False) \<and> get_data s \<noteq> None \<and> data_for_render_vvpa s = None
     \<and> (\<forall>n\<in>fst ` set fs \<union> snd ` set fs. get_get_or_post_value (Some n) s = None \<and> n \<notin> core_names)"

text \<open>A page that can save, without scripts around the saving.\<close>

definition save_page :: "string \<Rightarrow> (string \<times> string) list \<Rightarrow> 'z page_scheme \<Rightarrow> bool" where
  "save_page pg fs s \<longleftrightarrow> length pg \<le> 80 \<and> fopen_r (''render-data/'' @ pg) s = Some (concat (map text_line fs))
     \<and> \<not> is_exec s (''save-actions/'' @ pg @ ''.pre'') \<and> \<not> is_exec s (''save-actions/'' @ pg @ ''.post'')"

lemma main_action_saves:
  assumes "save_page pg fs s" "get_action_page_vars (concat (map text_line fs)) s = Ret () t" "save_data t = Ret () u"
    "is_exec t = is_exec s" "is_exec u = is_exec s"
  shows "main_action ACTION_SAVE (Some pg) s = Ret (ACTION_SAVE, Some pg) u"
proof -
  have "do_pre_save_action (Some pg) t = Ret (- 1) t" "do_post_save_action (Some pg) u = Ret (- 1) u"
    using assms(1,4,5) by (simp_all add: save_page_def do_pre_save_action_def do_post_save_action_def do_named_action_def do_action_def)
  with assms show ?thesis by (simp add: main_action_def cap_file_def page_description_def save_page_def)
qed

lemma filled_cong:
  assumes "template_ok ns ps rest" "\<And>n. n \<in> ns \<Longrightarrow> f n = g n"
  shows "filled f ps rest = filled g ps rest"
  using assms by (induction ps) (auto simp: filled_def template_ok_def)

lemma served_page:
  assumes store: "nv_ready es ds s" "text_cache s" "cache_shows es ds s"
    and page: "list_all text_field fs" "distinct (map fst fs)" "\<forall>f\<in>set fs. text_value es ds (snd f)"
      "template_ok (fst ` set fs) ps rest"
    and request: "page_request pg fs (template ps rest) s"
  shows "\<exists>u. main_render (Some pg) s = Halt (Crash Bad_free) u
    \<and> stdout u = stdout s @ content_header @ filled (\<lambda>n. get_spec es ds (the (map_of fs n))) ps rest"
proof -
  from request obtain sid where rq: "length pg \<le> 80" "pg \<noteq> NVRAM_TMP_PATH"
    "fopen_r (''render-data/'' @ pg) s = Some (concat (map text_line fs))"
    "fopen_r pg s = Some (template ps rest)" "session_id s = Ok sid" "get_data s \<noteq> None" "data_for_render_vvpa s = None"
    "\<forall>n\<in>fst ` set fs \<union> snd ` set fs. get_get_or_post_value (Some n) s = None \<and> n \<notin> core_names"
    by (auto simp: page_request_def split: res.splits)
  from page_vars_text [OF store(1,2) page(1,3) vvppa_inv_create, of NVRAM_ENTRY_TYPE_UNKNOWN] store(3)
  obtain b r es' where
    r: "page_vars_loop (map text_line fs) NVRAM_ENTRY_TYPE_UNKNOWN create_var_val_pair_plus_array s = Ret b r"
      "vvppa_inv b" "vvppa_list b = map text_plus fs" "same_values ds es es'" "same_env s r"
      "text_cache r" "fs \<noteq> [] \<longrightarrow> nc r \<noteq> None" "cached_names r = cached_names s \<union> snd ` set fs" "cache_shows es' ds r"
    by (auto simp: vvppa_list_def create_var_val_pair_plus_array_def)
  let ?r = "r\<lparr>render_page_vars := Some b\<rparr>"
  have vars: "get_render_page_vars (concat (map text_line fs)) s = Ret () ?r"
    using r(1) by (simp add: get_render_page_vars_def get_page_vars_def page_lines_text [OF page(1)])
  from r(5) have env: "stdout ?r = stdout s" "get_data ?r = get_data s" "data_for_render_vvpa ?r = data_for_render_vvpa s"
    "get_data_vvpa ?r = get_data_vvpa s" "post_data_vvpa ?r = post_data_vvpa s" "can_read ?r = can_read s"
    "\<And>q. q \<noteq> NVRAM_TMP_PATH \<Longrightarrow> files ?r q = files s q"
    by (auto elim!: same_envE)
  have "fopen_r ''/tmp/SessionFile'' ?r = fopen_r ''/tmp/SessionFile'' s" "get_post_value v ?r = get_post_value v s"
    "get_get_value v ?r = get_get_value v s" for v
    using env by (simp_all add: fopen_r_def get_post_value_def get_get_value_def NVRAM_TMP_PATH_def)
  then have "session_id ?r = session_id s" by (simp only: session_id_def)
  with rq(5,7) env core_info_shows [of ?r sid] obtain d where
    d: "core_info_to_render_data ?r = Ret () (?r\<lparr>data_for_render_vvpa := Some d\<rparr>)"
      "\<And>k. k \<notin> core_names \<Longrightarrow> find_value_from_var (Some d) (Some k) = None" by metis
  let ?t = "?r\<lparr>data_for_render_vvpa := Some d\<rparr>" and ?val = "\<lambda>n. get_spec es ds (the (map_of fs n))"
  have un: "unsent n ?t" if "n \<in> fst ` set fs \<union> snd ` set fs" for n
    using rq(8) that d(2) get_get_or_post_value_cong [of ?t s "Some n"] env(4,5)
    by (simp add: unsent_def incoming_value_def)
  have co: "cache_of ?t = cache_of r" by (simp add: cache_of_def)
  have sh: "render_page_variable_to_stdout n (put_out out ?t) = Ret () (put_opt (?val n) (put_out out ?t))"
    if n: "n \<in> fst ` set fs" for n out
  proof -
    from n obtain f where f: "f \<in> set fs" "fst f = n" by auto
    then have m: "map_of fs n = Some (snd f)" using page(2) by auto
    have ok: "nv_okk (snd f)" "snd f \<noteq> []" using f(1) page(1) by (auto simp: list_all_iff text_field_def word_def)
    let ?o = "put_out out ?t"
    have co': "cache_of ?o = cache_of r" by (simp add: put_out_def cache_of_def)
    have "render_page_variable_to_stdout (fst f) ?o = Ret () (put_opt (get_spec es' ds (snd f)) ?o)"
    proof (rule field_shown [OF r(2,3) page(2)])
      show "render_page_vars ?o = Some b" "nc ?o \<noteq> None" using r(7) f(1) by (auto simp: put_out_def)
      show "text_cache ?o" "cache_shows es' ds ?o" "snd f \<in> cached_names ?o"
        using r(6,8,9) f(1) co' by (auto simp: text_cache_def cache_shows_def cached_names_def cached_def)
      show "unsent (fst f) ?o" "unsent (snd f) ?o" using un f(1) by auto
    qed (use f(1) ok(2) in simp_all)
    then show ?thesis using f(2) m ok(1) r(4) by (simp add: same_values_def)
  qed
  have "fopen_r pg ?t = Some (template ps rest)"
    using rq(2,4) env(6,7) by (simp add: fopen_r_def split: if_splits)
  with render_template [OF page(4) sh]
  have "render_page pg ?t = Ret () (put_out (content_header @ filled ?val ps rest) ?t)"
    by (simp add: render_page_def)
  then have "main_render (Some pg) s = Halt (Crash Bad_free) (put_out (content_header @ filled ?val ps rest) ?t)"
    using rq(1,3,6) vars d(1) env(2)
    by (simp add: main_render_def cap_file_def page_description_def cleanup_def put_out_def)
  then show ?thesis using env(1) by (simp add: put_out_def)
qed

subsection \<open>Properties\<close>

text \<open>
  C7. A described page is served with the stored settings: the answer is the header and the
  page in which every field stands replaced by the value nvram_get returns for the variable
  the description names (nothing, when there is none), everything else byte for byte; the
  process then ends in cleanup, which frees the query string inside the environment.
\<close>

theorem described_page_served:
  assumes store: "nv_ready es ds s" "text_cache s" "cache_shows es ds s"
    and page: "list_all text_field fs" "distinct (map fst fs)" "\<forall>f\<in>set fs. text_value es ds (snd f)"
      "template_ok (fst ` set fs) ps rest"
    and request: "page_request pg fs (template ps rest) s"
  shows "\<exists>u. main_render (Some pg) s = Halt (Crash Bad_free) u
    \<and> stdout u = stdout s @ content_header @ filled (\<lambda>n. get_spec es ds (the (map_of fs n))) ps rest"
  by (rule served_page [OF assms])

text \<open>
  C6. What a form saves is what the next page shows: the save request stores the submitted
  values of a described form, and a later process that finds this store and serves a
  described page answers with the submitted value in every field whose variable was
  submitted, and with the value from before the save in every other field.
\<close>

theorem saved_form_is_shown:
  fixes s :: "'y page_scheme" and es ds :: "string list"
  assumes first: "nv_ready es ds s" "can_write s NVRAM_PATH" "text_cache s" "save_page fpg fs s"
    and form_page: "fs \<noteq> []" "list_all text_field fs" "distinct (map fst fs)" "distinct (map snd fs)"
      "\<forall>f\<in>set fs. text_value es ds (snd f)"
    and form: "post_data_vvpa s = Some a" "vvpa_inv a" "vvpa_list a = map pair_of qs" "distinct (map fst qs)"
      "list_all (\<lambda>(n, x). \<not> is_hidden_page_var n \<and> plain_text x \<and> clean_cell x) qs"
    and page: "list_all text_field gs" "distinct (map fst gs)" "\<forall>g\<in>set gs. text_value es ds (snd g)"
      "template_ok (fst ` set gs) ps rest"
  shows "\<exists>u. main_action ACTION_SAVE (Some fpg) s = Ret (ACTION_SAVE, Some fpg) u
    \<and> (\<forall>(v :: 'z page_scheme) pg. env_ok NVRAM_TMP_PATH v \<and> env_ok NVRAM_DEFAULT v \<and> nc v = None
         \<and> files v NVRAM_TMP_PATH = files u NVRAM_TMP_PATH \<and> files v NVRAM_DEFAULT = files u NVRAM_DEFAULT
         \<and> page_request pg gs (template ps rest) v \<longrightarrow>
       (\<exists>w. main_render (Some pg) v = Halt (Crash Bad_free) w
         \<and> stdout w = stdout v @ content_header @ filled (\<lambda>n.
             case map_of (form_changes (map_of fs) qs) (the (map_of gs n)) of
               Some x \<Rightarrow> hide_deleted x
             | None \<Rightarrow> get_spec es ds (the (map_of gs n))) ps rest))"
proof -
  have "list_all (\<lambda>(n, x). \<not> is_hidden_page_var n \<and> plain_text x) qs" using form(5) by (auto simp: list_all_iff)
  from described_form_store [OF first(1-3) form_page form(1-4) this] obtain t u es' where
    u: "get_action_page_vars (concat (map text_line fs)) s = Ret () t" "save_data t = Ret () u" "nv_ready es' ds u"
      "is_exec t = is_exec s" "is_exec u = is_exec s" "\<And>name. nv_okk name \<Longrightarrow> get_spec es' ds name =
        (case map_of (form_changes (map_of fs) qs) name of Some x \<Rightarrow> hide_deleted x | None \<Rightarrow> get_spec es ds name)"
    by blast
  have clean: "clean_cell x" if "map_of (form_changes (map_of fs) qs) name = Some x" for name x
    using map_of_SomeD [OF that] form(5) by (auto simp: form_changes_def list_all_iff split: option.splits)
  have gok: "nv_okk (snd g)" if "g \<in> set gs" for g using page(1) that by (auto simp: list_all_iff text_field_def)
  then have tv: "\<forall>g\<in>set gs. text_value es' ds (snd g)"
    using page(3) clean by (auto simp: text_value_def u(6) hide_deleted_def split: option.splits if_splits)
  have "\<exists>w. main_render (Some pg) v = Halt (Crash Bad_free) w \<and> stdout w = stdout v @ content_header @
      filled (\<lambda>n. case map_of (form_changes (map_of fs) qs) (the (map_of gs n)) of
               Some x \<Rightarrow> hide_deleted x | None \<Rightarrow> get_spec es ds (the (map_of gs n))) ps rest"
    if v: "env_ok NVRAM_TMP_PATH v" "env_ok NVRAM_DEFAULT v" "nc v = None"
      "files v NVRAM_TMP_PATH = files u NVRAM_TMP_PATH" "files v NVRAM_DEFAULT = files u NVRAM_DEFAULT"
      "page_request pg gs (template ps rest) v"
    for v :: "'z page_scheme" and pg
  proof -
    have "nv_ready es' ds v" using u(3) v by (simp add: nv_ready_def stores_def)
    moreover have "text_cache v" "cache_shows es' ds v"
      using v(3) by (simp_all add: text_cache_def cached_def cache_shows_def cache_of_def nc_list_def)
    ultimately obtain w where w: "main_render (Some pg) v = Halt (Crash Bad_free) w"
      "stdout w = stdout v @ content_header @ filled (\<lambda>n. get_spec es' ds (the (map_of gs n))) ps rest"
      using served_page [OF _ _ _ page(1,2) tv page(4) v(6)] by blast
    have fc: "filled (\<lambda>n. get_spec es' ds (the (map_of gs n))) ps rest = filled (\<lambda>n.
        case map_of (form_changes (map_of fs) qs) (the (map_of gs n)) of
          Some x \<Rightarrow> hide_deleted x | None \<Rightarrow> get_spec es ds (the (map_of gs n))) ps rest"
    proof (rule filled_cong [OF page(4)])
      fix n
      assume "n \<in> fst ` set gs"
      then obtain g where g: "g \<in> set gs" "fst g = n" by auto
      then have "map_of gs n = Some (snd g)" using page(2) by auto
      then have m: "the (map_of gs n) = snd g" by simp
      show "get_spec es' ds (the (map_of gs n)) = (case map_of (form_changes (map_of fs) qs) (the (map_of gs n)) of
          Some x \<Rightarrow> hide_deleted x | None \<Rightarrow> get_spec es ds (the (map_of gs n)))"
        unfolding m by (rule u(6) [OF gok [OF g(1)]])
    qed
    from w(1) w(2) [unfolded fc] show ?thesis by blast
  qed
  with main_action_saves [OF first(4) u(1,2,4,5)] show ?thesis by blast
qed

definition wan_page :: page where
  "wan_page = sample_page\<lparr>nc := None, get_data := Some ''next_file=wan.htm'', can_read := (\<lambda>_. True),
     files := (files sample_page)(''render-data/wan.htm'' := Some (text_line (''mode'', ''wan_mode'')),
       ''wan.htm'' := Some (template [(''<b>'', ''mode'')] ''</b>''))\<rparr>"

lemma wan_page_facts:
  "nv_ready [''lan_if=br0'', ''wan_mode=1''] [''adblock_enable=0''] wan_page" "text_cache wan_page"
  "cache_shows es ds wan_page" "page_request ''wan.htm'' [(''mode'', ''wan_mode'')] (template [(''<b>'', ''mode'')] ''</b>'') wan_page"
  "nc wan_page = None" "stdout wan_page = []"
proof -
  show "nv_ready [''lan_if=br0'', ''wan_mode=1''] [''adblock_enable=0''] wan_page" "text_cache wan_page"
    "cache_shows es ds wan_page" "nc wan_page = None" "stdout wan_page = []"
    using sample_cached_ready
    by (simp_all add: wan_page_def sample_page_def nvcache.extend_def nv_ready_def env_ok_def stores_def NVRAM_TMP_PATH_def
        NVRAM_DEFAULT_def sample_cached_simps text_cache_def cached_def cache_of_def nc_list_def cache_shows_def)
  have "fopen_r ''/tmp/SessionFile'' wan_page = None"
    by (simp add: fopen_r_def wan_page_def sample_page_def nvcache.extend_def sample_cached_def nvram.extend_def sample_defs)
  then have "session_id wan_page = Ok []"
    by (simp add: session_id_def get_post_value_def get_get_value_def find_value_from_var_def wan_page_def)
  then show "page_request ''wan.htm'' [(''mode'', ''wan_mode'')] (template [(''<b>'', ''mode'')] ''</b>'') wan_page"
    by (simp add: page_request_def fopen_r_def wan_page_def core_names_def NVRAM_TMP_PATH_def get_get_or_post_value_def
        get_get_value_def get_post_value_def find_value_from_var_def)
qed

lemma wan_field:
  "list_all text_field [(''mode'', ''wan_mode'')]" "template_ok (fst ` set [(''mode'', ''wan_mode'')]) [(''<b>'', ''mode'')] ''</b>''"
  "\<forall>f\<in>set [(''mode'', ''wan_mode'')]. text_value [''lan_if=br0'', ''wan_mode=1''] [''adblock_enable=0''] (snd f)"
proof -
  have "\<not> is_hidden_page_var ''mode''"
    by (simp add: is_hidden_page_var_def strneq_def page_var_hidden_prefix_def PAGE_VAR_HIDDEN_PREFIX_LENGTH_def)
  then show "list_all text_field [(''mode'', ''wan_mode'')]"
    "template_ok (fst ` set [(''mode'', ''wan_mode'')]) [(''<b>'', ''mode'')] ''</b>''"
    by (simp_all add: text_field_def word_def isspace_def char_at_def nv_okk_def text_line_def template_ok_def
        plain_page_text_def field_name_def)
  show "\<forall>f\<in>set [(''mode'', ''wan_mode'')]. text_value [''lan_if=br0'', ''wan_mode=1''] [''adblock_enable=0''] (snd f)"
    by (simp add: text_value_def get_spec_def nv_match_def hide_deleted_def is_deleted_def strneq_def clean_cell_def)
qed

lemma wan_mode_stored:
  "get_spec [''lan_if=br0'', ''wan_mode=1''] [''adblock_enable=0''] ''wan_mode'' = Some ''1''"
  by (simp add: get_spec_def nv_match_def hide_deleted_def is_deleted_def strneq_def char_at_def)

theorem described_page_served_witness:
  "\<exists>u. main_render (Some ''wan.htm'') wan_page = Halt (Crash Bad_free) u \<and> stdout u = content_header @ ''<b>1</b>''"
proof -
  have "filled (\<lambda>n. get_spec [''lan_if=br0'', ''wan_mode=1''] [''adblock_enable=0'']
      (the (map_of [(''mode'', ''wan_mode'')] n))) [(''<b>'', ''mode'')] ''</b>'' = ''<b>1</b>''"
    using wan_mode_stored by (simp add: filled_def)
  with described_page_served [OF wan_page_facts(1-3) wan_field(1) _ wan_field(3,2) wan_page_facts(4)]
  show ?thesis by (simp add: wan_page_facts)
qed

definition later :: "page \<Rightarrow> page" where
  "later u = wan_page\<lparr>files := (files wan_page)(NVRAM_TMP_PATH := files u NVRAM_TMP_PATH, NVRAM_DEFAULT := files u NVRAM_DEFAULT)\<rparr>"

lemma later_facts:
  "env_ok NVRAM_TMP_PATH (later u)" "env_ok NVRAM_DEFAULT (later u)" "nc (later u) = None" "stdout (later u) = []"
  "files (later u) NVRAM_TMP_PATH = files u NVRAM_TMP_PATH" "files (later u) NVRAM_DEFAULT = files u NVRAM_DEFAULT"
  "page_request ''wan.htm'' [(''mode'', ''wan_mode'')] (template [(''<b>'', ''mode'')] ''</b>'') (later u)"
proof -
  show "env_ok NVRAM_TMP_PATH (later u)" "env_ok NVRAM_DEFAULT (later u)" "nc (later u) = None" "stdout (later u) = []"
    "files (later u) NVRAM_TMP_PATH = files u NVRAM_TMP_PATH" "files (later u) NVRAM_DEFAULT = files u NVRAM_DEFAULT"
    using wan_page_facts(1,5,6) by (simp_all add: later_def nv_ready_def env_ok_def NVRAM_TMP_PATH_def NVRAM_DEFAULT_def)
  have f: "fopen_r n (later u) = fopen_r n wan_page" if "n \<noteq> NVRAM_TMP_PATH" "n \<noteq> NVRAM_DEFAULT" for n
    using that by (simp add: fopen_r_def later_def)
  have g: "get_post_value n (later u) = get_post_value n wan_page" "get_get_value n (later u) = get_get_value n wan_page" for n
    by (simp_all add: get_post_value_def get_get_value_def later_def)
  have "fopen_r ''/tmp/SessionFile'' (later u) = fopen_r ''/tmp/SessionFile'' wan_page"
    by (rule f) (simp_all add: NVRAM_TMP_PATH_def NVRAM_DEFAULT_def)
  then have "session_id (later u) = session_id wan_page" by (simp only: session_id_def g)
  moreover have "get_get_or_post_value n (later u) = get_get_or_post_value n wan_page" for n
    by (rule get_get_or_post_value_cong) (simp_all add: later_def)
  moreover have "get_data (later u) = get_data wan_page" "data_for_render_vvpa (later u) = data_for_render_vvpa wan_page"
    by (simp_all add: later_def)
  ultimately show "page_request ''wan.htm'' [(''mode'', ''wan_mode'')] (template [(''<b>'', ''mode'')] ''</b>'') (later u)"
    using wan_page_facts(4) f [of "''wan.htm''"] f [of "''render-data/wan.htm''"]
    by (simp add: page_request_def NVRAM_TMP_PATH_def NVRAM_DEFAULT_def)
qed

definition form_request :: page where
  "form_request = sample_request\<lparr>can_read := (\<lambda>_. True), is_exec := (\<lambda>_. False),
     files := (files sample_request)(''render-data/wan.htm'' := Some (concat (map text_line sample_fields)))\<rparr>"

lemma form_request_facts:
  "nv_ready [''lan_if=br0'', ''wan_mode=1''] [''adblock_enable=0''] form_request" "can_write form_request NVRAM_PATH"
  "text_cache form_request" "save_page ''wan.htm'' sample_fields form_request"
  "post_data_vvpa form_request = Some (fold vvpa_push (map pair_of sample_values) create_var_val_pair_array)"
  using sample_request_facts
  by (simp_all add: form_request_def nv_ready_def env_ok_def stores_def NVRAM_TMP_PATH_def NVRAM_DEFAULT_def text_cache_def
      cached_def cache_of_def save_page_def fopen_r_def)

theorem saved_form_is_shown_witness:
  "\<exists>u w. main_action ACTION_SAVE (Some ''wan.htm'') form_request = Ret (ACTION_SAVE, Some ''wan.htm'') u
     \<and> main_render (Some ''wan.htm'') (later u) = Halt (Crash Bad_free) w \<and> stdout w = content_header @ ''<b>2</b>''"
proof -
  have qs: "list_all (\<lambda>(n, x). \<not> is_hidden_page_var n \<and> plain_text x \<and> clean_cell x) sample_values"
    using sample_form_facts(3) by (simp add: clean_cell_def)
  let ?val = "\<lambda>n. case map_of (form_changes (map_of sample_fields) sample_values) (the (map_of [(''mode'', ''wan_mode'')] n)) of
      Some x \<Rightarrow> hide_deleted x
    | None \<Rightarrow> get_spec [''lan_if=br0'', ''wan_mode=1''] [''adblock_enable=0''] (the (map_of [(''mode'', ''wan_mode'')] n))"
  have shown: "filled ?val [(''<b>'', ''mode'')] ''</b>'' = ''<b>2</b>''"
    by (simp add: filled_def form_changes_def hide_deleted_def is_deleted_def strneq_def)
  have d: "sample_fields \<noteq> []" "distinct (map fst sample_fields)" "distinct (map snd sample_fields)"
    "distinct (map fst sample_values)" "distinct (map fst [(''mode'', ''wan_mode'')])" by simp_all
  show ?thesis
    using saved_form_is_shown [where 'z = unit, OF form_request_facts(1-4) d(1) sample_form_facts(1) d(2,3) sample_form_facts(2)
        form_request_facts(5) two_pairs d(4) qs wan_field(1) d(5) wan_field(3,2)]
  proof (elim exE conjE, goal_cases)
    case (1 u)
    from 1(2) [rule_format, OF conjI [OF later_facts(1) conjI [OF later_facts(2) conjI [OF later_facts(3)
        conjI [OF later_facts(5) conjI [OF later_facts(6,7)]]]]]] obtain w where
      "main_render (Some ''wan.htm'') (later u) = Halt (Crash Bad_free) w"
      "stdout w = stdout (later u) @ content_header @ filled ?val [(''<b>'', ''mode'')] ''</b>''" by blast
    with 1(1) show ?case by (intro exI conjI) (assumption+, simp only: shown later_facts append_Nil)
  qed
qed

end
