(* ===== verification/Nvram_Util.thy ===== *)
theory Nvram_Util
  imports Nvram_Flash
begin

section \<open>The command line tool\<close>

text \<open>
  \<^verbatim>\<open>nvram-util.c\<close>: reading and setting NVRAM variables from scripts. Array variables are shown
  with a printable cell separator and one row to a line.
\<close>

subsection \<open>State and helpers\<close>

record util = nvram +
  u_out :: string
  u_err :: string

definition ARRAY_ROW_END_CHAR :: char where "ARRAY_ROW_END_CHAR = CHR 0x01"
definition ARRAY_CELL_END_CHAR :: char where "ARRAY_CELL_END_CHAR = CHR 0x02"

lemmas array_chars = ARRAY_ROW_END_CHAR_def ARRAY_CELL_END_CHAR_def

definition say :: "string \<Rightarrow> 'z util_scheme \<Rightarrow> 'z util_scheme" where
  "say t s = s\<lparr>u_out := u_out s @ t\<rparr>"

text \<open>\<^verbatim>\<open>%3d\<close> and \<^verbatim>\<open>%03d\<close>; in the second the zeros go between the sign and the digits.\<close>

definition pad_left :: "nat \<Rightarrow> char \<Rightarrow> string \<Rightarrow> string" where
  "pad_left w c t = replicate (w - length t) c @ t"

definition fmt_3d :: "int \<Rightarrow> string" where
  "fmt_3d i = pad_left 3 (CHR '' '') (show_int i)"

definition fmt_03d :: "int \<Rightarrow> string" where
  "fmt_03d i =
     (if i < 0 then CHR ''-'' # pad_left 2 (CHR ''0'') (show_nat (nat (- i))) else pad_left 3 (CHR ''0'') (show_int i))"

text \<open>The value of a signed \<^verbatim>\<open>char\<close>.\<close>

definition char_val :: "char \<Rightarrow> int" where
  "char_val c = (let n = int (of_char c) in if n < 128 then n else n - 256)"

definition dump_line :: "nat \<Rightarrow> char \<Rightarrow> string" where
  "dump_line i ch =
     (let c = char_val ch
      in ''['' @ fmt_3d (int i) @ ''] '' @ [CHR 0x27, if c < 32 \<or> 128 \<le> c then CHR ''@'' else ch, CHR 0x27]
         @ '' '' @ fmt_03d c @ [CHR 0x0A])"

definition dump_details :: "string \<Rightarrow> string" where
  "dump_details string = concat (map (\<lambda>i. dump_line i (string ! i)) [0..<length string])"

text \<open>The array is changed in place; a separator that is NUL ends the string for its reader.\<close>

definition make_array_readable :: "string \<Rightarrow> char \<Rightarrow> char \<Rightarrow> bytes" where
  "make_array_readable array comma endline =
     map (\<lambda>c. if c = ARRAY_CELL_END_CHAR then comma else if c = ARRAY_ROW_END_CHAR then endline else c) array"

text \<open>The loop of \<^verbatim>\<open>setarray\<close>.\<close>

definition make_array_stored :: "string \<Rightarrow> char \<Rightarrow> char \<Rightarrow> bytes" where
  "make_array_stored t comma endline =
     map (\<lambda>c. if c = comma then ARRAY_CELL_END_CHAR else if c = endline then ARRAY_ROW_END_CHAR else c) t"

definition exit_insufficient_args :: "'z util_scheme \<Rightarrow> ('a, 'z util_scheme) run" where
  "exit_insufficient_args s =
     Halt (Exit 0) (s\<lparr>u_err := u_err s @ ''Insufficient arguments.'' @ [CHR 0x0A]\<rparr>)"

subsection \<open>One row of an array\<close>

text \<open>\<^verbatim>\<open>strstr\<close>: the offset of the first occurrence.\<close>

fun strstr :: "string \<Rightarrow> string \<Rightarrow> nat option" where
  "strstr s p =
     (if take (length p) s = p then Some 0
      else (case s of [] \<Rightarrow> None | c # r \<Rightarrow> map_option Suc (strstr r p)))"

declare strstr.simps [simp del]

text \<open>\<^verbatim>\<open>while ((cp_found != result) && (*cp_found != '\n')) cp_found--\<close>.\<close>

fun row_back :: "bytes \<Rightarrow> nat \<Rightarrow> nat" where
  "row_back b 0 = 0"
| "row_back b (Suc i) = (if char_at b (Suc i) = CHR 0x0A then Suc i else row_back b i)"

definition row_around :: "bytes \<Rightarrow> nat \<Rightarrow> string" where
  "row_around result offset =
     (let row_end = offset + length (takeWhile (\<lambda>c. c \<noteq> NUL \<and> c \<noteq> CHR 0x0A) (drop offset result));
          b = result[row_end := NUL];
          start = row_back b offset;
          start = (if char_at b start = CHR 0x0A then Suc start else start)
      in c_trunc (drop start b))"

subsection \<open>The program\<close>

definition arg :: "string list \<Rightarrow> nat \<Rightarrow> cptr" where
  "arg argv i = (if i < length argv then Some (argv ! i) else None)"

definition util_get :: "string \<Rightarrow> 'z util_scheme \<Rightarrow> (unit, 'z util_scheme) run" where
  "util_get name s =
     sbind (nvram_get name s) (\<lambda>result s.
       Ret () (say ((case result of None \<Rightarrow> ''(null)'' | Some v \<Rightarrow> v) @ [CHR 0x0A]) s))"

definition util_set :: "string \<Rightarrow> cptr \<Rightarrow> 'z util_scheme \<Rightarrow> (unit, 'z util_scheme) run" where
  "util_set name v s =
     sbind (nvram_set name v s) (\<lambda>_ s. sbind (nvram_commit s) (\<lambda>_ s. Ret () s))"

definition util_examine :: "string \<Rightarrow> 'z util_scheme \<Rightarrow> (unit, 'z util_scheme) run" where
  "util_examine name s =
     sbind (nvram_get name s) (\<lambda>result s.
       Ret () (say (case result of None \<Rightarrow> ''(null)'' @ [CHR 0x0A] | Some v \<Rightarrow> dump_details v) s))"

definition util_getarray :: "string \<Rightarrow> char \<Rightarrow> 'z util_scheme \<Rightarrow> (unit, 'z util_scheme) run" where
  "util_getarray name comma s =
     sbind (nvram_get name s) (\<lambda>pre_result s.
       (case pre_result of
          None \<Rightarrow> Ret () s
        | Some v \<Rightarrow>
            if \<not> can_alloc s (length v + 1) then Ret () s
            else Ret () (say (c_trunc (make_array_readable v comma (CHR 0x0A)) @ [CHR 0x0A]) s)))"

text \<open>The copy is used without a check.\<close>

definition util_setarray ::
  "string \<Rightarrow> char \<Rightarrow> char \<Rightarrow> string \<Rightarrow> 'z util_scheme \<Rightarrow> (unit, 'z util_scheme) run" where
  "util_setarray name comma endline t s =
     (if \<not> can_alloc s (length t + 1) then Halt (Crash Null_deref) s
      else util_set name (Some (c_trunc (make_array_stored t comma endline))) s)"

definition util_grep_row :: "string \<Rightarrow> string \<Rightarrow> char \<Rightarrow> 'z util_scheme \<Rightarrow> (unit, 'z util_scheme) run" where
  "util_grep_row name pat comma s =
     sbind (nvram_get name s) (\<lambda>pre_result s.
       (case pre_result of
          None \<Rightarrow> Ret () s
        | Some v \<Rightarrow>
            (case strstr v pat of
               None \<Rightarrow> Ret () s
             | Some offset \<Rightarrow>
                 if \<not> can_alloc s (length v + 1) then Ret () s
                 else Ret () (say (row_around (make_array_readable v comma (CHR 0x0A)) offset @ [CHR 0x0A]) s))))"

definition util_main :: "string list \<Rightarrow> 'z util_scheme \<Rightarrow> (int, 'z util_scheme) run" where
  "util_main argv s =
     (if length argv < 3 then exit_insufficient_args s
      else
        let cmd = argv ! 1; name = argv ! 2
        in sbind (if cmd = ''get'' then util_get name s
                  else if cmd = ''set'' then util_set name (arg argv 3) s
                  else if cmd = ''examine'' then util_examine name s
                  else if cmd = ''getarray'' then
                    (if length argv < 4 then exit_insufficient_args s
                     else util_getarray name (char_at (argv ! 3) 0) s)
                  else if cmd = ''setarray'' then
                    (if length argv < 6 then exit_insufficient_args s
                     else util_setarray name (char_at (argv ! 3) 0) (char_at (argv ! 4) 0) (argv ! 5) s)
                  else if cmd = ''getarray-grep-row'' then
                    (if length argv < 5 then exit_insufficient_args s
                     else util_grep_row name (argv ! 3) (char_at (argv ! 4) 0) s)
                  else Ret () s) (\<lambda>_ s. Ret 1 s))"

subsection \<open>Lemmas\<close>

lemma readable_stored:
  assumes "ARRAY_CELL_END_CHAR \<notin> set t" "ARRAY_ROW_END_CHAR \<notin> set t"
  shows "make_array_readable (make_array_stored t comma endline) comma endline = t"
  using assms by (induction t) (auto simp: make_array_readable_def make_array_stored_def array_chars)

lemma stored_cstr: "is_cstr t \<Longrightarrow> is_cstr (make_array_stored t comma endline)"
  by (induction t) (auto simp: make_array_stored_def array_chars)

lemma readable_append [simp]:
  "make_array_readable (a @ b) comma endline = make_array_readable a comma endline @ make_array_readable b comma endline"
  "length (make_array_readable a comma endline) = length a"
  by (simp_all add: make_array_readable_def)

text \<open>Rows hold neither row separators nor line ends; with a printable separator their text has neither.\<close>

definition row_text :: "string \<Rightarrow> bool" where
  "row_text r \<longleftrightarrow> is_cstr r \<and> ARRAY_ROW_END_CHAR \<notin> set r \<and> CHR 0x0A \<notin> set r"

lemma readable_row:
  assumes "row_text r" "comma \<noteq> NUL" "comma \<noteq> CHR 0x0A"
  shows "\<forall>c\<in>set (make_array_readable r comma (CHR 0x0A)). c \<noteq> NUL \<and> c \<noteq> CHR 0x0A"
  using assms by (auto simp: row_text_def is_cstr_def make_array_readable_def)

lemma row_back_row:
  assumes "\<forall>c\<in>set x. c \<noteq> CHR 0x0A" "a = [] \<or> last a = CHR 0x0A" "char_at (a @ x @ r) (length (a @ x)) \<noteq> CHR 0x0A"
  shows "row_back (a @ x @ r) (length (a @ x)) = length a - 1"
  using assms
proof (induction x arbitrary: r rule: rev_induct)
  case Nil
  show ?case
  proof (cases a rule: rev_cases)
    case (snoc b c)
    with Nil show ?thesis
      by (cases "length b") (auto simp: char_at_def nth_append)
  qed (use Nil in simp)
next
  case (snoc c x)
  have "char_at (a @ x @ c # r) (length (a @ x)) = c" by (simp add: char_at_def nth_append)
  with snoc.prems have "char_at (a @ x @ c # r) (length (a @ x)) \<noteq> CHR 0x0A" by simp
  with snoc.IH [of "c # r"] snoc.prems
  show ?case by simp
qed

lemma c_trunc_NUL: "is_cstr t \<Longrightarrow> c_trunc (t @ NUL # r) = t"
  by (simp add: c_trunc_def)

lemma row_around_row:
  assumes xy: "\<forall>c\<in>set (x @ y). c \<noteq> NUL \<and> c \<noteq> CHR 0x0A" "y \<noteq> []"
    and a: "a = [] \<or> last a = CHR 0x0A" and b: "b = [] \<or> hd b = CHR 0x0A"
  shows "row_around (a @ x @ y @ b) (length (a @ x)) = x @ y"
proof -
  let ?z = "if b = [] then [] else NUL # List.tl b"
  let ?r = "a @ x @ y @ ?z"
  have "takeWhile (\<lambda>c. c \<noteq> NUL \<and> c \<noteq> CHR 0x0A) (y @ b) = y"
    using xy b by (cases b) (auto simp: takeWhile_append)
  then have e: "length (a @ x) + length (takeWhile (\<lambda>c. c \<noteq> NUL \<and> c \<noteq> CHR 0x0A) (drop (length (a @ x)) (a @ x @ y @ b)))
      = length (a @ x @ y)" by simp
  have u: "(a @ x @ y @ b)[length (a @ x @ y) := NUL] = ?r" using b by (cases b) (auto simp: list_update_append list_update_beyond)
  obtain c ys where y: "y = c # ys" using xy(2) by (cases y) auto
  have "row_back ?r (length (a @ x)) = length a - 1"
    using xy(1) a by (intro row_back_row) (auto simp: y char_at_def nth_append)
  moreover have "char_at ?r (length a - 1) = CHR 0x0A \<longleftrightarrow> a \<noteq> []"
  proof (cases a rule: rev_cases)
    case Nil
    then show ?thesis using xy(1) by (cases x) (auto simp: y char_at_def)
  qed (use a in \<open>auto simp: char_at_def nth_append\<close>)
  ultimately have start: "(let st = row_back ?r (length (a @ x)) in if char_at ?r st = CHR 0x0A then Suc st else st) = length a"
    by (cases "a = []") (auto simp: Let_def)
  have "is_cstr (x @ y)" using xy(1) by (auto simp: is_cstr_def)
  then have "c_trunc (drop (length a) ?r) = x @ y"
    using c_trunc_NUL [of "x @ y"] by auto
  then show ?thesis using start by (simp only: row_around_def e u Let_def)
qed

lemma say_out [simp]: "u_out (say t s) = u_out s @ t"
  by (simp add: say_def)

lemma same_but_out: "same_but path s t \<Longrightarrow> u_out t = u_out (s :: 'z util_scheme)"
  by (elim same_butE) simp

lemma same_but_alloc: "same_but path s t \<Longrightarrow> can_alloc t = can_alloc s"
  by (elim same_butE) simp

subsection \<open>Properties\<close>

text \<open>
  C35. getarray-grep-row prints exactly the row that holds the first occurrence of the pattern,
  with its cells separated by the given character.
\<close>

theorem grep_row_prints_row:
  assumes "nv_ready es ds s" "nv_okk name" "get_spec es ds name = Some (a @ x @ p @ y @ b)"
    "strstr (a @ x @ p @ y @ b) p = Some (length (a @ x))" "row_text (x @ p @ y)" "p \<noteq> []"
    "a = [] \<or> last a = ARRAY_ROW_END_CHAR" "b = [] \<or> hd b = ARRAY_ROW_END_CHAR" "comma \<noteq> NUL" "comma \<noteq> CHR 0x0A"
  shows "\<exists>t. util_main [prog, ''getarray-grep-row'', name, p, [comma]] s = Ret 1 t
    \<and> u_out t = u_out s @ make_array_readable (x @ p @ y) comma (CHR 0x0A) @ [CHR 0x0A]"
proof -
  let ?f = "\<lambda>t. make_array_readable t comma (CHR 0x0A)"
  from nvram_get_spec [OF assms(1,2)] obtain t where
    t: "nvram_get name s = Ret (Some (a @ x @ p @ y @ b)) t" "same_but NVRAM_TMP_PATH s t" using assms(3) by metis
  have al: "can_alloc t n" for n
    using same_but_alloc [OF t(2)] assms(1) by (simp add: nv_ready_def env_ok_def)
  have "\<forall>c\<in>set (?f x @ ?f (p @ y)). c \<noteq> NUL \<and> c \<noteq> CHR 0x0A"
    using readable_row [OF assms(5,9,10)] by simp
  moreover have "?f (p @ y) \<noteq> []" using assms(6) by (simp add: make_array_readable_def)
  moreover have "?f a = [] \<or> last (?f a) = CHR 0x0A" using assms(7) by (cases a rule: rev_cases) (auto simp: make_array_readable_def array_chars)
  moreover have "?f b = [] \<or> hd (?f b) = CHR 0x0A" using assms(8) by (cases b) (auto simp: make_array_readable_def array_chars)
  ultimately have "row_around (?f (a @ x @ p @ y @ b)) (length (a @ x)) = ?f (x @ p @ y)"
    using row_around_row [of "?f x" "?f (p @ y)" "?f a" "?f b"] by simp
  with t al assms(4) have "util_main [prog, ''getarray-grep-row'', name, p, [comma]] s =
      Ret 1 (say (?f (x @ p @ y) @ [CHR 0x0A]) t)"
    by (simp add: util_main_def util_grep_row_def Let_def char_at_def)
  then show ?thesis using same_but_out [OF t(2)] by simp
qed

text \<open>
  C34. A table written with setarray is what getarray prints, character for character, and
  both commands leave with status 1.
\<close>

theorem setarray_then_getarray:
  assumes "nv_ready es ds s" "nv_okk name" "is_cstr t" "ARRAY_CELL_END_CHAR \<notin> set t" "ARRAY_ROW_END_CHAR \<notin> set t"
    "\<not> is_deleted (make_array_stored t comma (CHR 0x0A))" "can_write s NVRAM_PATH"
  shows "\<exists>u v. util_main [prog, ''setarray'', name, [comma], [CHR 0x0A], t] s = Ret 1 u
    \<and> util_main [prog, ''getarray'', name, [comma]] u = Ret 1 v \<and> u_out v = u_out s @ t @ [CHR 0x0A]"
proof -
  let ?v = "make_array_stored t comma (CHR 0x0A)"
  have v: "is_cstr ?v" by (rule stored_cstr [OF assms(3)])
  from nvram_set_spec [OF assms(1,2) v] obtain s1 where
    s1: "nvram_set name (Some ?v) s = Ret 0 s1" "nv_ready (nv_update name ?v es) ds s1" "same_but NVRAM_TMP_PATH s s1"
    by metis
  have w: "can_write s1 NVRAM_PATH" using s1(3) assms(7) by (elim same_butE) simp
  from s1(2) obtain rest where f: "readFileBin_unlock NVRAM_TMP_PATH s1 = Some (nv_image (nv_update name ?v es) @ rest)"
    by (auto simp: nv_ready_def readFileBin_unlock_def env_ok_def elim: storesE)
  have "nv_image (nv_update name ?v es) @ rest \<noteq> []" by (simp add: nv_image_def)
  from commit_eq [OF f this w] obtain d h where
    c: "nvram_commit s1 = Ret NVRAM_SUCCESS (s1\<lparr>files := (files s1)(NVRAM_PATH \<mapsto> d),
      cwmp_signals := Suc (cwmp_signals s1), held := h\<rparr>)" by metis
  let ?u = "s1\<lparr>files := (files s1)(NVRAM_PATH \<mapsto> d), cwmp_signals := Suc (cwmp_signals s1), held := h\<rparr>"
  have "NVRAM_PATH \<noteq> NVRAM_TMP_PATH" "NVRAM_PATH \<noteq> NVRAM_DEFAULT"
    by (simp_all add: NVRAM_PATH_def NVRAM_TMP_PATH_def NVRAM_DEFAULT_def)
  then have ready: "nv_ready (nv_update name ?v es) ds ?u" using s1(2) by (simp add: nv_ready_def env_ok_def stores_def)
  have "get_spec (nv_update name ?v es) ds name = Some ?v"
    using assms(2,6) by (simp add: get_spec_def nv_lookup_update hide_deleted_def)
  with nvram_get_spec [OF ready assms(2)] obtain g where
    g: "nvram_get name ?u = Ret (Some ?v) g" "same_but NVRAM_TMP_PATH ?u g" by metis
  have al: "can_alloc s n" "can_alloc g n" for n
    using assms(1) ready same_but_alloc [OF g(2)] by (simp_all add: nv_ready_def env_ok_def)
  have set: "util_main [prog, ''setarray'', name, [comma], [CHR 0x0A], t] s = Ret 1 ?u"
    using s1(1) c al v by (simp add: util_main_def util_setarray_def util_set_def char_at_def)
  have "util_main [prog, ''getarray'', name, [comma]] ?u = Ret 1 (say (t @ [CHR 0x0A]) g)"
    using g(1) al readable_stored [OF assms(4,5), of comma "CHR 0x0A"] assms(3)
    by (simp add: util_main_def util_getarray_def char_at_def)
  with set show ?thesis using same_but_out [OF g(2)] same_but_out [OF s1(3)] by auto
qed

definition sample_util :: util where
  "sample_util = nvram.extend sample_nvram \<lparr>u_out = [], u_err = []\<rparr>"

lemma sample_util_ready: "nv_ready [''lan_if=br0'', ''wan_mode=1''] [''adblock_enable=0''] sample_util"
  using sample_ready
  by (simp add: sample_util_def nvram.extend_def nv_ready_def env_ok_def stores_def)

theorem setarray_then_getarray_witness:
  "\<exists>u v. util_main [''nvram-util'', ''setarray'', ''hosts'', '','', [CHR 0x0A], ''pc,1'' @ [CHR 0x0A] @ ''tv,2''] sample_util = Ret 1 u
    \<and> util_main [''nvram-util'', ''getarray'', ''hosts'', '',''] u = Ret 1 v
    \<and> u_out v = ''pc,1'' @ [CHR 0x0A] @ ''tv,2'' @ [CHR 0x0A]"
  using setarray_then_getarray [OF sample_util_ready, of "''hosts''" "''pc,1'' @ [CHR 0x0A] @ ''tv,2''" "CHR '',''" "''nvram-util''"]
  by (simp add: nv_okk_def array_chars is_deleted_def make_array_stored_def strneq_def sample_util_def nvram.extend_def sample_nvram_def)

theorem grep_row_prints_row_witness:
  "\<exists>s t. nvram_set ''hosts'' (Some (''pc'' @ [CHR 0x02] @ ''1'' @ [CHR 0x01] @ ''tv'' @ [CHR 0x02] @ ''2'' @ [CHR 0x01] @ ''ap'')) sample_util = Ret 0 s
    \<and> util_main [''nvram-util'', ''getarray-grep-row'', ''hosts'', ''v'', '',''] s = Ret 1 t \<and> u_out t = ''tv,2'' @ [CHR 0x0A]"
proof -
  let ?a = "''pc'' @ [CHR 0x02] @ ''1'' @ [CHR 0x01]" and ?y = "[CHR 0x02] @ ''2''" and ?b = "[CHR 0x01] @ ''ap''"
  let ?v = "?a @ ''t'' @ ''v'' @ ?y @ ?b" and ?es = "[''lan_if=br0'', ''wan_mode=1'']"
  have name: "nv_okk ''hosts''" and v: "is_cstr ?v" by (simp_all add: nv_okk_def)
  from nvram_set_spec [OF sample_util_ready name v] obtain s where
    s: "nvram_set ''hosts'' (Some ?v) sample_util = Ret 0 s" "nv_ready (nv_update ''hosts'' ?v ?es) [''adblock_enable=0''] s"
      "same_but NVRAM_TMP_PATH sample_util s"
    by metis
  have "get_spec (nv_update ''hosts'' ?v ?es) [''adblock_enable=0''] ''hosts'' = Some ?v"
    using name by (simp add: get_spec_def nv_lookup_update hide_deleted_def is_deleted_def strneq_def)
  with grep_row_prints_row [OF s(2) name, of ?a "''t''" "''v''" ?y ?b "CHR '',''" "''nvram-util''"]
  have "\<exists>t. util_main [''nvram-util'', ''getarray-grep-row'', ''hosts'', ''v'', '',''] s = Ret 1 t \<and> u_out t = u_out s @ ''tv,2'' @ [CHR 0x0A]"
    by (simp add: row_text_def array_chars strstr.simps make_array_readable_def)
  moreover have "u_out s = []" using same_but_out [OF s(3)] by (simp add: sample_util_def nvram.extend_def)
  ultimately show ?thesis using s(1) by auto
qed

text \<open>
  set without a value is not caught by the argument check and dereferences a NULL pointer.
\<close>

theorem set_without_value_crashes:
  "\<exists>t. util_main [prog, ''set'', name] s = Halt (Crash Null_deref) t \<and> files t = files s"
proof -
  have "short_path NVRAM_TMP_PATH" by (simp add: short_path_def NVRAM_TMP_PATH_def PATH_MAX_def)
  from with_lock_Halt [OF this, of "nvram_set_func_unlock name None NVRAM_TMP_PATH" s "Crash Null_deref" s]
  obtain h where "nvram_set name None s = Halt (Crash Null_deref) (s\<lparr>held := h\<rparr>)"
    by (auto simp: nvram_set_def nvram_set_func_def nvram_set_func_unlock_def)
  then show ?thesis by (simp add: util_main_def util_set_def arg_def)
qed

end
