(* ===== verification/Adblock_Httpd.thy ===== *)
theory Adblock_Httpd
  imports Prelude
begin

section \<open>The ad block web server\<close>

text \<open>
  \<^verbatim>\<open>adblock_httpd/httpd.c\<close>: a server that waits for the end of a request header, or for a
  second to pass, and answers every request with the same page. Messages to the log are
  compiled out (\<^verbatim>\<open>DEBUG_LEVEL\<close> is \<^verbatim>\<open>DEBUG_NONE\<close>) and are left out here.
\<close>

subsection \<open>State\<close>

text \<open>
  What the sockets do is input of the model. A call of \<^verbatim>\<open>recv\<close> for one byte delivers a byte,
  nothing yet (\<^verbatim>\<open>EAGAIN\<close>), the end of the stream or another error; the clock read after it
  comes with it. \<open>c_header\<close> holds the calls made up to some time while the header is waited for;
  \<open>c_rest\<close> gives the result of every later call, without end, as the loop that reads the rest of
  the request has no limit.
\<close>

datatype recv_result = Byte char | Again | Closed | Recv_error

record connection =
  c_fd :: int
  c_start :: int
  c_header :: "(recv_result \<times> int) list"
  c_send :: "string \<Rightarrow> int"
  c_rest :: "nat \<Rightarrow> int"

text \<open>
  \<open>sent\<close> and \<open>closed\<close> are the calls of \<^verbatim>\<open>send\<close> and \<^verbatim>\<open>close\<close> in order; the remaining fields are
  the results of the calls \<^verbatim>\<open>startup\<close> and \<^verbatim>\<open>main\<close> make.
\<close>

record httpd =
  server_sock :: int
  sent :: "(int \<times> string) list"
  closed :: "int list"
  sys_socket :: int
  sys_bind :: "nat \<Rightarrow> int"
  sys_getsockname :: "nat option"
  sys_listen :: int
  sys_daemon :: int

definition ADBLOCK_PORT :: nat where "ADBLOCK_PORT = 8105"

definition HTTP_HEADER :: string where
  "HTTP_HEADER = ''HTTP/1.0 200 OK'' @ [CHR 0x0D, CHR 0x0A] @ ''Server: ab_httpd/0.0.1'' @ [CHR 0x0D, CHR 0x0A]
     @ ''Content-Type: text/html'' @ [CHR 0x0D, CHR 0x0A, CHR 0x0D, CHR 0x0A]"

definition HTTP_MESSAGE :: string where
  "HTTP_MESSAGE = ''<!DOCTYPE html PUBLIC '' @ [CHR 0x27] @ ''-//W3C//DTD HTML 4.01//EN'' @ [CHR 0x27] @ '' ''
     @ [CHR 0x27] @ ''http://www.w3.org/TR/html4/strict.dtd'' @ [CHR 0x27] @ ''><html lang='' @ [CHR 0x27] @ ''en''
     @ [CHR 0x27] @ ''><head><meta http-equiv='' @ [CHR 0x27] @ ''content-type'' @ [CHR 0x27] @ '' content=''
     @ [CHR 0x27] @ ''text/html; charset=utf-8'' @ [CHR 0x27]
     @ ''><title>Ad blocked</title></head><body>Ad blocked :-)</body></html>''"

definition close_fd :: "int \<Rightarrow> 'z httpd_scheme \<Rightarrow> 'z httpd_scheme" where
  "close_fd fd s = s\<lparr>closed := closed s @ [fd]\<rparr>"

definition send_all :: "connection \<Rightarrow> string \<Rightarrow> 'z httpd_scheme \<Rightarrow> int \<times> 'z httpd_scheme" where
  "send_all c t s = (c_send c t, s\<lparr>sent := sent s @ [(c_fd c, t)]\<rparr>)"

subsection \<open>The end of the header\<close>

text \<open>
  The two flags of the loop. A line feed after a carriage return does not clear
  \<^verbatim>\<open>last_was_r\<close>, and a carriage return does not clear \<^verbatim>\<open>last_was_rn\<close>.
\<close>

record header_flags =
  last_was_r :: bool
  last_was_rn :: bool
  loop_done :: bool

definition header_init :: header_flags where
  "header_init = \<lparr>last_was_r = False, last_was_rn = False, loop_done = False\<rparr>"

definition header_byte :: "char \<Rightarrow> header_flags \<Rightarrow> header_flags" where
  "header_byte c h =
     (if last_was_r h \<and> c = CHR 0x0A then
        (if last_was_rn h then h\<lparr>loop_done := True\<rparr> else h\<lparr>last_was_rn := True\<rparr>)
      else if c = CHR 0x0D then h\<lparr>last_was_r := True\<rparr>
      else h\<lparr>last_was_r := False, last_was_rn := False\<rparr>)"

text \<open>
  The loop: the clock has a resolution of a second, so \<^verbatim>\<open>difftime > 0.2\<close> is a difference of at
  least one. The results are \<open>Some False\<close> after an error of \<^verbatim>\<open>recv\<close>, \<open>Some True\<close> when the
  answer is due, and \<open>None\<close> when neither has happened at the end of the input given.
\<close>

fun header_loop :: "int \<Rightarrow> (recv_result \<times> int) list \<Rightarrow> header_flags \<Rightarrow> bool option" where
  "header_loop start [] h = None"
| "header_loop start ((r, now) # es) h =
     (if r = Recv_error then Some False
      else
        let h = (case r of Byte c \<Rightarrow> header_byte c h | _ \<Rightarrow> h);
            h = (if 1 \<le> now - start then h\<lparr>loop_done := True\<rparr> else h)
        in if loop_done h then Some True else header_loop start es h)"

subsection \<open>Serving\<close>

definition serve_file :: "connection \<Rightarrow> 'z httpd_scheme \<Rightarrow> 'z httpd_scheme" where
  "serve_file c s =
     (let (lc, s) = send_all c HTTP_HEADER s
      in if int (length HTTP_HEADER) \<noteq> lc then close_fd (c_fd c) s
         else
           let (lc, s) = send_all c HTTP_MESSAGE s
           in if int (length HTTP_MESSAGE) \<noteq> lc then close_fd (c_fd c) s else s)"

text \<open>
  The rest of the request is read away, at most 79 bytes at a time, until there is none: the
  result is the number of calls that delivered something, and \<open>None\<close> when they never stop doing so.
\<close>

partial_function (option) drain :: "(nat \<Rightarrow> int) \<Rightarrow> nat \<Rightarrow> nat option" where
  "drain rest k = (let numchars = rest k in if 0 < numchars then drain rest (Suc k) else Some k)"

text \<open>A request is \<open>None\<close> as long as it has not ended: it waits for the header, or reads for ever.\<close>

definition accept_request :: "connection \<Rightarrow> 'z httpd_scheme \<Rightarrow> 'z httpd_scheme option" where
  "accept_request c s =
     (case header_loop (c_start c) (c_header c) header_init of
        None \<Rightarrow> None
      | Some False \<Rightarrow> Some (close_fd (c_fd c) s)
      | Some True \<Rightarrow>
          let s = serve_file c s
          in (case drain (c_rest c) 0 of None \<Rightarrow> None | Some _ \<Rightarrow> Some (close_fd (c_fd c) s)))"

text \<open>
  \<^verbatim>\<open>cat\<close>, which nothing calls: a line is sent only when \<^verbatim>\<open>fgets\<close> did not run into the end of
  the file.
\<close>

function cat :: "bytes \<Rightarrow> string list" where
  "cat b =
     (let (line, rest) = fgets 1023 b
      in if length line < 1023 \<and> CHR 0x0A \<notin> set line then [] else c_trunc line # cat rest)"
  by pat_completeness auto
termination
proof (relation "measure length")
  fix b :: bytes and x line rest
  assume "x = fgets 1023 b" "(line, rest) = x" "\<not> (length line < 1023 \<and> CHR 0x0A \<notin> set line)"
  moreover from this have "b \<noteq> []" using fgets.simps(2) [of 1022] by auto
  ultimately show "(rest, b) \<in> measure length" using fgets_rest [of 1023 b] by (metis in_measure snd_conv zero_less_numeral)
qed simp

declare cat.simps [simp del]

subsection \<open>Starting and ending\<close>

definition error_die :: "'z httpd_scheme \<Rightarrow> ('a, 'z httpd_scheme) run" where
  "error_die s = Halt (Exit 1) (if server_sock s \<noteq> - 1 then close_fd (server_sock s) s else s)"

definition handle_kill :: "'z httpd_scheme \<Rightarrow> 'z httpd_scheme" where
  "handle_kill s = (if server_sock s \<noteq> - 1 then close_fd (server_sock s) s else s)"

definition startup :: "nat \<Rightarrow> 'z httpd_scheme \<Rightarrow> (int \<times> nat, 'z httpd_scheme) run" where
  "startup port s =
     (let httpd = sys_socket s
      in if httpd = - 1 then error_die s
         else if sys_bind s port < 0 then error_die s
         else
           sbind (if port = 0 then (case sys_getsockname s of None \<Rightarrow> error_die s | Some p \<Rightarrow> Ret p s) else Ret port s)
             (\<lambda>port s. if sys_listen s < 0 then error_die s else Ret (httpd, port) s))"

text \<open>
  The connections \<^verbatim>\<open>accept\<close> delivers, \<open>None\<close> standing for a failure. A connection whose
  request never ends keeps the server from every later one: the result is then \<open>None\<close>. The server
  waits for the next connection, with the state it has then, at the end of the list.
\<close>

fun main_loop :: "connection option list \<Rightarrow> 'z httpd_scheme \<Rightarrow> (unit, 'z httpd_scheme) run option" where
  "main_loop [] s = Some (Ret () s)"
| "main_loop (None # cs) s = Some (error_die s)"
| "main_loop (Some c # cs) s =
     (case accept_request c s of None \<Rightarrow> None | Some s \<Rightarrow> main_loop cs s)"

definition httpd_main :: "connection option list \<Rightarrow> 'z httpd_scheme \<Rightarrow> (unit, 'z httpd_scheme) run option" where
  "httpd_main cs s =
     (if sys_daemon s \<noteq> 0 then Some (error_die s)
      else (case startup ADBLOCK_PORT s of
              Halt e s \<Rightarrow> Some (Halt e s)
            | Ret (fd, port) s \<Rightarrow> main_loop cs (s\<lparr>server_sock := fd\<rparr>)))"

subsection \<open>Lemmas\<close>

text \<open>The flags after some bytes, or \<open>None\<close> when the end of the header was seen among them.\<close>

fun waits :: "string \<Rightarrow> header_flags \<Rightarrow> header_flags option" where
  "waits [] h = Some h"
| "waits (c # w) h = (if loop_done (header_byte c h) then None else waits w (header_byte c h))"

definition in_time :: "int \<Rightarrow> string \<Rightarrow> (recv_result \<times> int) list" where
  "in_time start w = map (\<lambda>c. (Byte c, start)) w"

lemma header_loop_waits: "header_loop start (in_time start w) h = (if waits w h = None then Some True else None)"
  by (induction w arbitrary: h) (auto simp: in_time_def Let_def)

lemma waits_append: "waits (u @ v) h = (case waits u h of None \<Rightarrow> None | Some g \<Rightarrow> waits v g)"
  by (induction u arbitrary: h) auto

definition ordinary :: "string \<Rightarrow> bool" where
  "ordinary l \<longleftrightarrow> l \<noteq> [] \<and> CHR 0x0D \<notin> set l \<and> CHR 0x0A \<notin> set l"

abbreviation CRLF :: string where "CRLF \<equiv> [CHR 0x0D, CHR 0x0A]"

abbreviation after_line :: header_flags where
  "after_line \<equiv> \<lparr>last_was_r = True, last_was_rn = True, loop_done = False\<rparr>"

lemma waits_ordinary: "ordinary l \<Longrightarrow> \<not> loop_done h \<Longrightarrow> waits l h = Some header_init"
proof (induction l arbitrary: h)
  case (Cons c l)
  then have "header_byte c h = header_init"
    by (cases h) (auto simp: ordinary_def header_byte_def header_init_def)
  with Cons show ?case by (cases "l = []") (auto simp: ordinary_def header_init_def)
qed (simp add: ordinary_def)

lemma waits_line: "ordinary l \<Longrightarrow> \<not> loop_done h \<Longrightarrow> waits (l @ CRLF) h = Some after_line"
  by (simp add: waits_append waits_ordinary) (simp add: header_byte_def header_init_def)

definition header_text :: "string list \<Rightarrow> string" where
  "header_text ls = concat (map (\<lambda>l. l @ CRLF) ls) @ CRLF"

lemma waits_lines:
  "ls \<noteq> [] \<Longrightarrow> \<forall>l\<in>set ls. ordinary l \<Longrightarrow> \<not> loop_done h \<Longrightarrow>
   waits (concat (map (\<lambda>l. l @ CRLF) ls)) h = Some after_line"
proof (induction ls arbitrary: h)
  case (Cons l ls)
  then have "waits (l @ CRLF) h = Some after_line" by (intro waits_line) auto
  then have "waits (concat (map (\<lambda>l. l @ CRLF) (l # ls))) h = waits (concat (map (\<lambda>l. l @ CRLF) ls)) after_line"
    using waits_append [of "l @ CRLF" "concat (map (\<lambda>l. l @ CRLF) ls)" h] by (simp del: waits.simps)
  with Cons show ?case by (cases "ls = []") (auto simp del: waits.simps(2))
qed simp

lemma waits_take: "waits w h \<noteq> None \<Longrightarrow> waits (take n w) h \<noteq> None"
  using waits_append [of "take n w" "drop n w" h] by (auto split: option.splits)

lemma closed_close [simp]: "closed (close_fd fd s) = closed s @ [fd]" "sent (close_fd fd s) = sent s"
  by (simp_all add: close_fd_def)

lemma serve_file_calls:
  "closed (serve_file c s) = closed s @
     (if c_send c HTTP_HEADER = int (length HTTP_HEADER) \<and> c_send c HTTP_MESSAGE = int (length HTTP_MESSAGE)
      then [] else [c_fd c])"
  "sent (serve_file c s) = sent s @ (c_fd c, HTTP_HEADER) #
     (if c_send c HTTP_HEADER = int (length HTTP_HEADER) then [(c_fd c, HTTP_MESSAGE)] else [])"
  by (simp_all add: serve_file_def send_all_def Let_def split: prod.split)

lemma header_loop_ends: "\<exists>(r, now)\<in>set es. st < now \<Longrightarrow> header_loop st es h \<noteq> None"
proof (induction es arbitrary: h)
  case (Cons e es)
  obtain r now where e: "e = (r, now)" by (cases e)
  from Cons show ?case by (cases "st < now") (auto simp: e Let_def)
qed simp

lemma drain_ends: "rest n \<le> 0 \<Longrightarrow> k \<le> n \<Longrightarrow> drain rest k \<noteq> None"
  by (induction "n - k" arbitrary: k) (subst drain.simps, auto simp: Let_def le_Suc_eq dest: le_neq_implies_less)+

lemma drain_stops: "drain rest k = Some n \<Longrightarrow> k \<le> n \<and> rest n \<le> 0"
proof (erule drain.raw_induct [rotated])
  fix f :: "(nat \<Rightarrow> int) \<Rightarrow> nat \<Rightarrow> nat option" and rest k n
  assume "\<And>rest k n. f rest k = Some n \<Longrightarrow> k \<le> n \<and> rest n \<le> 0"
    and "(let numchars = rest k in if 0 < numchars then f rest (Suc k) else Some k) = Some n"
  then show "k \<le> n \<and> rest n \<le> 0" by (fastforce simp: Let_def split: if_splits)
qed

lemma drain_ends_iff: "(\<exists>n. drain rest 0 = Some n) \<longleftrightarrow> (\<exists>k. rest k \<le> 0)"
  using drain_ends [of rest _ 0] drain_stops [of rest 0] by auto

subsection \<open>Properties\<close>

text \<open>
  C36. The end of a request header is found exactly: for a header of ordinary lines, each
  ended by carriage return and line feed, the loop goes on through every proper part of it
  and ends with the byte that completes the empty line.
\<close>

theorem header_answered_at_blank_line:
  assumes "ls \<noteq> []" "\<forall>l\<in>set ls. ordinary l"
  shows "header_loop start (in_time start (header_text ls)) header_init = Some True
    \<and> (\<forall>n < length (header_text ls). header_loop start (in_time start (take n (header_text ls))) header_init = None)"
proof -
  let ?c = "concat (map (\<lambda>l. l @ CRLF) ls)"
  have w: "waits ?c header_init = Some after_line"
    using assms by (intro waits_lines) (simp_all add: header_init_def)
  then have all: "waits (header_text ls) header_init = None"
    by (simp add: header_text_def waits_append header_byte_def)
  have but: "waits (?c @ [CHR 0x0D]) header_init \<noteq> None"
    using w by (simp add: waits_append header_byte_def)
  have "waits (take n (header_text ls)) header_init \<noteq> None" if "n < length (header_text ls)" for n
  proof -
    have "take n (header_text ls) = take n (?c @ [CHR 0x0D])"
      using that take_append [of n "?c @ [CHR 0x0D]" "[CHR 0x0A]"] by (simp add: header_text_def)
    with waits_take [OF but] show ?thesis by simp
  qed
  with all show ?thesis unfolding header_loop_waits by (metis (no_types, lifting))
qed

theorem header_answered_at_blank_line_witness:
  "header_loop 7 (in_time 7 (header_text [''GET / HTTP/1.0'', ''Host: ads''])) header_init = Some True
    \<and> header_loop 7 (in_time 7 (take 20 (header_text [''GET / HTTP/1.0'', ''Host: ads'']))) header_init = None"
proof -
  have "ordinary ''GET / HTTP/1.0''" "ordinary ''Host: ads''" by (simp_all add: ordinary_def)
  moreover have "20 < length (header_text [''GET / HTTP/1.0'', ''Host: ads''])" by (simp add: header_text_def)
  ultimately show ?thesis
    using header_answered_at_blank_line [of "[''GET / HTTP/1.0'', ''Host: ads'']" 7] by simp
qed

text \<open>
  C37. What bounds a request, and what does not. The wait for the header is over once the clock
  shows a later second, whatever the client sends. The connection is then closed, at once after an
  error of recv, else after the answer as soon as one read delivers nothing; but nothing limits
  these reads: for a client that keeps sending, the request never ends, and no later connection,
  nor a failure of accept, is ever handled.
\<close>

theorem request_ends_iff_client_stops:
  assumes "\<exists>(r, now)\<in>set (c_header c). c_start c < now"
  shows "header_loop (c_start c) (c_header c) header_init \<noteq> None
    \<and> (if header_loop (c_start c) (c_header c) header_init = Some False \<or> (\<exists>k. c_rest c k \<le> 0)
       then \<exists>t xs. accept_request c s = Some t \<and> closed t = closed s @ xs @ [c_fd c]
       else accept_request c s = None \<and> (\<forall>cs. main_loop (Some c # cs) s = None))"
proof -
  have "header_loop (c_start c) (c_header c) header_init \<noteq> None" using assms by (rule header_loop_ends)
  then obtain b where b: "header_loop (c_start c) (c_header c) header_init = Some b" by blast
  then show ?thesis
    by (cases b; cases "drain (c_rest c) 0")
      (auto simp: accept_request_def Let_def serve_file_calls drain_ends_iff [symmetric] split: if_splits)
qed

definition sample_connection :: connection where
  "sample_connection = \<lparr>c_fd = 5, c_start = 100, c_header = [(Byte (CHR 0x16), 100), (Again, 101)],
     c_send = (\<lambda>t. int (length t)), c_rest = (\<lambda>k. if k = 0 then 79 else if k = 1 then 12 else - 1)\<rparr>"

definition endless_connection :: connection where
  "endless_connection = sample_connection\<lparr>c_rest := (\<lambda>k. 79)\<rparr>"

definition sample_httpd :: httpd where
  "sample_httpd = \<lparr>server_sock = - 1, sent = [], closed = [], sys_socket = 3, sys_bind = (\<lambda>_. 0),
     sys_getsockname = None, sys_listen = 0, sys_daemon = 0\<rparr>"

lemma sample_connection_rest: "\<exists>k. c_rest sample_connection k \<le> 0"
  by (rule exI [of _ 2]) (simp add: sample_connection_def)

theorem request_ends_iff_client_stops_witness:
  "(\<exists>t xs. accept_request sample_connection sample_httpd = Some t \<and> closed t = xs @ [5])
   \<and> main_loop [Some endless_connection, Some sample_connection] sample_httpd = None"
proof -
  have "\<exists>(r, now)\<in>set (c_header sample_connection). c_start sample_connection < now"
    "\<exists>(r, now)\<in>set (c_header endless_connection). c_start endless_connection < now"
    "header_loop (c_start endless_connection) (c_header endless_connection) header_init = Some True"
    "\<nexists>k. c_rest endless_connection k \<le> 0"
    by (simp_all add: sample_connection_def endless_connection_def header_byte_def header_init_def)
  moreover have "closed sample_httpd = []" "c_fd sample_connection = 5"
    by (simp_all add: sample_httpd_def sample_connection_def)
  ultimately show ?thesis
    using request_ends_iff_client_stops [of sample_connection sample_httpd] sample_connection_rest
      request_ends_iff_client_stops [of endless_connection sample_httpd] by simp
qed

text \<open>
  A request whose header ends, or times out, is answered with the two fixed texts in this
  order and its connection is closed once; where a text could not be sent completely the
  connection is closed twice.
\<close>

theorem every_request_same_answer:
  assumes "header_loop (c_start c) (c_header c) header_init = Some True" "\<exists>k. c_rest c k \<le> 0"
  shows "\<exists>t. accept_request c s = Some t \<and>
    (if c_send c HTTP_HEADER = int (length HTTP_HEADER) \<and> c_send c HTTP_MESSAGE = int (length HTTP_MESSAGE)
     then sent t = sent s @ [(c_fd c, HTTP_HEADER), (c_fd c, HTTP_MESSAGE)] \<and> closed t = closed s @ [c_fd c]
     else closed t = closed s @ [c_fd c, c_fd c])"
  using assms unfolding drain_ends_iff [symmetric] by (auto simp: accept_request_def Let_def serve_file_calls)

theorem every_request_same_answer_witness:
  "\<exists>t. accept_request sample_connection sample_httpd = Some t
    \<and> sent t = [(5, HTTP_HEADER), (5, HTTP_MESSAGE)] \<and> closed t = [5]"
  using every_request_same_answer [of sample_connection sample_httpd] sample_connection_rest
  by (simp add: sample_connection_def sample_httpd_def header_byte_def header_init_def)

end
