(* ===== verification/Connect_Host_Port.thy ===== *)
theory Connect_Host_Port
  imports Prelude
begin

section \<open>Connecting to a host\<close>

text \<open>
  The corrected \<^verbatim>\<open>connecthostport.c\<close> of miniupnpc. In the configuration that is built
  (\<^verbatim>\<open>getaddrinfo\<close>) the name is prepared, resolved, and the addresses are tried in turn; with
  \<^verbatim>\<open>USE_GETHOSTBYNAME\<close> there is one address. Socket timeouts, where they are configured, have no
  effect but a message when they cannot be set.
\<close>

subsection \<open>Data\<close>

definition MAXHOSTNAMELEN :: nat where "MAXHOSTNAMELEN = 64"

datatype family = AF_INET | AF_INET6 | AF_OTHER

datatype errno = EINTR | EINPROGRESS | OTHER_ERRNO

record addrinfo =
  ai_family :: family
  ai_socktype :: int
  ai_protocol :: int
  ai_addr :: string
  sin6_scope_id :: nat

text \<open>
  What the calls made for one address return: \<^verbatim>\<open>socket\<close>; \<^verbatim>\<open>connect\<close> with \<^verbatim>\<open>errno\<close>; and for
  each turn of the waiting loop \<^verbatim>\<open>select\<close> with \<^verbatim>\<open>errno\<close>, and \<^verbatim>\<open>getsockopt\<close> with the pending
  error, 0 standing for none.
\<close>

record attempt =
  at_socket :: int
  at_connect :: "int \<times> errno"
  at_waits :: "((int \<times> errno) \<times> (int \<times> errno option)) list"

text \<open>
  The resolvers and the sockets are parameters (\<open>dest_attempt\<close> is the attempt for an address
  and a port, \<open>attempt_of\<close> the one for an entry of the list); \<open>opened\<close> and \<open>shut\<close> are the sockets that were
  opened and closed, in order, and \<open>freed\<close> counts \<^verbatim>\<open>freeaddrinfo\<close>.
\<close>

record net =
  gethostbyname :: "string \<Rightarrow> string option"
  dest_attempt :: "string \<Rightarrow> nat \<Rightarrow> attempt"
  getaddrinfo :: "string \<Rightarrow> string \<Rightarrow> int \<times> addrinfo list"
  attempt_of :: "addrinfo \<Rightarrow> attempt"
  opened :: "int list"
  shut :: "int list"
  freed :: nat

subsection \<open>The name\<close>

text \<open>
  An IPv6 literal in brackets: \<open>room\<close> characters are left in \<^verbatim>\<open>tmp_host\<close>. \<^verbatim>\<open>%25\<close> stands for a
  percent sign.
\<close>

function decode_literal :: "string \<Rightarrow> nat \<Rightarrow> string" where
  "decode_literal h room =
     (if h = [] \<or> hd h = CHR '']'' \<or> room = 0 then []
      else hd h # decode_literal (drop (if take 3 h = ''%25'' then 3 else 1) h) (room - 1))"
  by pat_completeness auto
termination
  by (relation "measure snd") auto

declare decode_literal.simps [simp del]

definition host_name :: "string \<Rightarrow> string" where
  "host_name host =
     (if char_at host 0 = CHR ''['' then decode_literal (tl host) MAXHOSTNAMELEN else take MAXHOSTNAMELEN host)"

subsection \<open>Connecting\<close>

text \<open>
  \<open>Some (Some n)\<close>: the loop ended with \<open>n\<close>; \<open>Some None\<close>: \<^verbatim>\<open>getsockopt\<close> failed; \<open>None\<close>: still
  waiting at the end of the input given.
\<close>

fun wait_connect :: "int \<Rightarrow> errno \<Rightarrow> ((int \<times> errno) \<times> (int \<times> errno option)) list \<Rightarrow> int option option" where
  "wait_connect n e es =
     (if n < 0 \<and> (e = EINTR \<or> e = EINPROGRESS) then
        (case es of
           [] \<Rightarrow> None
         | ((n', e'), (g, err)) # es \<Rightarrow>
             if n' = - 1 \<and> e' = EINTR then wait_connect n' e' es
             else if g < 0 then Some None
             else (case err of None \<Rightarrow> wait_connect n' e' es | Some e'' \<Rightarrow> wait_connect (- 1) e'' es))
      else Some (Some n))"

declare wait_connect.simps [simp del]

definition with_scope :: "nat \<Rightarrow> addrinfo \<Rightarrow> addrinfo" where
  "with_scope scope_id p =
     (if ai_family p = AF_INET6 \<and> 0 < scope_id then p\<lparr>sin6_scope_id := scope_id\<rparr> else p)"

datatype tried = Returned int | Left_loop int int

text \<open>
  The loop over the addresses; \<open>s\<close> and \<open>n\<close> are the variables of the function, and leaving the
  loop gives their last values.
\<close>

fun try_addrs :: "nat \<Rightarrow> addrinfo list \<Rightarrow> int \<Rightarrow> int \<Rightarrow> 'z net_scheme \<Rightarrow> (tried \<times> 'z net_scheme) option" where
  "try_addrs scope_id [] s n w = Some (Left_loop s n, w)"
| "try_addrs scope_id (p # ps) s n w =
     (let a = attempt_of w p; s = at_socket a
      in if s < 0 then try_addrs scope_id ps s n w
         else
           let a = attempt_of w (with_scope scope_id p);
               w = w\<lparr>opened := opened w @ [s]\<rparr>
           in (case wait_connect (fst (at_connect a)) (snd (at_connect a)) (at_waits a) of
                 None \<Rightarrow> None
               | Some None \<Rightarrow> Some (Returned (- 1), w\<lparr>shut := shut w @ [s], freed := Suc (freed w)\<rparr>)
               | Some (Some n) \<Rightarrow>
                   if n < 0 then try_addrs scope_id ps s n (w\<lparr>shut := shut w @ [s]\<rparr>)
                   else Some (Left_loop s n, w)))"

definition connecthostport :: "string \<Rightarrow> nat \<Rightarrow> nat \<Rightarrow> 'z net_scheme \<Rightarrow> (int \<times> 'z net_scheme) option" where
  "connecthostport host port scope_id w =
     (let tmp_host = host_name host;
          port_str = take 7 (show_nat (port mod 2 ^ 16));
          (n, ai) = getaddrinfo w tmp_host port_str
      in if n \<noteq> 0 then Some (- 1, w)
         else
           (case try_addrs scope_id ai (- 1) n w of
              None \<Rightarrow> None
            | Some (Returned r, w) \<Rightarrow> Some (r, w)
            | Some (Left_loop s n, w) \<Rightarrow>
                let w = w\<lparr>freed := Suc (freed w)\<rparr>
                in if s < 0 then Some (- 1, w) else if n < 0 then Some (- 1, w) else Some (s, w)))"

text \<open>The function with \<^verbatim>\<open>USE_GETHOSTBYNAME\<close>.\<close>

definition connecthostport_by_name :: "string \<Rightarrow> nat \<Rightarrow> 'z net_scheme \<Rightarrow> (int \<times> 'z net_scheme) option" where
  "connecthostport_by_name host port w =
     (case gethostbyname w host of
        None \<Rightarrow> Some (- 1, w)
      | Some h_addr \<Rightarrow>
          let a = dest_attempt w h_addr (port mod 2 ^ 16); s = at_socket a
          in if s < 0 then Some (- 1, w)
             else
               let w = w\<lparr>opened := opened w @ [s]\<rparr>
               in (case wait_connect (fst (at_connect a)) (snd (at_connect a)) (at_waits a) of
                     None \<Rightarrow> None
                   | Some None \<Rightarrow> Some (- 1, w\<lparr>shut := shut w @ [s]\<rparr>)
                   | Some (Some n) \<Rightarrow> if n < 0 then Some (- 1, w\<lparr>shut := shut w @ [s]\<rparr>) else Some (s, w)))"

subsection \<open>Lemmas\<close>

lemma decode_literal_length: "length (decode_literal h room) \<le> room"
proof (induction room arbitrary: h)
  case 0
  show ?case by (simp add: decode_literal.simps [of h 0])
next
  case (Suc room)
  then show ?case by (simp add: decode_literal.simps [of h "Suc room"])
qed

definition percent_encode :: "string \<Rightarrow> string" where
  "percent_encode a = concat (map (\<lambda>c. if c = CHR ''%'' then ''%25'' else [c]) a)"

lemma decode_literal_encode:
  "CHR '']'' \<notin> set a \<Longrightarrow> length a \<le> room \<Longrightarrow> decode_literal (percent_encode a @ CHR '']'' # r) room = a"
proof (induction a arbitrary: room)
  case Nil
  show ?case by (subst decode_literal.simps) (simp add: percent_encode_def)
next
  case (Cons c a)
  from Cons have "decode_literal (percent_encode a @ CHR '']'' # r) (room - 1) = a" by (intro Cons.IH) auto
  with Cons.prems show ?case by (subst decode_literal.simps) (auto simp: percent_encode_def)
qed

text \<open>
  The sockets opened since \<open>w\<close> are \<open>fds\<close>: all of them are closed again, except the one the
  loop leaves with when it has a connection. \<open>s\<close> and \<open>n\<close> are the variables before the loop.
\<close>

definition sockets_ok :: "'z net_scheme \<Rightarrow> int \<Rightarrow> int \<Rightarrow> tried \<Rightarrow> 'z net_scheme \<Rightarrow> bool" where
  "sockets_ok w s n r v \<longleftrightarrow>
     (\<exists>fds. opened v = opened w @ fds \<and>
        (case r of
           Returned x \<Rightarrow> x = - 1 \<and> shut v = shut w @ fds \<and> freed v = Suc (freed w)
         | Left_loop s' n' \<Rightarrow> freed v = freed w \<and>
             (0 \<le> s' \<and> 0 \<le> n' \<and> (\<exists>gs. fds = gs @ [s'] \<and> shut v = shut w @ gs)
              \<or> shut v = shut w @ fds \<and> (s' < 0 \<or> n' < 0 \<or> s' = s \<and> n' = n))))"

lemma sockets_ok_failed:
  assumes "sockets_ok (w\<lparr>opened := opened w @ [fd], shut := shut w @ [fd]\<rparr>) fd m r v" "m < 0"
  shows "sockets_ok w s n r v"
proof (cases r)
  case (Returned x)
  with assms show ?thesis by (auto simp: sockets_ok_def)
next
  case (Left_loop s' n')
  with assms obtain fds where o: "opened v = opened w @ fd # fds" and f: "freed v = freed w"
    and alt: "0 \<le> s' \<and> 0 \<le> n' \<and> (\<exists>gs. fds = gs @ [s'] \<and> shut v = shut w @ fd # gs)
      \<or> shut v = shut w @ fd # fds \<and> (s' < 0 \<or> n' < 0)"
    by (auto simp: sockets_ok_def)
  from alt have "0 \<le> s' \<and> 0 \<le> n' \<and> (\<exists>gs. fd # fds = gs @ [s'] \<and> shut v = shut w @ gs)
      \<or> shut v = shut w @ fd # fds \<and> (s' < 0 \<or> n' < 0)"
    by (metis append_Cons)
  with o f Left_loop show ?thesis unfolding sockets_ok_def by (intro exI [of _ "fd # fds"]) auto
qed

lemma sockets_ok_no_socket: "sockets_ok w fd n r v \<Longrightarrow> fd < 0 \<Longrightarrow> sockets_ok w s n r v"
  unfolding sockets_ok_def by (erule exE, intro exI) (auto split: tried.splits)

lemma try_addrs_sockets:
  "try_addrs scope_id ps s n w = Some (r, v) \<Longrightarrow> sockets_ok w s n r v"
proof (induction ps arbitrary: s n w)
  case Nil
  then show ?case by (auto simp: sockets_ok_def)
next
  case (Cons p ps)
  let ?s = "at_socket (attempt_of w p)"
  let ?a = "attempt_of w (with_scope scope_id p)"
  let ?w = "w\<lparr>opened := opened w @ [?s]\<rparr>"
  show ?case
  proof (cases "?s < 0")
    case True
    with Cons.prems have "try_addrs scope_id ps ?s n w = Some (r, v)" by (simp add: Let_def)
    from sockets_ok_no_socket [OF Cons.IH [OF this] True] show ?thesis .
  next
    case False
    with Cons.prems consider
      "r = Returned (- 1)" "v = ?w\<lparr>shut := shut w @ [?s], freed := Suc (freed w)\<rparr>"
    | m where "m < 0" "try_addrs scope_id ps ?s m (?w\<lparr>shut := shut w @ [?s]\<rparr>) = Some (r, v)"
    | m where "0 \<le> m" "r = Left_loop ?s m" "v = ?w"
      by (auto simp: Let_def split: option.splits if_splits)
    then show ?thesis
    proof cases
      case 2
      have "sockets_ok (w\<lparr>opened := opened w @ [?s], shut := shut w @ [?s]\<rparr>) ?s m r v"
        using Cons.IH [OF 2(2)] by simp
      from this 2(1) show ?thesis by (rule sockets_ok_failed)
    qed (use False in \<open>auto simp: sockets_ok_def\<close>)
  qed
qed

subsection \<open>Properties\<close>

text \<open>
  C39. The name given to the resolver never overruns its array, and an IPv6 literal in
  brackets reaches the resolver as it was before its percent signs were encoded.
\<close>

theorem literal_host_decoded:
  assumes "CHR '']'' \<notin> set a" "length a \<le> MAXHOSTNAMELEN"
  shows "host_name (''['' @ percent_encode a @ '']'' @ r) = a \<and> (\<forall>host. length (host_name host) \<le> MAXHOSTNAMELEN)"
  using decode_literal_encode [OF assms, of r] decode_literal_length
  by (auto simp: host_name_def char_at_def)

theorem literal_host_decoded_witness:
  "host_name ''[fe80::1%25br0]:5000'' = ''fe80::1%br0'' \<and> (\<forall>host. length (host_name host) \<le> MAXHOSTNAMELEN)"
  using literal_host_decoded [of "''fe80::1%br0''" "'':5000''"]
  by (simp add: MAXHOSTNAMELEN_def percent_encode_def)

text \<open>
  C38. No socket leaks and the address list is freed: when the function returns a socket, every
  other socket it opened has been closed; when it returns an error, all of them have been;
  and the list the resolver gave is freed exactly once.
\<close>

theorem no_socket_leaks:
  assumes "connecthostport host port scope_id w = Some (r, v)"
  shows "\<exists>fds. opened v = opened w @ fds \<and>
    (if r = - 1 then shut v = shut w @ fds else 0 \<le> r \<and> fds \<noteq> [] \<and> last fds = r \<and> shut v = shut w @ butlast fds)
    \<and> freed v = freed w + (if fst (getaddrinfo w (host_name host) (take 7 (show_nat (port mod 2 ^ 16)))) = 0 then 1 else 0)"
proof -
  obtain n ai where g: "getaddrinfo w (host_name host) (take 7 (show_nat (port mod 2 ^ 16))) = (n, ai)" by fastforce
  show ?thesis
  proof (cases "n = 0")
    case False
    with assms g show ?thesis by (auto simp: connecthostport_def Let_def)
  next
    case True
    with assms g obtain q u where t: "try_addrs scope_id ai (- 1) 0 w = Some (q, u)"
      by (auto simp: connecthostport_def Let_def split: option.splits)
    with assms g True try_addrs_sockets [OF t] show ?thesis
      by (auto simp: connecthostport_def Let_def sockets_ok_def split: tried.splits if_splits)
  qed
qed

definition sample_net :: net where
  "sample_net =
     \<lparr>gethostbyname = (\<lambda>h. if h = ''localhost'' then Some ''127.0.0.1'' else None),
      dest_attempt = (\<lambda>a p. \<lparr>at_socket = 5, at_connect = (0, OTHER_ERRNO), at_waits = []\<rparr>),
      getaddrinfo = (\<lambda>h p. (0, [\<lparr>ai_family = AF_INET6, ai_socktype = 1, ai_protocol = 6, ai_addr = ''::1'', sin6_scope_id = 0\<rparr>,
        \<lparr>ai_family = AF_INET, ai_socktype = 1, ai_protocol = 6, ai_addr = ''127.0.0.1'', sin6_scope_id = 0\<rparr>])),
      attempt_of = (\<lambda>p. if ai_family p = AF_INET6
        then \<lparr>at_socket = 3, at_connect = (- 1, OTHER_ERRNO), at_waits = []\<rparr>
        else \<lparr>at_socket = 4, at_connect = (- 1, EINPROGRESS), at_waits = [((- 1, EINTR), (0, None)), ((1, EINTR), (0, None))]\<rparr>),
      opened = [], shut = [], freed = 0\<rparr>"

theorem no_socket_leaks_witness:
  "\<exists>v. connecthostport ''localhost'' 80 0 sample_net = Some (4, v) \<and> (\<exists>fds. opened v = fds \<and> last fds = 4 \<and> shut v = butlast fds)"
proof -
  have "\<exists>v. connecthostport ''localhost'' 80 0 sample_net = Some (4, v)"
    by (simp add: connecthostport_def sample_net_def with_scope_def wait_connect.simps)
  then obtain v where v: "connecthostport ''localhost'' 80 0 sample_net = Some (4, v)" ..
  from no_socket_leaks [OF v] have "\<exists>fds. opened v = fds \<and> last fds = 4 \<and> shut v = butlast fds"
    by (auto simp: sample_net_def)
  with v show ?thesis by blast
qed

text \<open>
  The same holds of the function with one address: the socket it opened is the one returned,
  or it is closed.
\<close>

theorem no_socket_leaks_by_name:
  assumes "connecthostport_by_name host port w = Some (r, v)"
  shows "if r = - 1 then \<exists>fds. opened v = opened w @ fds \<and> shut v = shut w @ fds
    else 0 \<le> r \<and> opened v = opened w @ [r] \<and> shut v = shut w"
  using assms by (auto simp: connecthostport_by_name_def Let_def split: option.splits if_splits)

theorem no_socket_leaks_by_name_witness:
  "\<exists>v. connecthostport_by_name ''localhost'' 80 sample_net = Some (5, v) \<and> opened v = [5] \<and> shut v = []"
proof -
  have "\<exists>v. connecthostport_by_name ''localhost'' 80 sample_net = Some (5, v)"
    by (simp add: connecthostport_by_name_def sample_net_def wait_connect.simps)
  then obtain v where v: "connecthostport_by_name ''localhost'' 80 sample_net = Some (5, v)" ..
  from no_socket_leaks_by_name [OF v] v show ?thesis by (auto simp: sample_net_def)
qed

end
