(* ===== verification/Send_Arp.thy ===== *)
theory Send_Arp
  imports Prelude
begin

unbundle bit_operations_syntax

section \<open>Announcing an address\<close>

text \<open>
  \<^verbatim>\<open>sendarp.c\<close>: an ARP request that announces the address of one interface is broadcast on
  another one. The router is big-endian, so \<^verbatim>\<open>htons\<close> is the identity.
\<close>

subsection \<open>The message\<close>

type_synonym u16 = "16 word"
type_synonym u8 = "8 word"

record arpMsg =
  h_dest :: "u8 list"
  h_source :: "u8 list"
  h_proto :: u16
  htype :: u16
  ptype :: u16
  hlen :: u8
  plen :: u8
  operation :: u16
  sHaddr :: "u8 list"
  sInaddr :: "u8 list"
  tHaddr :: "u8 list"
  tInaddr :: "u8 list"
  pad :: "u8 list"

definition u16_bytes :: "u16 \<Rightarrow> u8 list" where
  "u16_bytes w = [ucast (drop_bit 8 w), ucast w]"

text \<open>The structure in memory, without padding between its fields.\<close>

definition arp_bytes :: "arpMsg \<Rightarrow> u8 list" where
  "arp_bytes m = h_dest m @ h_source m @ u16_bytes (h_proto m) @ u16_bytes (htype m) @ u16_bytes (ptype m)
     @ [hlen m, plen m] @ u16_bytes (operation m) @ sHaddr m @ sInaddr m @ tHaddr m @ tInaddr m @ pad m"

definition MAC_BCAST_ADDR :: "u8 list" where "MAC_BCAST_ADDR = replicate 6 0xFF"
definition ETH_P_ARP :: u16 where "ETH_P_ARP = 0x0806"
definition ETH_P_IP :: u16 where "ETH_P_IP = 0x0800"
definition ARPHRD_ETHER :: u16 where "ARPHRD_ETHER = 1"
definition ARPOP_REQUEST :: u16 where "ARPOP_REQUEST = 1"
definition ARPOP_REPLY :: u16 where "ARPOP_REPLY = 2"

lemmas arp_consts = MAC_BCAST_ADDR_def ETH_P_ARP_def ETH_P_IP_def ARPHRD_ETHER_def ARPOP_REQUEST_def ARPOP_REPLY_def

text \<open>
  The four bytes of an address are fetched from the memory the address points at: the value
  is cast to a pointer. \<open>mem\<close> is the memory of the process, \<open>None\<close> where nothing is mapped.
\<close>

definition set_int_into_4uchar :: "(u32 \<Rightarrow> u8 option) \<Rightarrow> u32 \<Rightarrow> u8 list res" where
  "set_int_into_4uchar mem val =
     (case (mem val, mem (val + 1), mem (val + 2), mem (val + 3)) of
        (Some a, Some b, Some c, Some d) \<Rightarrow> Ok [a, b, c, d]
      | _ \<Rightarrow> Fault Oob_read)"

definition zero_msg :: arpMsg where
  "zero_msg = \<lparr>h_dest = replicate 6 0, h_source = replicate 6 0, h_proto = 0, htype = 0, ptype = 0, hlen = 0, plen = 0,
     operation = 0, sHaddr = replicate 6 0, sInaddr = replicate 4 0, tHaddr = replicate 6 0,
     tInaddr = replicate 4 0, pad = replicate 18 0\<rparr>"

definition mkArpMsg ::
  "(u32 \<Rightarrow> u8 option) \<Rightarrow> u16 \<Rightarrow> u32 \<Rightarrow> u8 list option \<Rightarrow> u32 \<Rightarrow> u8 list \<Rightarrow> arpMsg res" where
  "mkArpMsg mem opcode tIn tHa sIn sHa =
     rbind (set_int_into_4uchar mem sIn) (\<lambda>si.
     rbind (set_int_into_4uchar mem tIn) (\<lambda>ti.
       let msg = zero_msg\<lparr>h_dest := MAC_BCAST_ADDR, h_source := take 6 sHa, h_proto := ETH_P_ARP, htype := ARPHRD_ETHER,
             ptype := ETH_P_IP, hlen := 6, plen := 4, operation := opcode, sInaddr := si,
             sHaddr := take 6 sHa, tInaddr := ti\<rparr>
       in if opcode = ARPOP_REPLY
          then (case tHa of None \<Rightarrow> Fault Null_deref | Some ha \<Rightarrow> Ok (msg\<lparr>tHaddr := take 6 ha\<rparr>))
          else Ok msg))"

subsection \<open>Interfaces\<close>

text \<open>
  The interfaces of the router are a parameter: what the calls of \<^verbatim>\<open>ioctl\<close>, \<^verbatim>\<open>socket\<close> and
  \<^verbatim>\<open>bind\<close> deliver. \<open>open_socks\<close> counts the sockets that are open, \<open>arp_sent\<close> holds the packets
  sent with the interface they go to.
\<close>

record arp_sys =
  arp_mem :: "u32 \<Rightarrow> u8 option"
  can_socket :: bool
  if_addr :: "string \<Rightarrow> u32 option"
  if_hwaddr :: "string \<Rightarrow> u8 list option"
  if_index :: "string \<Rightarrow> int option"
  can_bind :: "int \<Rightarrow> bool"
  open_socks :: nat
  arp_sent :: "(int \<times> u8 list) list"

datatype infotype = IFIPADDR | IFHWADDR | IF_OTHER

datatype devinfo = Ip u32 | Hw "u8 list"

definition open_sock :: "'z arp_sys_scheme \<Rightarrow> 'z arp_sys_scheme" where
  "open_sock s = s\<lparr>open_socks := Suc (open_socks s)\<rparr>"

definition close_sock :: "'z arp_sys_scheme \<Rightarrow> 'z arp_sys_scheme" where
  "close_sock s = s\<lparr>open_socks := open_socks s - 1\<rparr>"

text \<open>\<^verbatim>\<open>ifr_name\<close> has 16 bytes. The result is \<open>None\<close> for a return value of -1.\<close>

definition getDevInfo :: "string \<Rightarrow> infotype \<Rightarrow> 'z arp_sys_scheme \<Rightarrow> (devinfo option, 'z arp_sys_scheme) run" where
  "getDevInfo devname infotype s =
     (if \<not> can_socket s then Ret None s
      else
        let s = open_sock s
        in if 16 \<le> length devname then Halt (Crash Oob_write) s
           else Ret (case infotype of
                       IFIPADDR \<Rightarrow> map_option Ip (if_addr s devname)
                     | IFHWADDR \<Rightarrow> map_option (\<lambda>a. Hw (take 6 a)) (if_hwaddr s devname)
                     | IF_OTHER \<Rightarrow> None) (close_sock s))"

definition broadcast_arp :: "string \<Rightarrow> u32 \<Rightarrow> u8 list \<Rightarrow> 'z arp_sys_scheme \<Rightarrow> (unit, 'z arp_sys_scheme) run" where
  "broadcast_arp destDev br_ipAddr br_macaddr s =
     (if \<not> can_socket s then Ret () s
      else
        let s = open_sock s
        in if 16 \<le> length destDev then Halt (Crash Oob_write) s
           else (case if_index s destDev of
                   None \<Rightarrow> Ret () (close_sock s)
                 | Some i \<Rightarrow>
                     if \<not> can_bind s i then Ret () (close_sock s)
                     else sbind (lift (mkArpMsg (arp_mem s) ARPOP_REQUEST br_ipAddr None br_ipAddr br_macaddr) s) (\<lambda>arp s.
                          Ret () (close_sock (s\<lparr>arp_sent := arp_sent s @ [(i, arp_bytes arp)]\<rparr>)))))"

definition sendArp :: "string \<Rightarrow> string \<Rightarrow> 'z arp_sys_scheme \<Rightarrow> (unit, 'z arp_sys_scheme) run" where
  "sendArp srcDev destDev s =
     sbind (getDevInfo srcDev IFIPADDR s) (\<lambda>ip s.
       (case ip of
          Some (Ip br_ipAddr) \<Rightarrow>
            sbind (getDevInfo srcDev IFHWADDR s) (\<lambda>hw s.
              (case hw of
                 Some (Hw br_macaddr) \<Rightarrow>
                   sbind (getDevInfo destDev IFHWADDR s) (\<lambda>eth s.
                     if eth = None then Ret () s else broadcast_arp destDev br_ipAddr br_macaddr s)
               | _ \<Rightarrow> Ret () s))
        | _ \<Rightarrow> Ret () s))"

subsection \<open>The command line\<close>

text \<open>
  \<^verbatim>\<open>getopt(argc, argv, "s:d:")\<close>, whose errors the loop ignores: \<open>cl\<close> is what is left of a
  group of option letters.
\<close>

function getopt_loop :: "string \<Rightarrow> string list \<Rightarrow> cptr \<times> cptr \<Rightarrow> cptr \<times> cptr" where
  "getopt_loop [] [] st = st"
| "getopt_loop [] (a # as) st =
     (if a = ''--'' then st
      else if char_at a 0 = CHR ''-'' \<and> 1 < length a then getopt_loop (tl a) as st
      else getopt_loop [] as st)"
| "getopt_loop (c # cl) as st =
     (if c = CHR ''s'' \<or> c = CHR ''d'' then
        let put = (\<lambda>v. if c = CHR ''s'' then (Some v, snd st) else (fst st, Some v))
        in if cl \<noteq> [] then getopt_loop [] as (put cl)
           else (case as of [] \<Rightarrow> st | v # as \<Rightarrow> getopt_loop [] as (put v))
      else getopt_loop cl as st)"
  by pat_completeness auto
termination
  by (relation "measure (\<lambda>(cl, as, st). length cl + sum_list (map (\<lambda>a. Suc (length a)) as))") auto

definition sendarp_main :: "string list \<Rightarrow> 'z arp_sys_scheme \<Rightarrow> (int, 'z arp_sys_scheme) run" where
  "sendarp_main argv s =
     (case getopt_loop [] (drop 1 argv) (None, None) of
        (Some srcdev, Some dstdev) \<Rightarrow> sbind (sendArp srcdev dstdev s) (\<lambda>_ s. Ret 0 s)
      | _ \<Rightarrow> Ret 0 s)"

subsection \<open>Lemmas\<close>

definition bytes_u16 :: "u8 list \<Rightarrow> u16" where
  "bytes_u16 b = push_bit 8 (ucast (b ! 0)) OR ucast (b ! 1)"

text \<open>Reading a message by the offsets of the protocol.\<close>

definition parse_arp :: "u8 list \<Rightarrow> arpMsg" where
  "parse_arp b = \<lparr>h_dest = take 6 b, h_source = take 6 (drop 6 b), h_proto = bytes_u16 (drop 12 b),
     htype = bytes_u16 (drop 14 b), ptype = bytes_u16 (drop 16 b), hlen = b ! 18, plen = b ! 19,
     operation = bytes_u16 (drop 20 b), sHaddr = take 6 (drop 22 b), sInaddr = take 4 (drop 28 b),
     tHaddr = take 6 (drop 32 b), tInaddr = take 4 (drop 38 b), pad = take 18 (drop 42 b)\<rparr>"

definition arp_shape :: "arpMsg \<Rightarrow> bool" where
  "arp_shape m \<longleftrightarrow> length (h_dest m) = 6 \<and> length (h_source m) = 6 \<and> length (sHaddr m) = 6 \<and> length (sInaddr m) = 4
     \<and> length (tHaddr m) = 6 \<and> length (tInaddr m) = 4 \<and> length (pad m) = 18"

lemma bytes_u16_bytes [simp]: "bytes_u16 (u16_bytes w @ r) = w"
proof (rule bit_word_eqI)
  fix n
  assume "n < LENGTH(16)"
  then show "bit (bytes_u16 (u16_bytes w @ r)) n = bit w n"
    by (auto simp: bytes_u16_def u16_bytes_def bit_simps)
qed

lemma length_u16_bytes [simp]: "length (u16_bytes w) = 2"
  by (simp add: u16_bytes_def)

lemma parse_arp_bytes: "arp_shape m \<Longrightarrow> parse_arp (arp_bytes m) = m \<and> length (arp_bytes m) = 60"
  by (simp add: arp_shape_def parse_arp_def arp_bytes_def nth_append)

lemma mkArpMsg_request:
  assumes "set_int_into_4uchar mem ip = Ok bs" "length hw = 6"
  shows "mkArpMsg mem ARPOP_REQUEST ip None ip hw = Ok (zero_msg\<lparr>h_dest := MAC_BCAST_ADDR, h_source := hw,
    h_proto := ETH_P_ARP, htype := ARPHRD_ETHER, ptype := ETH_P_IP, hlen := 6, plen := 4, operation := ARPOP_REQUEST,
    sInaddr := bs, sHaddr := hw, tInaddr := bs\<rparr>)"
  using assms by (simp add: mkArpMsg_def arp_consts)

lemma four_bytes: "set_int_into_4uchar mem ip = Ok bs \<Longrightarrow> length bs = 4"
  by (auto simp: set_int_into_4uchar_def split: option.splits)

text \<open>The interfaces a call needs, with the address \<open>ip\<close>, the hardware address \<open>hw\<close> and the index \<open>i\<close>.\<close>

definition usable_devs :: "string \<Rightarrow> string \<Rightarrow> u32 \<Rightarrow> u8 list \<Rightarrow> int \<Rightarrow> 'z arp_sys_scheme \<Rightarrow> bool" where
  "usable_devs src dst ip hw i s \<longleftrightarrow> can_socket s \<and> length src < 16 \<and> length dst < 16 \<and> if_addr s src = Some ip
     \<and> if_hwaddr s src = Some hw \<and> length hw = 6 \<and> if_hwaddr s dst \<noteq> None \<and> if_index s dst = Some i \<and> can_bind s i"

lemma sock_balance [simp]: "close_sock (open_sock s) = s"
  by (simp add: close_sock_def open_sock_def)

lemma open_sock_fields [simp]:
  "if_addr (open_sock s) = if_addr s" "if_hwaddr (open_sock s) = if_hwaddr s"
  by (simp_all add: open_sock_def)

lemma sendArp_usable:
  assumes "usable_devs src dst ip hw i s"
  shows "sendArp src dst s = broadcast_arp dst ip hw s"
  using assms by (auto simp: sendArp_def getDevInfo_def usable_devs_def)

text \<open>The four bytes of an address in network order, and the address a process would have to hold at itself.\<close>

definition ip_bytes :: "u32 \<Rightarrow> u8 list" where
  "ip_bytes ip = map (\<lambda>k. ucast (drop_bit (8 * k) ip)) [3, 2, 1, 0]"

definition holds_itself :: "(u32 \<Rightarrow> u8 option) \<Rightarrow> u32 \<Rightarrow> bool" where
  "holds_itself mem ip \<longleftrightarrow> map mem [ip, ip + 1, ip + 2, ip + 3] = map Some (ip_bytes ip)"

lemma holds_itself_iff:
  "set_int_into_4uchar mem ip = Ok bs \<Longrightarrow> holds_itself mem ip \<longleftrightarrow> bs = ip_bytes ip"
  by (auto simp: set_int_into_4uchar_def holds_itself_def ip_bytes_def split: option.splits)

lemma mkArpMsg_fault:
  "set_int_into_4uchar mem ip = Fault e \<Longrightarrow> mkArpMsg mem op t ha ip hw = Fault e"
  by (simp add: mkArpMsg_def)

lemma sendArp_sends:
  assumes "usable_devs src dst ip hw i s" "set_int_into_4uchar (arp_mem s) ip = Ok bs"
  shows "\<exists>b m. sendArp src dst s = Ret () (s\<lparr>arp_sent := arp_sent s @ [(i, b)]\<rparr>)
    \<and> length b = 60 \<and> m = parse_arp b \<and> h_dest m = MAC_BCAST_ADDR \<and> h_source m = hw \<and> h_proto m = ETH_P_ARP
    \<and> operation m = ARPOP_REQUEST \<and> sHaddr m = hw \<and> tHaddr m = replicate 6 0 \<and> sInaddr m = bs \<and> tInaddr m = bs"
proof -
  let ?m = "zero_msg\<lparr>h_dest := MAC_BCAST_ADDR, h_source := hw,
    h_proto := ETH_P_ARP, htype := ARPHRD_ETHER, ptype := ETH_P_IP, hlen := 6, plen := 4, operation := ARPOP_REQUEST,
    sInaddr := bs, sHaddr := hw, tInaddr := bs\<rparr>"
  have "arp_shape ?m" using assms(1) four_bytes [OF assms(2)]
    by (simp add: arp_shape_def zero_msg_def MAC_BCAST_ADDR_def usable_devs_def)
  note p = parse_arp_bytes [OF this]
  have "length hw = 6" using assms(1) by (simp add: usable_devs_def)
  note mk = mkArpMsg_request [OF assms(2) this]
  have "sendArp src dst s = Ret () (s\<lparr>arp_sent := arp_sent s @ [(i, arp_bytes ?m)]\<rparr>)"
    unfolding sendArp_usable [OF assms(1)] using assms(1) mk
    by (simp add: broadcast_arp_def usable_devs_def open_sock_def close_sock_def)
  with p show ?thesis by (intro exI [of _ "arp_bytes ?m"] exI [of _ ?m]) (simp add: zero_msg_def)
qed

lemma sendArp_crashes:
  assumes "usable_devs src dst ip hw i s" "set_int_into_4uchar (arp_mem s) ip = Fault e"
  shows "sendArp src dst s = Halt (Crash e) (open_sock s)"
  unfolding sendArp_usable [OF assms(1)] using assms
  by (simp add: broadcast_arp_def usable_devs_def open_sock_def mkArpMsg_fault)

subsection \<open>Properties\<close>

text \<open>
  C40. What a call with usable interfaces does: the address of the source interface is taken
  for a pointer. Where the process has no memory there, it is killed and no packet is sent, its
  socket still open. Where it has, one packet of 60 bytes goes out, a broadcast ARP request from the
  source's hardware address with the protocol's layout, whose two protocol addresses are
  the four bytes of that memory: the announced address is the interface's own one, as the comments of
  main and mkArpMsg say, only where the memory happens to hold it.
\<close>

theorem arp_announces_memory:
  assumes "usable_devs src dst ip hw i s"
  shows "case set_int_into_4uchar (arp_mem s) ip of
      Fault e \<Rightarrow> \<exists>t. sendArp src dst s = Halt (Crash e) t \<and> arp_sent t = arp_sent s \<and> open_socks t = Suc (open_socks s)
    | Ok bs \<Rightarrow> \<exists>t b m. sendArp src dst s = Ret () t \<and> arp_sent t = arp_sent s @ [(i, b)] \<and> open_socks t = open_socks s
        \<and> length b = 60 \<and> m = parse_arp b \<and> h_dest m = MAC_BCAST_ADDR \<and> h_source m = hw \<and> h_proto m = ETH_P_ARP
        \<and> operation m = ARPOP_REQUEST \<and> sHaddr m = hw \<and> tHaddr m = replicate 6 0 \<and> sInaddr m = bs \<and> tInaddr m = bs
        \<and> (sInaddr m = ip_bytes ip \<longleftrightarrow> holds_itself (arp_mem s) ip)"
proof (cases "set_int_into_4uchar (arp_mem s) ip")
  case (Ok bs)
  from sendArp_sends [OF assms Ok] holds_itself_iff [OF Ok] Ok show ?thesis by fastforce
next
  case (Fault e)
  from sendArp_crashes [OF assms Fault] Fault show ?thesis by (simp add: open_sock_def)
qed

text \<open>
  A bridge with the address 192.168.0.1, and one with 10.0.0.1 in a process that has zeroed memory mapped
  at 0x0A000000; no user memory of the router's processor lies above 0x80000000.
\<close>

definition sample_arp :: arp_sys where
  "sample_arp = \<lparr>arp_mem = (\<lambda>a. if 0x00400000 \<le> a \<and> a < 0x00402000 \<or> 0x0A000000 \<le> a \<and> a < 0x0A001000 then Some 0 else None),
     can_socket = True, if_addr = [''br0'' \<mapsto> 0xC0A80001, ''br1'' \<mapsto> 0x0A000001],
     if_hwaddr = [''br0'' \<mapsto> [2, 0, 0, 0, 0, 1], ''br1'' \<mapsto> [2, 0, 0, 0, 0, 1], ''eth0'' \<mapsto> [2, 0, 0, 0, 0, 2]],
     if_index = [''eth0'' \<mapsto> 4], can_bind = (\<lambda>_. True), open_socks = 0, arp_sent = []\<rparr>"

lemma sample_arp_usable:
  "usable_devs ''br0'' ''eth0'' 0xC0A80001 [2, 0, 0, 0, 0, 1] 4 sample_arp"
  "usable_devs ''br1'' ''eth0'' 0x0A000001 [2, 0, 0, 0, 0, 1] 4 sample_arp"
  by (simp_all add: usable_devs_def sample_arp_def)

lemma sample_arp_memory:
  "set_int_into_4uchar (arp_mem sample_arp) 0xC0A80001 = Fault Oob_read"
  "set_int_into_4uchar (arp_mem sample_arp) 0x0A000001 = Ok [0, 0, 0, 0]"
  by (simp_all add: set_int_into_4uchar_def sample_arp_def)

theorem arp_announces_memory_witness:
  "(\<exists>t. sendArp ''br0'' ''eth0'' sample_arp = Halt (Crash Oob_read) t \<and> arp_sent t = [])
   \<and> (\<exists>t b. sendArp ''br1'' ''eth0'' sample_arp = Ret () t \<and> arp_sent t = [(4, b)]
        \<and> sInaddr (parse_arp b) = [0, 0, 0, 0] \<and> ip_bytes 0x0A000001 = [10, 0, 0, 1])"
proof -
  have e: "arp_sent sample_arp = []" by (simp add: sample_arp_def)
  have "ip_bytes 0x0A000001 = [10, 0, 0, 1]" by code_simp
  with e show ?thesis
    using arp_announces_memory [OF sample_arp_usable(1)] arp_announces_memory [OF sample_arp_usable(2)]
    unfolding sample_arp_memory by fastforce
qed

end
