(* ===== verification/Busybox_Lib.thy ===== *)
theory Busybox_Lib
  imports Prelude
begin

section \<open>The busybox library: messages, descriptors, numbers\<close>

text \<open>
  The files of \<^verbatim>\<open>libbb\<close> that are linked into \<^verbatim>\<open>flash_eraseall\<close> below its options: messages
  and the end of the program (\<^verbatim>\<open>verror_msg.c\<close>, \<^verbatim>\<open>error_msg.c\<close>, \<^verbatim>\<open>perror_msg.c\<close>, their
  \<^verbatim>\<open>_and_die\<close> variants, \<^verbatim>\<open>xfunc_die.c\<close>), reading and writing of descriptors
  (\<^verbatim>\<open>safe_write.c\<close>, \<^verbatim>\<open>full_write.c\<close>, \<^verbatim>\<open>read.c\<close>, \<^verbatim>\<open>copyfd.c\<close>) and numbers in strings
  (\<^verbatim>\<open>xatonum_template.c\<close>).
\<close>

subsection \<open>State\<close>

text \<open>
  How the system answers to the next calls of \<^verbatim>\<open>write\<close> and \<^verbatim>\<open>read\<close> on a descriptor is input: a
  number of bytes taken or the bytes delivered, or the error number. When the list is used
  up, writing takes everything and reading is at the end of the file. \<open>mem\<close> tells whether there is memory
  for the next calls of \<^verbatim>\<open>vasprintf\<close> and \<^verbatim>\<open>realloc\<close> that a message makes, in their order; there is when the list
  is used up.
\<close>

datatype wr_answer = Took nat | W_err int
datatype rd_answer = Data bytes | R_err int

record bb =
  applet_name :: string
  logmode :: int
  msg_eol :: string
  errno :: int
  strerror :: "int \<Rightarrow> string"
  xfunc_error_retval :: int
  die_sleep :: int
  wr :: "int \<Rightarrow> wr_answer list"
  sent :: "int \<Rightarrow> bytes"
  rd :: "int \<Rightarrow> rd_answer list"
  mem :: "bool list"

definition EINTR :: int where "EINTR = 4"
definition LOGMODE_STDIO :: int where "LOGMODE_STDIO = 1"

subsection \<open>Writing\<close>

text \<open>One \<^verbatim>\<open>write\<close>: the result and the state.\<close>

definition sys_write :: "int \<Rightarrow> bytes \<Rightarrow> 'z bb_scheme \<Rightarrow> int \<times> 'z bb_scheme" where
  "sys_write fd buf s =
     (case wr s fd of
        [] \<Rightarrow> (int (length buf), s\<lparr>sent := (sent s)(fd := sent s fd @ buf)\<rparr>)
      | Took n # as \<Rightarrow>
          (int (length (take n buf)),
           s\<lparr>wr := (wr s)(fd := as), sent := (sent s)(fd := sent s fd @ take n buf)\<rparr>)
      | W_err e # as \<Rightarrow> (- 1, s\<lparr>wr := (wr s)(fd := as), errno := e\<rparr>))"

function safe_write :: "int \<Rightarrow> bytes \<Rightarrow> 'z bb_scheme \<Rightarrow> int \<times> 'z bb_scheme" where
  "safe_write fd buf s =
     (let (n, t) = sys_write fd buf s
      in if n < 0 \<and> errno t = EINTR then safe_write fd buf t else (n, t))"
  by pat_completeness auto
termination
  by (relation "measure (\<lambda>(fd, buf, s). length (wr s fd))")
    (auto simp: sys_write_def split: list.splits wr_answer.splits)

declare safe_write.simps [simp del]

text \<open>
  The loop of \<^verbatim>\<open>full_write\<close>. It goes on when nothing was taken, so each turn that takes nothing
  uses up an answer.
\<close>

lemma safe_write_bounds:
  assumes "safe_write fd buf s = (n, t)"
  shows "n \<le> int (length buf) \<and> length (wr t fd) \<le> length (wr s fd)
    \<and> (buf \<noteq> [] \<and> n \<le> 0 \<longrightarrow> length (wr t fd) < length (wr s fd))"
  using assms
proof (induction fd buf s arbitrary: n t rule: safe_write.induct)
  case (1 fd buf s)
  obtain m u where u: "sys_write fd buf s = (m, u)" by fastforce
  then have w: "m \<le> int (length buf)" "length (wr u fd) \<le> length (wr s fd)"
    "buf \<noteq> [] \<and> m \<le> 0 \<longrightarrow> length (wr u fd) < length (wr s fd)" "m < 0 \<longrightarrow> length (wr u fd) < length (wr s fd)"
    by (auto simp: sys_write_def split: list.splits wr_answer.splits)
  show ?case
  proof (cases "m < 0 \<and> errno u = EINTR")
    case True
    with "1.prems" u have "safe_write fd buf u = (n, t)" by (simp add: safe_write.simps [of fd buf s])
    from "1.IH" [OF u [symmetric] refl True this] w True show ?thesis by fastforce
  next
    case False
    with "1.prems" u w show ?thesis by (auto simp: safe_write.simps [of fd buf s])
  qed
qed

function full_write_loop :: "int \<Rightarrow> bytes \<Rightarrow> int \<Rightarrow> 'z bb_scheme \<Rightarrow> int \<times> 'z bb_scheme" where
  "full_write_loop fd buf tot s =
     (if buf = [] then (tot, s)
      else let (cc, t) = safe_write fd buf s
           in if cc < 0 then (if tot \<noteq> 0 then tot else cc, t)
              else full_write_loop fd (drop (nat cc) buf) (tot + cc) t)"
  by pat_completeness auto
termination
proof (relation "measure (\<lambda>(fd, buf, tot, s). length buf + length (wr s fd))", goal_cases)
  case (2 fd buf tot s x cc t)
  then have "safe_write fd buf s = (cc, t)" by simp
  from safe_write_bounds [OF this] 2 show ?case by (cases "cc = 0") auto
qed simp

declare full_write_loop.simps [simp del]

definition full_write :: "int \<Rightarrow> bytes \<Rightarrow> 'z bb_scheme \<Rightarrow> int \<times> 'z bb_scheme" where
  "full_write fd buf s = full_write_loop fd buf 0 s"


subsection \<open>Messages\<close>

text \<open>Writing into a buffer at an offset.\<close>

definition poke :: "nat \<Rightarrow> bytes \<Rightarrow> bytes \<Rightarrow> bytes res" where
  "poke off b buf =
     (if length buf < off + length b then Fault Oob_write else Ok (take off buf @ b @ drop (off + length b) buf))"

text \<open>
  The line of \<^verbatim>\<open>bb_verror_msg\<close>, put together in the memory that \<^verbatim>\<open>vasprintf\<close> returned after it
  was enlarged: \<open>out\<close> is the formatted text, \<open>fmt\<close> the format, of which only the first
  character is looked at. The result is the memory and how much of it is written out.
\<close>

definition verror_buffer :: "string \<Rightarrow> string \<Rightarrow> cptr \<Rightarrow> string \<Rightarrow> cptr \<Rightarrow> (bytes \<times> nat) res" where
  "verror_buffer name eol fmt out strerr =
     (let used = length out;
          applet_len = length name + 2;
          strerr_len = (case strerr of None \<Rightarrow> 0 | Some e \<Rightarrow> length e);
          msg = out @ [NUL] @ replicate (applet_len + used + strerr_len + length eol + 3 - (used + 1)) NUL
      in rbind (poke applet_len (take used msg) msg) (\<lambda>msg.
         let used = used + applet_len
         in rbind (poke 0 (name @ [NUL]) msg) (\<lambda>msg.
         rbind (poke (applet_len - 2) '':'' msg) (\<lambda>msg.
         rbind (poke (applet_len - 1) '' '' msg) (\<lambda>msg.
         rbind (case strerr of
                  None \<Rightarrow> Ok (msg, used)
                | Some e \<Rightarrow>
                    let nonempty = (case fmt of None \<Rightarrow> False | Some f \<Rightarrow> f \<noteq> [])
                    in rbind (if nonempty then poke used '': '' msg else Ok msg) (\<lambda>msg.
                       let used = (if nonempty then used + 2 else used)
                       in rbind (poke used (e @ [NUL]) msg) (\<lambda>msg. Ok (msg, used + strerr_len))))
           (\<lambda>(msg, used).
         rbind (poke used (eol @ [NUL]) msg) (\<lambda>msg. Ok (msg, used + length eol))))))))"

text \<open>\<^verbatim>\<open>sleep\<close> has no effect on the state.\<close>

definition xfunc_die :: "'z bb_scheme \<Rightarrow> ('a, 'z bb_scheme) run" where
  "xfunc_die s =
     (if die_sleep s < 0 then Halt (Jump (if xfunc_error_retval s \<noteq> 0 then xfunc_error_retval s else - 2222)) s
      else Halt (Exit (xfunc_error_retval s)) s)"

definition bb_msg_memory_exhausted :: string where "bb_msg_memory_exhausted = ''memory exhausted''"

text \<open>One allocation of a message: whether it succeeds.\<close>

definition msg_alloc :: "'z bb_scheme \<Rightarrow> bool \<times> 'z bb_scheme" where
  "msg_alloc s = (case mem s of [] \<Rightarrow> (True, s) | b # bs \<Rightarrow> (b, s\<lparr>mem := bs\<rparr>))"

text \<open>
  \<open>out\<close> is the text that \<^verbatim>\<open>vasprintf\<close> formats from the format \<open>fmt\<close> and its arguments. Without memory
  for it nothing is shown. Without memory for the larger buffer, \<^verbatim>\<open>xrealloc\<close> shows its own message, by another
  call of this function, and ends the program.
\<close>

function bb_verror_msg :: "cptr \<Rightarrow> string \<Rightarrow> cptr \<Rightarrow> 'z bb_scheme \<Rightarrow> (unit, 'z bb_scheme) run" where
  "bb_verror_msg fmt out strerr s =
     (if logmode s = 0 then Ret () s
      else
        let (formatted, s) = msg_alloc s
        in if \<not> formatted then Ret () s
           else
             let (enlarged, s) = msg_alloc s
             in if \<not> enlarged
                then sbind (bb_verror_msg (Some bb_msg_memory_exhausted) bb_msg_memory_exhausted None s) (\<lambda>_ s. xfunc_die s)
                else sbind (lift (verror_buffer (applet_name s) (msg_eol s) fmt out strerr) s) (\<lambda>(msg, n) s.
                  if odd (logmode s) then Ret () (snd (full_write 2 (take n msg) s)) else Ret () s))"
  by pat_completeness auto
termination
  by (relation "measure (\<lambda>(fmt, out, strerr, s). length (mem s))")
    (auto simp: msg_alloc_def split: list.splits)

declare bb_verror_msg.simps [simp del]

definition bb_error_msg :: "string \<Rightarrow> string \<Rightarrow> 'z bb_scheme \<Rightarrow> (unit, 'z bb_scheme) run" where
  "bb_error_msg fmt out s = bb_verror_msg (Some fmt) out None s"

definition bb_error_msg_and_die :: "string \<Rightarrow> string \<Rightarrow> 'z bb_scheme \<Rightarrow> ('a, 'z bb_scheme) run" where
  "bb_error_msg_and_die fmt out s = sbind (bb_verror_msg (Some fmt) out None s) (\<lambda>_ s. xfunc_die s)"

definition bb_perror_msg :: "string \<Rightarrow> string \<Rightarrow> 'z bb_scheme \<Rightarrow> (unit, 'z bb_scheme) run" where
  "bb_perror_msg fmt out s =
     bb_verror_msg (Some fmt) out (if errno s \<noteq> 0 then Some (strerror s (errno s)) else None) s"

definition bb_perror_msg_and_die :: "string \<Rightarrow> string \<Rightarrow> 'z bb_scheme \<Rightarrow> ('a, 'z bb_scheme) run" where
  "bb_perror_msg_and_die fmt out s =
     sbind (bb_verror_msg (Some fmt) out (if errno s \<noteq> 0 then Some (strerror s (errno s)) else None) s)
       (\<lambda>_ s. xfunc_die s)"

text \<open>Without usage messages (\<^verbatim>\<open>ENABLE_SHOW_USAGE\<close> is 0) a wrong command line ends the program silently.\<close>

definition bb_show_usage :: "'z bb_scheme \<Rightarrow> ('a, 'z bb_scheme) run" where
  "bb_show_usage s = xfunc_die s"

definition quoted :: "string \<Rightarrow> string" where
  "quoted t = CHR 0x27 # t @ [CHR 0x27]"

text \<open>What \<^verbatim>\<open>open\<close> answers is given: a descriptor, or the error number.\<close>

definition cant_open :: "string \<Rightarrow> string" where
  "cant_open t = ''can'' @ [CHR 0x27] @ ''t open '' @ quoted t"

definition xopen3 :: "string \<Rightarrow> int + int \<Rightarrow> 'z bb_scheme \<Rightarrow> (int, 'z bb_scheme) run" where
  "xopen3 pathname ret s =
     (case ret of
        Inl e \<Rightarrow> bb_perror_msg_and_die (cant_open ''%s'') (cant_open pathname) (s\<lparr>errno := e\<rparr>)
      | Inr fd \<Rightarrow> Ret fd s)"

definition xopen :: "string \<Rightarrow> int + int \<Rightarrow> 'z bb_scheme \<Rightarrow> (int, 'z bb_scheme) run" where
  "xopen pathname ret s = xopen3 pathname ret s"

subsection \<open>Reading and copying\<close>

definition sys_read :: "int \<Rightarrow> nat \<Rightarrow> 'z bb_scheme \<Rightarrow> int \<times> bytes \<times> 'z bb_scheme" where
  "sys_read fd count s =
     (case rd s fd of
        [] \<Rightarrow> (0, [], s)
      | Data d # as \<Rightarrow>
          (int (length (take count d)), take count d,
           s\<lparr>rd := (rd s)(fd := if drop count d = [] then as else Data (drop count d) # as)\<rparr>)
      | R_err e # as \<Rightarrow> (- 1, [], s\<lparr>rd := (rd s)(fd := as), errno := e\<rparr>))"

function safe_read :: "int \<Rightarrow> nat \<Rightarrow> 'z bb_scheme \<Rightarrow> int \<times> bytes \<times> 'z bb_scheme" where
  "safe_read fd count s =
     (let (n, d, t) = sys_read fd count s
      in if n < 0 \<and> errno t = EINTR then safe_read fd count t else (n, d, t))"
  by pat_completeness auto
termination
  by (relation "measure (\<lambda>(fd, count, s). length (rd s fd))")
    (auto simp: sys_read_def split: list.splits rd_answer.splits)

declare safe_read.simps [simp del]

text \<open>How much there is still to come from a descriptor.\<close>

fun rd_size :: "rd_answer list \<Rightarrow> nat" where
  "rd_size [] = 0"
| "rd_size (Data d # as) = Suc (length d + rd_size as)"
| "rd_size (R_err e # as) = Suc (rd_size as)"

lemma safe_read_bounds:
  assumes "safe_read fd count s = (n, d, t)"
  shows "n \<le> int count \<and> (n \<le> 0 \<longrightarrow> d = []) \<and> (0 \<le> n \<longrightarrow> n = int (length d))
    \<and> rd_size (rd t fd) \<le> rd_size (rd s fd) \<and> (0 < n \<longrightarrow> rd_size (rd t fd) < rd_size (rd s fd)) \<and> wr t = wr s"
  using assms
proof (induction fd count s arbitrary: n d t rule: safe_read.induct)
  case (1 fd count s)
  obtain m b u where u: "sys_read fd count s = (m, b, u)" by (metis prod_cases3)
  then have w: "m \<le> int count \<and> (m \<le> 0 \<longrightarrow> b = []) \<and> (0 \<le> m \<longrightarrow> m = int (length b))
    \<and> rd_size (rd u fd) \<le> rd_size (rd s fd) \<and> (0 < m \<longrightarrow> rd_size (rd u fd) < rd_size (rd s fd)) \<and> wr u = wr s"
    by (auto simp: sys_read_def split: list.splits rd_answer.splits) (simp add: min_def split: if_splits)
  show ?case
  proof (cases "m < 0 \<and> errno u = EINTR")
    case True
    with "1.prems" u have "safe_read fd count u = (n, d, t)" by (simp add: safe_read.simps [of fd count s])
    from "1.IH" [OF u [symmetric] refl refl True this] w show ?thesis by (auto intro: order_trans)
  next
    case False
    with "1.prems" u w show ?thesis by (auto simp: safe_read.simps [of fd count s])
  qed
qed

function full_read_loop :: "int \<Rightarrow> nat \<Rightarrow> bytes \<Rightarrow> 'z bb_scheme \<Rightarrow> int \<times> bytes \<times> 'z bb_scheme" where
  "full_read_loop fd len got s =
     (if len = 0 then (int (length got), got, s)
      else let (cc, d, t) = safe_read fd len s
           in if cc < 0 then (if got \<noteq> [] then int (length got) else cc, got, t)
              else if cc = 0 then (int (length got), got, t)
              else full_read_loop fd (len - nat cc) (got @ d) t)"
  by pat_completeness auto
termination
  by (relation "measure (\<lambda>(fd, len, got, s). len)") auto

declare full_read_loop.simps [simp del]

definition full_read :: "int \<Rightarrow> nat \<Rightarrow> 'z bb_scheme \<Rightarrow> int \<times> bytes \<times> 'z bb_scheme" where
  "full_read fd len s = full_read_loop fd len [] s"

definition xread :: "int \<Rightarrow> nat \<Rightarrow> 'z bb_scheme \<Rightarrow> (bytes, 'z bb_scheme) run" where
  "xread fd count s =
     (if count = 0 then Ret [] s
      else let (sz, d, t) = full_read fd count s
           in if sz \<noteq> int count then bb_error_msg_and_die ''short read'' ''short read'' t else Ret d t)"

definition xread_char :: "int \<Rightarrow> 'z bb_scheme \<Rightarrow> (char, 'z bb_scheme) run" where
  "xread_char fd s = sbind (xread fd 1 s) (\<lambda>d s. Ret (hd d) s)"

text \<open>
  Copying with a buffer of \<^verbatim>\<open>CONFIG_FEATURE_COPYBUF_KB\<close> = 4 kilobytes; \<open>until_eof\<close> is the status
  1. The result is the number of bytes, or -1.
\<close>

lemma full_write_loop_rd [simp]: "rd (snd (full_write_loop fd buf tot s)) = rd s"
proof -
  have w: "rd (snd (safe_write fd buf s)) = rd s" for fd buf and s :: "'a bb_scheme"
  proof (induction fd buf s rule: safe_write.induct)
    case (1 fd buf s)
    obtain m u where u: "sys_write fd buf s = (m, u)" by fastforce
    then have "rd u = rd s" by (auto simp: sys_write_def split: list.splits wr_answer.splits)
    with 1 u show ?case by (auto simp: safe_write.simps [of fd buf s])
  qed
  show ?thesis
  proof (induction fd buf tot s rule: full_write_loop.induct)
    case (1 fd buf tot s)
    obtain cc t where t: "safe_write fd buf s = (cc, t)" by fastforce
    with w [of fd buf s] have "rd t = rd s" by simp
    with 1 t show ?case by (auto simp: full_write_loop.simps [of fd buf tot s])
  qed
qed

lemma full_write_rd [simp]: "rd (snd (full_write fd buf s)) = rd s"
  by (simp add: full_write_def)

function copy_loop :: "int \<Rightarrow> int \<Rightarrow> nat \<Rightarrow> bool \<Rightarrow> nat \<Rightarrow> 'z bb_scheme \<Rightarrow> (int, 'z bb_scheme) run" where
  "copy_loop src_fd dst_fd sz until_eof tot s =
     (let (n, d, t) = safe_read src_fd (if 4096 < sz then 4096 else sz) s
      in if n = 0 then Ret (int tot) t
         else if n < 0 then sbind (bb_perror_msg ''read error'' ''read error'' t) (\<lambda>_ s. Ret (- 1) s)
         else
           let (w, u) = (if 0 \<le> dst_fd then full_write dst_fd d t else (n, t))
           in if w < n then sbind (bb_perror_msg ''write error'' ''write error'' u) (\<lambda>_ s. Ret (- 1) s)
              else if \<not> until_eof \<and> sz - nat n = 0 then Ret (int (tot + nat n)) u
              else copy_loop src_fd dst_fd (if until_eof then sz else sz - nat n) until_eof (tot + nat n) u)"
  by pat_completeness auto
termination
proof (relation "measure (\<lambda>(src, dst, sz, e, tot, s). rd_size (rd s src))", goal_cases)
  case (2 src_fd dst_fd sz until_eof tot s x n y d t x2 w u)
  then have r: "safe_read src_fd (if 4096 < sz then 4096 else sz) s = (n, d, t)" by simp
  have "rd u = rd t" using 2 by (metis full_write_rd prod.inject snd_conv)
  with safe_read_bounds [OF r] 2 show ?case by simp
qed simp

declare copy_loop.simps [simp del]

definition bb_full_fd_action :: "int \<Rightarrow> int \<Rightarrow> nat \<Rightarrow> 'z bb_scheme \<Rightarrow> (int, 'z bb_scheme) run" where
  "bb_full_fd_action src_fd dst_fd sz s =
     (if src_fd < 0 then Ret (- 1) s
      else copy_loop src_fd dst_fd (if sz = 0 then 4096 else sz) (sz = 0) 0 s)"

definition bb_copyfd_size :: "int \<Rightarrow> int \<Rightarrow> nat \<Rightarrow> 'z bb_scheme \<Rightarrow> (int, 'z bb_scheme) run" where
  "bb_copyfd_size fd1 fd2 sz s = (if sz \<noteq> 0 then bb_full_fd_action fd1 fd2 sz s else Ret 0 s)"

definition bb_copyfd_exact_size :: "int \<Rightarrow> int \<Rightarrow> nat \<Rightarrow> 'z bb_scheme \<Rightarrow> (unit, 'z bb_scheme) run" where
  "bb_copyfd_exact_size fd1 fd2 sz s =
     sbind (bb_copyfd_size fd1 fd2 sz s) (\<lambda>r s.
       if r = int sz then Ret () s
       else if r \<noteq> - 1 then bb_error_msg_and_die ''short read'' ''short read'' s
       else xfunc_die s)"

definition bb_copyfd_eof :: "int \<Rightarrow> int \<Rightarrow> 'z bb_scheme \<Rightarrow> (int, 'z bb_scheme) run" where
  "bb_copyfd_eof fd1 fd2 s = bb_full_fd_action fd1 fd2 0 s"


subsection \<open>Numbers\<close>

definition digit_of :: "char \<Rightarrow> nat option" where
  "digit_of c =
     (let n = of_char c
      in if 48 \<le> n \<and> n \<le> 57 then Some (n - 48)
         else if 97 \<le> n \<and> n \<le> 122 then Some (n - 87)
         else if 65 \<le> n \<and> n \<le> 90 then Some (n - 55)
         else None)"

definition is_base_digit :: "nat \<Rightarrow> char \<Rightarrow> bool" where
  "is_base_digit b c \<longleftrightarrow> (case digit_of c of None \<Rightarrow> False | Some d \<Rightarrow> d < b)"

fun base_value :: "nat \<Rightarrow> string \<Rightarrow> nat \<Rightarrow> nat" where
  "base_value b [] acc = acc"
| "base_value b (c # s) acc = base_value b s (b * acc + the (digit_of c))"

text \<open>
  \<^verbatim>\<open>strtoul\<close> or \<^verbatim>\<open>strtoull\<close>, by the largest value of the type: the value, whether the number is out
  of range, and where it ends. Without digits it ends where it begins.
\<close>

definition strtou :: "nat \<Rightarrow> nat \<Rightarrow> string \<Rightarrow> nat \<times> bool \<times> string" where
  "strtou umax bas s =
     (let t = dropWhile isspace s;
          neg = (char_at t 0 = CHR ''-'');
          u = (if neg \<or> char_at t 0 = CHR ''+'' then drop 1 t else t);
          hex = ((bas = 0 \<or> bas = 16) \<and> char_at u 0 = CHR ''0'' \<and> (char_at u 1 = CHR ''x'' \<or> char_at u 1 = CHR ''X'')
                 \<and> is_base_digit 16 (char_at u 2));
          b = (if hex then 16 else if bas = 0 then (if char_at u 0 = CHR ''0'' then 8 else 10) else bas);
          v = (if hex then drop 2 u else u);
          d = takeWhile (is_base_digit b) v;
          n = base_value b d 0
      in if d = [] then (0, False, s)
         else if umax < n then (umax, True, drop (length d) v)
         else (if neg then (umax + 1 - n) mod (umax + 1) else n, False, drop (length d) v))"

definition ERANGE :: int where "ERANGE = 34"

definition invalid_number :: "string \<Rightarrow> string" where
  "invalid_number t = ''invalid number '' @ quoted t"

definition out_of_range :: "string \<Rightarrow> string \<Rightarrow> string \<Rightarrow> string" where
  "out_of_range t lo hi = ''number '' @ t @ '' is not in '' @ lo @ ''..'' @ hi @ '' range''"

text \<open>
  The template is instantiated by the largest values of the types: \<open>umax\<close> of the unsigned and
  \<open>tmax\<close> of the signed one. A table of sfxs ends with the multiplier 0.
\<close>

definition xstrtou_range_sfx ::
  "nat \<Rightarrow> string \<Rightarrow> nat \<Rightarrow> nat \<Rightarrow> nat \<Rightarrow> (string \<times> nat) list option \<Rightarrow> 'z bb_scheme \<Rightarrow> (nat, 'z bb_scheme) run" where
  "xstrtou_range_sfx umax numstr bas lower upper sfxs s =
     (let inval = (\<lambda>s. bb_error_msg_and_die (invalid_number ''%s'') (invalid_number numstr) s);
          range = (\<lambda>s. bb_error_msg_and_die (out_of_range ''%s'' ''%llu'' ''%llu'')
                     (out_of_range numstr (show_nat lower) (show_nat upper)) s);
          chk_range = (\<lambda>r s. if lower \<le> r \<and> r \<le> upper then Ret r s else range s)
      in if char_at numstr 0 = CHR ''-'' \<or> char_at numstr 0 = CHR ''+'' \<or> isspace (char_at numstr 0) then inval s
         else
           let (r, erange, e) = strtou umax bas numstr
           in if erange \<or> length e = length numstr then inval (s\<lparr>errno := if erange then ERANGE else 0\<rparr>)
              else
                (case find (\<lambda>(sfx, mult). sfx = e)
                    (case sfxs of None \<Rightarrow> [] | Some tab \<Rightarrow> takeWhile (\<lambda>(sfx, mult). mult \<noteq> 0) tab) of
                   Some (sfx, mult) \<Rightarrow> if umax div mult < r then range s else chk_range (r * mult) s
                 | None \<Rightarrow> if e \<noteq> [] then inval s else chk_range r s))"

definition xstrtou_range :: "nat \<Rightarrow> string \<Rightarrow> nat \<Rightarrow> nat \<Rightarrow> nat \<Rightarrow> 'z bb_scheme \<Rightarrow> (nat, 'z bb_scheme) run" where
  "xstrtou_range umax numstr bas lower upper s = xstrtou_range_sfx umax numstr bas lower upper None s"

definition xstrtou_sfx :: "nat \<Rightarrow> string \<Rightarrow> nat \<Rightarrow> (string \<times> nat) list option \<Rightarrow> 'z bb_scheme \<Rightarrow> (nat, 'z bb_scheme) run" where
  "xstrtou_sfx umax numstr bas sfxs s = xstrtou_range_sfx umax numstr bas 0 umax sfxs s"

definition xstrtou :: "nat \<Rightarrow> string \<Rightarrow> nat \<Rightarrow> 'z bb_scheme \<Rightarrow> (nat, 'z bb_scheme) run" where
  "xstrtou umax numstr bas s = xstrtou_range_sfx umax numstr bas 0 umax None s"

definition xatou_range_sfx ::
  "nat \<Rightarrow> string \<Rightarrow> nat \<Rightarrow> nat \<Rightarrow> (string \<times> nat) list option \<Rightarrow> 'z bb_scheme \<Rightarrow> (nat, 'z bb_scheme) run" where
  "xatou_range_sfx umax numstr lower upper sfxs s = xstrtou_range_sfx umax numstr 10 lower upper sfxs s"

definition xatou_range :: "nat \<Rightarrow> string \<Rightarrow> nat \<Rightarrow> nat \<Rightarrow> 'z bb_scheme \<Rightarrow> (nat, 'z bb_scheme) run" where
  "xatou_range umax numstr lower upper s = xstrtou_range_sfx umax numstr 10 lower upper None s"

definition xatou_sfx :: "nat \<Rightarrow> string \<Rightarrow> (string \<times> nat) list option \<Rightarrow> 'z bb_scheme \<Rightarrow> (nat, 'z bb_scheme) run" where
  "xatou_sfx umax numstr sfxs s = xstrtou_range_sfx umax numstr 10 0 umax sfxs s"

definition xatou :: "nat \<Rightarrow> string \<Rightarrow> 'z bb_scheme \<Rightarrow> (nat, 'z bb_scheme) run" where
  "xatou umax numstr s = xatou_sfx umax numstr None s"

text \<open>
  The signed numbers. The bound \<open>u\<close> is raised when the character behind the sign is a minus
  sign; a number that begins so is refused.
\<close>

definition xstrto_range_sfx ::
  "nat \<Rightarrow> nat \<Rightarrow> string \<Rightarrow> nat \<Rightarrow> int \<Rightarrow> int \<Rightarrow> (string \<times> nat) list option \<Rightarrow> 'z bb_scheme \<Rightarrow> (int, 'z bb_scheme) run" where
  "xstrto_range_sfx umax tmax numstr bas lower upper sfxs s =
     (let signed = (char_at numstr 0 = CHR ''+'' \<or> char_at numstr 0 = CHR ''-'');
          p = (if signed then drop 1 numstr else numstr);
          u = (if signed \<and> char_at p 0 = CHR ''-'' then tmax + 1 else tmax)
      in sbind (xstrtou_range_sfx umax p bas 0 u sfxs s) (\<lambda>r s.
           let r = (if char_at numstr 0 = CHR ''-'' then - int r else int r)
           in if r < lower \<or> upper < r
              then bb_error_msg_and_die (out_of_range ''%s'' ''%lld'' ''%lld'')
                     (out_of_range numstr (show_int lower) (show_int upper)) s
              else Ret r s))"

definition xstrto_range ::
  "nat \<Rightarrow> nat \<Rightarrow> string \<Rightarrow> nat \<Rightarrow> int \<Rightarrow> int \<Rightarrow> 'z bb_scheme \<Rightarrow> (int, 'z bb_scheme) run" where
  "xstrto_range umax tmax numstr bas lower upper s = xstrto_range_sfx umax tmax numstr bas lower upper None s"

definition xato_range_sfx ::
  "nat \<Rightarrow> nat \<Rightarrow> string \<Rightarrow> int \<Rightarrow> int \<Rightarrow> (string \<times> nat) list option \<Rightarrow> 'z bb_scheme \<Rightarrow> (int, 'z bb_scheme) run" where
  "xato_range_sfx umax tmax numstr lower upper sfxs s = xstrto_range_sfx umax tmax numstr 10 lower upper sfxs s"

definition xato_range :: "nat \<Rightarrow> nat \<Rightarrow> string \<Rightarrow> int \<Rightarrow> int \<Rightarrow> 'z bb_scheme \<Rightarrow> (int, 'z bb_scheme) run" where
  "xato_range umax tmax numstr lower upper s = xstrto_range_sfx umax tmax numstr 10 lower upper None s"

definition xato_sfx :: "nat \<Rightarrow> nat \<Rightarrow> string \<Rightarrow> (string \<times> nat) list option \<Rightarrow> 'z bb_scheme \<Rightarrow> (int, 'z bb_scheme) run" where
  "xato_sfx umax tmax numstr sfxs s =
     xstrto_range_sfx umax tmax numstr 10 (- int tmax - 1) (int tmax) sfxs s"

definition xato :: "nat \<Rightarrow> nat \<Rightarrow> string \<Rightarrow> 'z bb_scheme \<Rightarrow> (int, 'z bb_scheme) run" where
  "xato umax tmax numstr s = xstrto_range_sfx umax tmax numstr 10 (- int tmax - 1) (int tmax) None s"

definition UINT_MAX :: nat where "UINT_MAX = 4294967295"
definition INT_MAX :: nat where "INT_MAX = 2147483647"

definition xatoi_u :: "string \<Rightarrow> 'z bb_scheme \<Rightarrow> (nat, 'z bb_scheme) run" where
  "xatoi_u numstr s = xatou_range UINT_MAX numstr 0 INT_MAX s"

definition xatou16 :: "string \<Rightarrow> 'z bb_scheme \<Rightarrow> (nat, 'z bb_scheme) run" where
  "xatou16 numstr s = xatou_range UINT_MAX numstr 0 0xFFFF s"


subsection \<open>Lemmas\<close>

subsubsection \<open>Messages\<close>

definition error_line :: "string \<Rightarrow> string \<Rightarrow> cptr \<Rightarrow> string \<Rightarrow> cptr \<Rightarrow> string" where
  "error_line name eol fmt out strerr =
     name @ '': '' @ out
     @ (case strerr of None \<Rightarrow> []
        | Some e \<Rightarrow> (case fmt of None \<Rightarrow> [] | Some f \<Rightarrow> if f = [] then [] else '': '') @ e) @ eol"

lemma poke_behind: "length b \<le> length r \<Longrightarrow> poke (length p) b (p @ r) = Ok (p @ b @ drop (length b) r)"
  by (simp add: poke_def)

lemma poke_at:
  "length p = off \<Longrightarrow> length b \<le> length r \<Longrightarrow> poke off b (p @ r) = Ok (p @ b @ drop (length b) r)"
  using poke_behind by blast

lemma verror_head:
  assumes "length r = length name + 2 + k" "take (length out) r = out"
  obtains q where "length q = k - length out"
    "length out \<le> k \<longrightarrow> rbind (poke (length name + 2) (take (length out) r) r) (\<lambda>msg. rbind (poke 0 (name @ [NUL]) msg) (\<lambda>msg.
       rbind (poke (length name + 2 - 2) '':'' msg) (\<lambda>msg. rbind (poke (length name + 2 - 1) '' '' msg) f)))
     = f ((name @ '': '' @ out) @ q)"
proof -
  obtain a x y b where r: "r = (a @ [x, y]) @ b" "length a = length name" "length b = k"
  proof (rule that)
    let ?n = "length name"
    have n: "?n < length r" "Suc ?n < length r" using assms(1) by simp_all
    show "r = (take ?n r @ [r ! ?n, r ! Suc ?n]) @ drop (Suc (Suc ?n)) r"
      using n by (metis Cons_nth_drop_Suc append.assoc append_Cons append_Nil append_take_drop_id)
  qed (use assms(1) in simp_all)
  let ?q = "drop (length out) b"
  show thesis
  proof (rule that [of ?q])
    show "length ?q = k - length out" using r(3) by simp
    show "length out \<le> k \<longrightarrow> rbind (poke (length name + 2) (take (length out) r) r) (\<lambda>msg. rbind (poke 0 (name @ [NUL]) msg) (\<lambda>msg.
       rbind (poke (length name + 2 - 2) '':'' msg) (\<lambda>msg. rbind (poke (length name + 2 - 1) '' '' msg) f)))
     = f ((name @ '': '' @ out) @ ?q)"
    proof
      assume k: "length out \<le> k"
      have 1: "poke (length name + 2) (take (length out) r) r = Ok ((a @ [x, y]) @ out @ ?q)"
        using poke_at [of "a @ [x, y]" "length name + 2" out b] r k assms(2) by simp
      have 2: "poke 0 (name @ [NUL]) ((a @ [x, y]) @ out @ ?q) = Ok ((name @ [NUL]) @ y # out @ ?q)"
        using poke_at [of "[]" 0 "name @ [NUL]" "(a @ [x, y]) @ out @ ?q"] r(2) by simp
      have 3: "poke (length name) '':'' ((name @ [NUL]) @ y # out @ ?q) = Ok ((name @ '':'') @ y # out @ ?q)"
        using poke_at [of name "length name" "'':''" "NUL # y # out @ ?q"] by simp
      have 4: "poke (length name + 1) '' '' ((name @ '':'') @ y # out @ ?q) = Ok ((name @ '': '' @ out) @ ?q)"
        using poke_at [of "name @ '':''" "length name + 1" "'' ''" "y # out @ ?q"] by simp
      show "rbind (poke (length name + 2) (take (length out) r) r) (\<lambda>msg. rbind (poke 0 (name @ [NUL]) msg) (\<lambda>msg.
         rbind (poke (length name + 2 - 2) '':'' msg) (\<lambda>msg. rbind (poke (length name + 2 - 1) '' '' msg) f)))
       = f ((name @ '': '' @ out) @ ?q)"
        using 1 2 3 4 by simp
    qed
  qed
qed

lemma verror_buffer_ok:
  "\<exists>buf n. verror_buffer name eol fmt out strerr = Ok (buf, n) \<and> take n buf = error_line name eol fmt out strerr \<and> n < length buf"
proof -
  define el where "el = (case strerr of None \<Rightarrow> 0 | Some e \<Rightarrow> length e)"
  define r where "r = out @ [NUL] @ replicate (length name + 2 + length out + el + length eol + 3 - (length out + 1)) NUL"
  have r: "length r = length name + 2 + (length out + el + length eol + 3)" "take (length out) r = out" by (simp_all add: r_def)
  let ?p = "name @ '': '' @ out"
  have len: "length ?p = length out + (length name + 2)" by simp
  define f where "f = (\<lambda>msg. rbind (case strerr of
      None \<Rightarrow> Ok (msg, length out + (length name + 2))
    | Some e \<Rightarrow>
        let nonempty = (case fmt of None \<Rightarrow> False | Some f \<Rightarrow> f \<noteq> [])
        in rbind (if nonempty then poke (length out + (length name + 2)) '': '' msg else Ok msg) (\<lambda>msg.
           let used = (if nonempty then length out + (length name + 2) + 2 else length out + (length name + 2))
           in rbind (poke used (e @ [NUL]) msg) (\<lambda>msg. Ok (msg, used + el))))
     (\<lambda>(msg, used). rbind (poke used (eol @ [NUL]) msg) (\<lambda>msg. Ok (msg, used + length eol))))"
  have v: "verror_buffer name eol fmt out strerr =
      rbind (poke (length name + 2) (take (length out) r) r) (\<lambda>msg. rbind (poke 0 (name @ [NUL]) msg) (\<lambda>msg.
       rbind (poke (length name + 2 - 2) '':'' msg) (\<lambda>msg. rbind (poke (length name + 2 - 1) '' '' msg) f)))"
    unfolding verror_buffer_def Let_def f_def el_def [symmetric] r_def [symmetric] by (rule refl)
  obtain q where "length q = length out + el + length eol + 3 - length out"
    and imp: "length out \<le> length out + el + length eol + 3 \<longrightarrow> verror_buffer name eol fmt out strerr = f (?p @ q)"
    unfolding v by (rule verror_head [OF r, of f])
  then have q: "length q = el + length eol + 3" "verror_buffer name eol fmt out strerr = f (?p @ q)"
    by simp (rule mp [OF imp], simp)
  show ?thesis
  proof (cases strerr)
    case None
    have "poke (length ?p) (eol @ [NUL]) (?p @ q) = Ok (?p @ (eol @ [NUL]) @ drop (length (eol @ [NUL])) q)"
      using q(1) by (intro poke_at) simp_all
    then have "f (?p @ q) = Ok (?p @ (eol @ [NUL]) @ drop (length (eol @ [NUL])) q, length ?p + length eol)"
      unfolding f_def None len by simp
    with q None show ?thesis by (auto simp: error_line_def el_def)
  next
    case (Some e)
    let ?sep = "case fmt of None \<Rightarrow> [] | Some f \<Rightarrow> if f = [] then [] else '': ''"
    have el: "el = length e" using Some by (simp add: el_def)
    have s: "length ?sep \<le> 2" by (simp split: option.split)
    let ?q = "drop (length ?sep) q"
    have 1: "(if (case fmt of None \<Rightarrow> False | Some f \<Rightarrow> f \<noteq> []) then poke (length ?p) '': '' (?p @ q) else Ok (?p @ q))
        = Ok ((?p @ ?sep) @ ?q)"
      using q(1) poke_behind [of "'': ''" q ?p] by (auto split: option.split)
    have 2: "poke (length (?p @ ?sep)) (e @ [NUL]) ((?p @ ?sep) @ ?q) = Ok ((?p @ ?sep @ e) @ NUL # drop (length e + 1) ?q)"
      using poke_behind [of "e @ [NUL]" ?q "?p @ ?sep"] q(1) s el by simp
    have 3: "poke (length (?p @ ?sep @ e)) (eol @ [NUL]) ((?p @ ?sep @ e) @ NUL # drop (length e + 1) ?q) =
        Ok ((?p @ ?sep @ e) @ (eol @ [NUL]) @ drop (length eol) (drop (length e + 1) ?q))"
      using poke_behind [of "eol @ [NUL]" "NUL # drop (length e + 1) ?q" "?p @ ?sep @ e"] q(1) s el by simp
    have u: "(if (case fmt of None \<Rightarrow> False | Some f \<Rightarrow> f \<noteq> []) then length out + (length name + 2) + 2
        else length out + (length name + 2)) = length (?p @ ?sep)" by (simp split: option.split)
    have o': "length (?p @ ?sep) + el = length (?p @ ?sep @ e)" using el by simp
    have "f (?p @ q) = Ok ((?p @ ?sep @ e) @ (eol @ [NUL]) @ drop (length eol) (drop (length e + 1) ?q), length (?p @ ?sep @ e) + length eol)"
      unfolding f_def Some Let_def option.case u 1 [unfolded len] rbind_simps 2 prod.case o' 3 by (rule refl)
    with q Some show ?thesis by (simp add: error_line_def)
  qed
qed


subsubsection \<open>Descriptors\<close>

text \<open>A state that differs in what was written and in the error number only.\<close>

definition io_only :: "'z bb_scheme \<Rightarrow> 'z bb_scheme \<Rightarrow> bool" where
  "io_only s t \<longleftrightarrow> t = s\<lparr>wr := wr t, sent := sent t, errno := errno t\<rparr>"

lemma io_only_fields:
  assumes "io_only s t"
  shows "die_sleep t = die_sleep s \<and> xfunc_error_retval t = xfunc_error_retval s \<and> applet_name t = applet_name s
    \<and> rd t = rd s \<and> logmode t = logmode s \<and> msg_eol t = msg_eol s \<and> strerror t = strerror s"
proof -
  obtain w x e where "t = s\<lparr>wr := w, sent := x, errno := e\<rparr>" using assms unfolding io_only_def by blast
  then show ?thesis by simp
qed

lemma io_only_refl [simp]: "io_only s s"
  by (simp add: io_only_def)

lemma io_only_trans: "io_only s t \<Longrightarrow> io_only t u \<Longrightarrow> io_only s u"
proof -
  assume "io_only s t" "io_only t u"
  then obtain w x e w' x' e' where "t = s\<lparr>wr := w, sent := x, errno := e\<rparr>" "u = t\<lparr>wr := w', sent := x', errno := e'\<rparr>"
    unfolding io_only_def by blast
  then show ?thesis by (simp add: io_only_def)
qed

text \<open>No error other than an interrupted call.\<close>

definition wr_fine :: "wr_answer list \<Rightarrow> bool" where
  "wr_fine as \<longleftrightarrow> (\<forall>e. W_err e \<in> set as \<longrightarrow> e = EINTR)"

lemma safe_write_spec:
  assumes "safe_write fd buf s = (n, t)"
  shows "io_only s t \<and> n \<le> int (length buf)
    \<and> (if n < 0 then n = - 1 \<and> sent t = sent s \<and> \<not> wr_fine (wr s fd)
       else sent t = (sent s)(fd := sent s fd @ take (nat n) buf))
    \<and> (wr_fine (wr s fd) \<longrightarrow> wr_fine (wr t fd))"
  using assms
proof (induction fd buf s arbitrary: n t rule: safe_write.induct)
  case (1 fd buf s)
  obtain m u where u: "sys_write fd buf s = (m, u)" by fastforce
  have w: "io_only s u" "m \<le> int (length buf)" "m < 0 \<Longrightarrow> m = - 1 \<and> sent u = sent s \<and> W_err (errno u) \<in> set (wr s fd)"
    "0 \<le> m \<Longrightarrow> sent u = (sent s)(fd := sent s fd @ take (nat m) buf)" "set (wr u fd) \<subseteq> set (wr s fd)"
    using u by (auto simp: sys_write_def io_only_def min_def split: list.splits wr_answer.splits)
  then have sub: "wr_fine (wr s fd) \<Longrightarrow> wr_fine (wr u fd)" by (auto simp: wr_fine_def)
  show ?case
  proof (cases "m < 0 \<and> errno u = EINTR")
    case True
    with "1.prems" u have "safe_write fd buf u = (n, t)" by (simp add: safe_write.simps [of fd buf s])
    note ih = "1.IH" [OF u [symmetric] refl True this]
    have "sent u = sent s" using w(3) True by simp
    with ih sub io_only_trans [OF w(1)] show ?thesis by (auto split: if_splits)
  next
    case False
    with "1.prems" u have t: "n = m" "t = u" by (auto simp: safe_write.simps [of fd buf s])
    have "m < 0 \<Longrightarrow> \<not> wr_fine (wr s fd)" using False w(3) by (auto simp: wr_fine_def)
    with w sub show ?thesis unfolding t by auto
  qed
qed

lemma full_write_loop_spec:
  assumes "full_write_loop fd buf tot s = (n, t)" "0 \<le> tot"
  shows "io_only s t \<and> (\<exists>k\<le>length buf. sent t = (sent s)(fd := sent s fd @ take k buf)
    \<and> (n = tot + int k \<or> n = - 1 \<and> k = 0 \<and> tot = 0 \<and> buf \<noteq> []) \<and> (wr_fine (wr s fd) \<longrightarrow> n = tot + int (length buf) \<and> wr_fine (wr t fd)))"
  using assms
proof (induction fd buf tot s arbitrary: n t rule: full_write_loop.induct)
  case (1 fd buf tot s)
  show ?case
  proof (cases "buf = []")
    case True
    with "1.prems" show ?thesis by (auto simp: full_write_loop.simps [of fd "[]" tot s])
  next
    case buf: False
    obtain cc u where u: "safe_write fd buf s = (cc, u)" by fastforce
    note w = safe_write_spec [OF u]
    show ?thesis
    proof (cases "cc < 0")
      case True
      with "1.prems" u buf have "n = (if tot \<noteq> 0 then tot else cc)" "t = u"
        by (auto simp: full_write_loop.simps [of fd buf tot s])
      with w True buf show ?thesis by (intro conjI exI [of _ 0]) auto
    next
      case False
      define b where "b = drop (nat cc) buf"
      from False "1.prems" u buf have l: "full_write_loop fd b (tot + cc) u = (n, t)" "0 \<le> tot + cc"
        by (simp_all add: full_write_loop.simps [of fd buf tot s] b_def)
      from "1.IH" [OF buf u [symmetric] refl False, folded b_def, OF l] obtain k where
        k: "io_only u t" "k \<le> length b" "sent t = (sent u)(fd := sent u fd @ take k b)"
          "n = tot + cc + int k \<or> n = - 1 \<and> k = 0 \<and> tot + cc = 0 \<and> b \<noteq> []"
          "wr_fine (wr u fd) \<longrightarrow> n = tot + cc + int (length b) \<and> wr_fine (wr t fd)"
        by blast
      let ?k = "nat cc + k"
      have "take ?k buf = take (nat cc) buf @ take k b" by (simp add: b_def take_add)
      with w False k(3) have "sent t = (sent s)(fd := sent s fd @ take ?k buf)" by simp
      moreover have "?k \<le> length buf" using w k(2) False unfolding b_def by simp linarith
      moreover have "n = tot + int ?k \<or> n = - 1 \<and> ?k = 0 \<and> tot = 0"
        using k(4) False "1.prems"(2) by auto
      moreover have "wr_fine (wr s fd) \<longrightarrow> n = tot + int (length buf) \<and> wr_fine (wr t fd)"
        using w k(5) False by (auto simp: b_def)
      ultimately show ?thesis using io_only_trans w k(1) buf by blast
    qed
  qed
qed

lemma full_write_spec:
  assumes "full_write fd buf s = (n, t)"
  shows "io_only s t \<and> (\<exists>k\<le>length buf. sent t = (sent s)(fd := sent s fd @ take k buf)
    \<and> (n = int k \<or> n = - 1 \<and> k = 0 \<and> buf \<noteq> []) \<and> (wr_fine (wr s fd) \<longrightarrow> n = int (length buf) \<and> wr_fine (wr t fd)))"
  using full_write_loop_spec [of fd buf 0 s n t] assms by (auto simp: full_write_def)

text \<open>A state that differs only in what was written, the error number and the memory used for messages.\<close>

definition msg_only :: "'z bb_scheme \<Rightarrow> 'z bb_scheme \<Rightarrow> bool" where
  "msg_only s t \<longleftrightarrow> t = s\<lparr>wr := wr t, sent := sent t, errno := errno t, mem := mem t\<rparr>"

lemma msg_onlyE:
  assumes "msg_only s t"
  obtains w x e m where "t = s\<lparr>wr := w, sent := x, errno := e, mem := m\<rparr>"
  using assms unfolding msg_only_def by blast

lemma msg_only_fields:
  assumes "msg_only s t"
  shows "die_sleep t = die_sleep s \<and> xfunc_error_retval t = xfunc_error_retval s \<and> applet_name t = applet_name s
    \<and> rd t = rd s \<and> logmode t = logmode s \<and> msg_eol t = msg_eol s \<and> strerror t = strerror s"
  using assms by (elim msg_onlyE) simp

lemma io_msg_only: "io_only s t \<Longrightarrow> msg_only s t \<and> mem t = mem s"
proof -
  assume "io_only s t"
  then obtain w x e where "t = s\<lparr>wr := w, sent := x, errno := e\<rparr>" unfolding io_only_def by blast
  then show ?thesis by (simp add: msg_only_def)
qed

lemma msg_only_refl [simp]: "msg_only s s"
  by (simp add: msg_only_def)

lemma msg_only_trans: "msg_only s t \<Longrightarrow> msg_only t u \<Longrightarrow> msg_only s u"
  by (elim msg_onlyE) (simp add: msg_only_def)

lemma msg_alloc_spec:
  "msg_alloc s = (b, t) \<Longrightarrow> msg_only s t \<and> sent t = sent s \<and> wr t = wr s \<and> errno t = errno s \<and> logmode t = logmode s
    \<and> applet_name t = applet_name s \<and> msg_eol t = msg_eol s \<and> mem t = drop 1 (mem s) \<and> b = (mem s = [] \<or> hd (mem s))"
  by (auto simp: msg_alloc_def msg_only_def split: list.splits)

lemma xfunc_die_ends [simp]:
  "xfunc_die u \<noteq> Ret a t" "Ret a t \<noteq> xfunc_die u" "xfunc_die u \<noteq> Halt (Crash c) t"
  by (simp_all add: xfunc_die_def)

lemma xfunc_die_stops [simp]: "sbind (xfunc_die u) f = xfunc_die u"
  by (simp add: xfunc_die_def)

text \<open>
  With memory a message returns, and a standard error without errors shows it in full. When there is no memory to
  format it, nothing is shown; when there is none to put it together, the program ends.
\<close>

lemma bb_verror_msg_memory:
  assumes "mem s = []"
  shows "\<exists>t. bb_verror_msg fmt out strerr s = Ret () t \<and> msg_only s t \<and> mem t = []
    \<and> (logmode s = LOGMODE_STDIO \<and> wr_fine (wr s 2) \<longrightarrow>
       sent t = (sent s)(2 := sent s 2 @ error_line (applet_name s) (msg_eol s) fmt out strerr) \<and> wr_fine (wr t 2))"
proof -
  let ?line = "error_line (applet_name s) (msg_eol s) fmt out strerr"
  from verror_buffer_ok obtain buf n where
    b: "verror_buffer (applet_name s) (msg_eol s) fmt out strerr = Ok (buf, n)" "take n buf = ?line" by blast
  obtain k t where w: "full_write 2 ?line s = (k, t)" by fastforce
  from full_write_spec [OF w] have ws: "io_only s t"
    "wr_fine (wr s 2) \<Longrightarrow> sent t = (sent s)(2 := sent s 2 @ ?line) \<and> wr_fine (wr t 2)" by auto
  have v: "bb_verror_msg fmt out strerr s = Ret () (if odd (logmode s) then t else s)"
    using assms b w by (simp add: bb_verror_msg.simps [of fmt out strerr s] msg_alloc_def)
  from ws io_msg_only [OF ws(1)] assms v show ?thesis
    by (intro exI [of _ "if odd (logmode s) then t else s"]) (auto simp: LOGMODE_STDIO_def)
qed

lemma bb_verror_msg_spec:
  "\<exists>t. (bb_verror_msg fmt out strerr s = Ret () t \<or> bb_verror_msg fmt out strerr s = xfunc_die t) \<and> msg_only s t"
proof (induction fmt out strerr s rule: bb_verror_msg.induct)
  case (1 fmt out strerr s)
  obtain b u where u: "msg_alloc s = (b, u)" by fastforce
  obtain c v where v: "msg_alloc u = (c, v)" by fastforce
  note su = msg_alloc_spec [OF u] and uv = msg_alloc_spec [OF v]
  have sv: "msg_only s v" using su uv msg_only_trans by blast
  consider "logmode s = 0 \<or> \<not> b" | "logmode s \<noteq> 0" "b" "\<not> c" | "logmode s \<noteq> 0" "b" "c" by blast
  then show ?case
  proof cases
    case 1
    with u su show ?thesis by (auto simp: bb_verror_msg.simps [of fmt out strerr s])
  next
    case 2
    from "1.IH" [OF 2(1) u [symmetric] refl _ v [symmetric] refl] 2 obtain t where
      "bb_verror_msg (Some bb_msg_memory_exhausted) bb_msg_memory_exhausted None v = Ret () t
       \<or> bb_verror_msg (Some bb_msg_memory_exhausted) bb_msg_memory_exhausted None v = xfunc_die t" "msg_only v t" by blast
    with 2 u v msg_only_trans [OF sv] show ?thesis
      by (intro exI [of _ t]) (auto simp: bb_verror_msg.simps [of fmt out strerr s])
  next
    case 3
    from verror_buffer_ok obtain buf n where
      b: "verror_buffer (applet_name v) (msg_eol v) fmt out strerr = Ok (buf, n)" by blast
    obtain k t where w: "full_write 2 (take n buf) v = (k, t)" by fastforce
    from full_write_spec [OF w] io_msg_only msg_only_trans [OF sv] have "msg_only s t" by blast
    with 3 u v b w sv show ?thesis by (auto simp: bb_verror_msg.simps [of fmt out strerr s])
  qed
qed

lemma bb_verror_msg_no_memory:
  "mem s = False # bs \<Longrightarrow> bb_verror_msg fmt out strerr s = Ret () (if logmode s = 0 then s else s\<lparr>mem := bs\<rparr>)"
  by (simp add: bb_verror_msg.simps [of fmt out strerr s] msg_alloc_def)

text \<open>A program that is not run from inside a shell ends with its error status.\<close>

lemma xfunc_die_exit: "0 \<le> die_sleep s \<Longrightarrow> xfunc_die s = Halt (Exit (xfunc_error_retval s)) s"
  by (simp add: xfunc_die_def)

text \<open>
  The run \<open>m\<close> ends the program from the state \<open>t\<close>: \<^verbatim>\<open>xfunc_die\<close> is reached, nothing but messages is written before, and
  a standard error that works shows the line \<open>shown\<close> if there is memory for it, and nothing if there is none to format it.
\<close>

definition dies_with :: "string \<Rightarrow> 'z bb_scheme \<Rightarrow> ('a, 'z bb_scheme) run \<Rightarrow> bool" where
  "dies_with shown t m \<longleftrightarrow> (\<exists>u. m = xfunc_die u \<and> msg_only t u
     \<and> (mem t = [] \<and> logmode t = LOGMODE_STDIO \<and> wr_fine (wr t 2) \<longrightarrow> sent u = (sent t)(2 := sent t 2 @ shown))
     \<and> (mem t \<noteq> [] \<and> \<not> hd (mem t) \<longrightarrow> sent u = sent t))"

lemma message_dies:
  "dies_with (error_line (applet_name t) (msg_eol t) fmt out e) t
     (sbind (bb_verror_msg fmt out e t) (\<lambda>_ s. xfunc_die s))"
proof (cases "mem t")
  case Nil
  from bb_verror_msg_memory [OF Nil, of fmt out e] Nil show ?thesis unfolding dies_with_def by auto
next
  case (Cons b bs)
  show ?thesis
  proof (cases b)
    case True
    from bb_verror_msg_spec [of fmt out e t] Cons True show ?thesis unfolding dies_with_def by auto
  next
    case False
    with Cons bb_verror_msg_no_memory [of t bs fmt out e] show ?thesis
      unfolding dies_with_def by (intro exI [of _ "if logmode t = 0 then t else t\<lparr>mem := bs\<rparr>"]) (simp add: msg_only_def)
  qed
qed

definition error_shown :: "string \<Rightarrow> string \<Rightarrow> 'z bb_scheme \<Rightarrow> string" where
  "error_shown fmt out t = error_line (applet_name t) (msg_eol t) (Some fmt) out None"

definition perror_shown :: "string \<Rightarrow> string \<Rightarrow> 'z bb_scheme \<Rightarrow> string" where
  "perror_shown fmt out t =
     error_line (applet_name t) (msg_eol t) (Some fmt) out (if errno t \<noteq> 0 then Some (strerror t (errno t)) else None)"

lemma die_messages [simp, intro]:
  "dies_with (error_shown fmt out t) t (bb_error_msg_and_die fmt out t)"
  "dies_with (perror_shown fmt out t) t (bb_perror_msg_and_die fmt out t)"
  unfolding error_shown_def perror_shown_def bb_error_msg_and_die_def bb_perror_msg_and_die_def by (rule message_dies)+

lemma dies_with_exit:
  assumes "dies_with shown t m" "0 \<le> die_sleep t"
  shows "\<exists>u. m = Halt (Exit (xfunc_error_retval t)) u \<and> msg_only t u
    \<and> (mem t = [] \<and> logmode t = LOGMODE_STDIO \<and> wr_fine (wr t 2) \<longrightarrow> sent u = (sent t)(2 := sent t 2 @ shown))
    \<and> (mem t \<noteq> [] \<and> \<not> hd (mem t) \<longrightarrow> sent u = sent t)"
  using assms msg_only_fields unfolding dies_with_def by (fastforce simp: xfunc_die_exit)

lemma bb_error_msg_and_die_spec:
  assumes "0 \<le> die_sleep s"
  shows "\<exists>t. bb_error_msg_and_die fmt out s = Halt (Exit (xfunc_error_retval s)) t \<and> msg_only s t
    \<and> (mem s = [] \<and> logmode s = LOGMODE_STDIO \<and> wr_fine (wr s 2) \<longrightarrow>
       sent t = (sent s)(2 := sent s 2 @ error_line (applet_name s) (msg_eol s) (Some fmt) out None))"
  using dies_with_exit [OF die_messages(1) [of fmt out s] assms] by (auto simp: error_shown_def)

lemma bb_perror_msg_and_die_spec:
  assumes "0 \<le> die_sleep s"
  shows "\<exists>t. bb_perror_msg_and_die fmt out s = Halt (Exit (xfunc_error_retval s)) t \<and> msg_only s t"
  using dies_with_exit [OF die_messages(2) [of fmt out s] assms] by auto

subsubsection \<open>Numbers\<close>

lemma is_base_digit_10: "is_base_digit 10 c = isdigit c"
  by (auto simp: is_base_digit_def digit_of_def isdigit_def Let_def split: option.split)

lemma base_value_10: "list_all isdigit s \<Longrightarrow> 0 \<le> acc \<Longrightarrow> int (base_value 10 s (nat acc)) = digits_value s acc"
proof (induction s arbitrary: acc)
  case (Cons c s)
  then have c: "isdigit c" "list_all isdigit s" by simp_all
  then have "int (10 * nat acc + the (digit_of c)) = 10 * acc + digit_value c"
    using Cons.prems(2) by (auto simp: isdigit_def digit_of_def digit_value_def Let_def)
  moreover from this have "10 * nat acc + the (digit_of c) = nat (10 * acc + digit_value c)" by linarith
  moreover have "0 \<le> 10 * acc + digit_value c" using Cons.prems(2) c(1) by (simp add: isdigit_def digit_value_def)
  ultimately show ?case using Cons.IH [OF c(2)] by simp
qed simp

text \<open>What is accepted as a decimal number.\<close>

definition decimal :: "string \<Rightarrow> bool" where
  "decimal t \<longleftrightarrow> t \<noteq> [] \<and> list_all isdigit t"

lemma strtou_10:
  assumes "\<not> isspace (char_at t 0)" "char_at t 0 \<noteq> CHR ''-''" "char_at t 0 \<noteq> CHR ''+''"
  shows "strtou umax 10 t =
    (let d = takeWhile isdigit t; n = nat (digits_value d 0)
     in if d = [] then (0, False, t) else if umax < n then (umax, True, drop (length d) t) else (n, False, drop (length d) t))"
proof -
  have sp: "dropWhile isspace t = t" using assms(1) by (cases t) (auto simp: char_at_def)
  have dig: "is_base_digit 10 = isdigit" by (rule ext) (rule is_base_digit_10)
  have "list_all isdigit (takeWhile isdigit t)" by (auto simp: list_all_iff dest: set_takeWhileD)
  from base_value_10 [OF this, of 0] have "base_value 10 (takeWhile isdigit t) 0 = nat (digits_value (takeWhile isdigit t) 0)"
    by simp
  then show ?thesis using assms(2,3) by (simp add: strtou_def sp dig Let_def)
qed

lemma decimal_first: "decimal t \<Longrightarrow> \<not> isspace (char_at t 0) \<and> char_at t 0 \<noteq> CHR ''-'' \<and> char_at t 0 \<noteq> CHR ''+''"
  using isdigit_not_space by (cases t) (auto simp: decimal_def char_at_def)

lemma digits_value_nonneg: "list_all isdigit t \<Longrightarrow> 0 \<le> acc \<Longrightarrow> 0 \<le> digits_value t acc"
  by (induction t arbitrary: acc) (auto simp: isdigit_def digit_value_def)

lemma xstrtou_decimal:
  assumes "decimal t" "digits_value t 0 \<le> int umax" "int lower \<le> digits_value t 0" "digits_value t 0 \<le> int upper"
  shows "xstrtou_range_sfx umax t 10 lower upper None s = Ret (nat (digits_value t 0)) s"
proof -
  have t: "takeWhile isdigit t = t" "t \<noteq> []" using assms(1) takeWhile_all [of isdigit t] by (auto simp: decimal_def)
  note f = decimal_first [OF assms(1)]
  have b: "nat (digits_value t 0) \<le> umax" "lower \<le> nat (digits_value t 0)" "nat (digits_value t 0) \<le> upper" using assms(2-4) by linarith+
  have "strtou umax 10 t = (nat (digits_value t 0), False, [])"
    using strtou_10 [of t umax, unfolded t(1)] f t(2) b(1) by (simp add: Let_def)
  with f t(2) b(2,3) show ?thesis by (simp add: xstrtou_range_sfx_def Let_def)
qed

lemma xstrtou_rejects:
  assumes "0 \<le> die_sleep s" "\<not> (decimal t \<and> digits_value t 0 \<le> int umax \<and> int lower \<le> digits_value t 0 \<and> digits_value t 0 \<le> int upper)"
  shows "\<exists>u. xstrtou_range_sfx umax t 10 lower upper None s = Halt (Exit (xfunc_error_retval s)) u"
proof -
  have die: "\<exists>u. bb_error_msg_and_die f out (s\<lparr>errno := e\<rparr>) = Halt (Exit (xfunc_error_retval s)) u" for f out e
    using bb_error_msg_and_die_spec [of "s\<lparr>errno := e\<rparr>" f out] assms(1) by auto
  have die0: "\<exists>u. bb_error_msg_and_die f out s = Halt (Exit (xfunc_error_retval s)) u" for f out
    using bb_error_msg_and_die_spec [of s f out] assms(1) by auto
  show ?thesis
  proof (cases "isspace (char_at t 0) \<or> char_at t 0 = CHR ''-'' \<or> char_at t 0 = CHR ''+''")
    case True
    with die0 show ?thesis by (auto simp: xstrtou_range_sfx_def Let_def)
  next
    case False
    let ?d = "takeWhile isdigit t"
    show ?thesis
    proof (cases "?d = [] \<or> umax < nat (digits_value ?d 0)")
      case True
      with False die strtou_10 [of t umax] show ?thesis
        by (auto simp: xstrtou_range_sfx_def Let_def)
    next
      case d: False
      then have st: "strtou umax 10 t = (nat (digits_value ?d 0), False, drop (length ?d) t)"
        using False strtou_10 [of t umax] by (simp add: Let_def)
      have shorter: "length (drop (length ?d) t) \<noteq> length t" using d by (cases t) (auto split: if_splits)
      show ?thesis
      proof (cases "drop (length ?d) t = []")
        case True
        then have all: "?d = t" by (metis append.right_neutral append_take_drop_id takeWhile_eq_take)
        then have "list_all isdigit t" by (metis list_all_iff set_takeWhileD)
        then have dec: "decimal t" "0 \<le> digits_value t 0" using d all digits_value_nonneg by (auto simp: decimal_def)
        with assms(2) d all have "\<not> (lower \<le> nat (digits_value t 0) \<and> nat (digits_value t 0) \<le> upper)" by auto
        with die0 False st shorter True all show ?thesis by (auto simp: xstrtou_range_sfx_def Let_def)
      next
        case rest: False
        with die0 False st shorter show ?thesis by (auto simp: xstrtou_range_sfx_def Let_def)
      qed
    qed
  qed
qed


subsubsection \<open>Copying\<close>

text \<open>A source that delivers data and is interrupted at most; what it delivers.\<close>

fun rd_fine :: "rd_answer list \<Rightarrow> bool" where
  "rd_fine [] = True"
| "rd_fine (Data d # as) = (d \<noteq> [] \<and> rd_fine as)"
| "rd_fine (R_err e # as) = (e = EINTR \<and> rd_fine as)"

fun rd_bytes :: "rd_answer list \<Rightarrow> bytes" where
  "rd_bytes [] = []"
| "rd_bytes (Data d # as) = d @ rd_bytes as"
| "rd_bytes (R_err e # as) = rd_bytes as"

lemma safe_read_fine:
  assumes "safe_read fd count s = (n, d, t)" "rd_fine (rd s fd)" "0 < count"
  shows "rd_bytes (rd s fd) = d @ rd_bytes (rd t fd) \<and> rd_fine (rd t fd) \<and> n = int (length d)
    \<and> (d = [] \<longrightarrow> rd_bytes (rd t fd) = []) \<and> sent t = sent s \<and> wr t = wr s"
  using assms
proof (induction fd count s arbitrary: n d t rule: safe_read.induct)
  case (1 fd count s)
  show ?case
  proof (cases "rd s fd")
    case Nil
    then have "safe_read fd count s = (0, [], s)" by (simp add: safe_read.simps [of fd count s] sys_read_def)
    with "1.prems" Nil show ?thesis by simp
  next
    case (Cons a as)
    show ?thesis
    proof (cases a)
      case (Data x)
      have "x \<noteq> []" "rd_fine as" using "1.prems"(2) Cons Data by simp_all
      moreover have "n = int (length (take count x))" "d = take count x"
        "t = s\<lparr>rd := (rd s)(fd := if drop count x = [] then as else Data (drop count x) # as)\<rparr>"
        using "1.prems"(1) Cons Data by (auto simp: safe_read.simps [of fd count s] sys_read_def)
      ultimately show ?thesis using Cons Data "1.prems"(3) by auto
    next
      case (R_err e)
      then have f: "e = EINTR" "rd_fine as" using "1.prems"(2) Cons by simp_all
      let ?u = "s\<lparr>rd := (rd s)(fd := as), errno := e\<rparr>"
      have sr: "sys_read fd count s = (- 1, [], ?u)" using Cons R_err by (simp add: sys_read_def)
      then have "safe_read fd count ?u = (n, d, t)"
        using "1.prems"(1) f(1) by (simp add: safe_read.simps [of fd count s])
      from "1.IH" [OF sr [symmetric] refl refl _ this] f "1.prems"(3) Cons R_err show ?thesis by simp
    qed
  qed
qed

lemma copy_loop_eof:
  assumes "rd_fine (rd s src)" "wr_fine (wr s dst)" "0 \<le> dst"
  shows "\<exists>t. copy_loop src dst 4096 True tot s = Ret (int (tot + length (rd_bytes (rd s src)))) t
    \<and> sent t = (sent s)(dst := sent s dst @ rd_bytes (rd s src))"
  using assms
proof (induction "rd_size (rd s src)" arbitrary: s tot rule: less_induct)
  case less
  obtain n d u where u: "safe_read src 4096 s = (n, d, u)" by (metis prod_cases3)
  from safe_read_fine [OF this less.prems(1)] have
    f: "rd_bytes (rd s src) = d @ rd_bytes (rd u src)" "rd_fine (rd u src)" "n = int (length d)"
      "d = [] \<longrightarrow> rd_bytes (rd u src) = []" "sent u = sent s" "wr u = wr s" by simp_all
  show ?case
  proof (cases "d = []")
    case True
    with u f show ?thesis by (simp add: copy_loop.simps [of src dst 4096 True tot s])
  next
    case False
    then have n: "0 < n" using f(3) by simp
    obtain k v where v: "full_write dst d u = (k, v)" by fastforce
    from full_write_spec [OF this] less.prems(2) f(6) have
      w: "io_only u v" "sent v = (sent s)(dst := sent s dst @ d)" "k = int (length d)" "wr_fine (wr v dst)"
      using f(5) by auto
    have rv: "rd v = rd u" using io_only_fields [OF w(1)] by simp
    have "rd_size (rd v src) < rd_size (rd s src)" using safe_read_bounds [OF u] n rv by simp
    from less.hyps [OF this, of "tot + length d"] f(2) w(4) less.prems(3) rv obtain t where
      t: "copy_loop src dst 4096 True (tot + length d) v = Ret (int (tot + length d + length (rd_bytes (rd u src)))) t"
        "sent t = (sent v)(dst := sent v dst @ rd_bytes (rd u src))" by auto
    have "copy_loop src dst 4096 True tot s = copy_loop src dst 4096 True (tot + length d) v"
      using u n f(3) v w(3) less.prems(3) by (simp add: copy_loop.simps [of src dst 4096 True tot s])
    with t f(1) w(2) show ?thesis by simp
  qed
qed

subsection \<open>Properties\<close>

definition sample_bb :: bb where
  "sample_bb = \<lparr>applet_name = ''flash_eraseall'', logmode = LOGMODE_STDIO, msg_eol = [CHR 0x0A], errno = 0,
     strerror = (\<lambda>_. ''Error''), xfunc_error_retval = 1, die_sleep = 0,
     wr = (\<lambda>fd. if fd = 1 then [Took 2, W_err EINTR, Took 0] else []), sent = (\<lambda>_. []),
     rd = (\<lambda>fd. if fd = 0 then [Data ''abc'', R_err EINTR, Data ''de''] else []), mem = []\<rparr>"

text \<open>
  full_write writes the bytes in order and without gaps: what reaches the descriptor is
  the first part of the buffer with the length returned, nothing of it when -1 is returned,
  and all of it when the system reports no error other than an interrupted call.
\<close>

theorem full_write_in_order:
  assumes "full_write fd buf s = (n, t)"
  shows "sent t = (sent s)(fd := sent s fd @ take (nat n) buf) \<and> n \<le> int (length buf)
    \<and> (n < 0 \<longrightarrow> n = - 1 \<and> sent t = sent s) \<and> (wr_fine (wr s fd) \<longrightarrow> n = int (length buf))"
  using full_write_spec [OF assms] by auto

theorem full_write_in_order_witness:
  "\<exists>t. full_write 1 ''abc'' sample_bb = (3, t) \<and> sent t 1 = ''abc''"
proof -
  obtain n t where w: "full_write 1 ''abc'' sample_bb = (n, t)" by fastforce
  have "wr_fine (wr sample_bb 1)" by (simp add: sample_bb_def wr_fine_def)
  with full_write_in_order [OF w] w show ?thesis by (simp add: sample_bb_def)
qed

text \<open>
  C31. An error message is put together inside the memory allocated for it and reaches
  standard error as one line: program name, text, the reason where there is one, end of
  line. The program then ends with its error status, also when there was no memory for the message; nothing
  is shown when the text could not be formatted.
\<close>

theorem error_message_shown:
  assumes "0 \<le> die_sleep s" "logmode s = LOGMODE_STDIO" "wr_fine (wr s 2)"
  shows "(\<exists>buf n. verror_buffer (applet_name s) (msg_eol s) (Some fmt) out strerr = Ok (buf, n) \<and> n < length buf)
    \<and> (\<exists>t. bb_error_msg_and_die fmt out s = Halt (Exit (xfunc_error_retval s)) t
         \<and> (mem s = [] \<longrightarrow> sent t = (sent s)(2 := sent s 2 @ applet_name s @ '': '' @ out @ msg_eol s))
         \<and> (mem s \<noteq> [] \<and> \<not> hd (mem s) \<longrightarrow> sent t = sent s))"
  using dies_with_exit [OF die_messages(1) [of fmt out s] assms(1)] assms(2,3) verror_buffer_ok
  by (fastforce simp: error_line_def error_shown_def)

theorem error_message_shown_witness:
  "\<exists>t. bb_error_msg_and_die ''short read'' ''short read'' sample_bb = Halt (Exit 1) t
     \<and> sent t 2 = ''flash_eraseall: short read'' @ [CHR 0x0A]"
  using error_message_shown [of sample_bb "''short read''" "''short read''" None]
  by (auto simp: sample_bb_def wr_fine_def)

text \<open>
  C33. Numbers on the command line are read exactly: xatoi_u accepts a string if and only if it
  consists of decimal digits and its value is at most INT_MAX, returns this value and
  changes nothing; everything else, signs and spaces included, ends the program.
\<close>

theorem xatoi_u_exact:
  assumes "0 \<le> die_sleep s"
  shows "if decimal t \<and> digits_value t 0 \<le> int INT_MAX then xatoi_u t s = Ret (nat (digits_value t 0)) s
    else \<exists>u. xatoi_u t s = Halt (Exit (xfunc_error_retval s)) u"
proof -
  have "decimal t \<Longrightarrow> 0 \<le> digits_value t 0" by (simp add: decimal_def digits_value_nonneg)
  then show ?thesis
    using xstrtou_decimal [of t UINT_MAX 0 INT_MAX s] xstrtou_rejects [OF assms, of t UINT_MAX 0 INT_MAX]
    by (auto simp: xatoi_u_def xatou_range_def INT_MAX_def UINT_MAX_def)
qed

theorem xatoi_u_exact_witness:
  "xatoi_u ''42'' sample_bb = Ret 42 sample_bb \<and> (\<exists>u. xatoi_u ''+42'' sample_bb = Halt (Exit 1) u)"
proof -
  have d: "0 \<le> die_sleep sample_bb" "xfunc_error_retval sample_bb = 1" by (simp_all add: sample_bb_def)
  have "decimal ''42''" "digits_value ''42'' 0 = 42" "\<not> decimal ''+42''"
    by (simp_all add: decimal_def isdigit_def digit_value_def)
  with xatoi_u_exact [OF d(1), of "''42''"] xatoi_u_exact [OF d(1), of "''+42''"] d(2) show ?thesis
    by (simp add: INT_MAX_def)
qed

text \<open>
  The signed conversion reads back every printed number except the smallest one: the bound
  is raised for a second minus sign instead of the first, so that the smallest value of the
  type, which the comment promises to accept, ends the program.
\<close>

theorem smallest_number_refused:
  assumes "0 \<le> die_sleep s" "tmax \<le> umax"
  shows "\<exists>u. xato umax tmax (show_int (- int tmax - 1)) s = Halt (Exit (xfunc_error_retval s)) u"
proof -
  have neg: "show_int (- int tmax - 1) = CHR ''-'' # show_nat (tmax + 1)" by (simp add: show_int_def nat_add_distrib)
  have "char_at (show_nat (tmax + 1)) 0 \<noteq> CHR ''-''"
    using decimal_first [of "show_nat (tmax + 1)"] by (simp add: decimal_def show_nat_digits)
  moreover obtain u where "xstrtou_range_sfx umax (show_nat (tmax + 1)) 10 0 tmax None s = Halt (Exit (xfunc_error_retval s)) u"
    using xstrtou_rejects [OF assms(1), of "show_nat (tmax + 1)" umax 0 tmax] by (auto simp: show_nat_value)
  ultimately show ?thesis unfolding neg by (simp add: xato_def xstrto_range_sfx_def Let_def char_at_def)
qed

theorem smallest_number_refused_witness:
  "\<exists>u. xato UINT_MAX INT_MAX (show_int (- 2147483648)) sample_bb = Halt (Exit 1) u"
  using smallest_number_refused [of sample_bb INT_MAX UINT_MAX] by (simp add: sample_bb_def INT_MAX_def UINT_MAX_def)

text \<open>
  Copying to the end of the file copies everything: the bytes the source delivers, in
  whatever pieces and with whatever interruptions, are written in order, and their number
  is returned.
\<close>

theorem copy_copies_all:
  assumes "0 \<le> fd1" "0 \<le> fd2" "rd_fine (rd s fd1)" "wr_fine (wr s fd2)"
  shows "\<exists>t. bb_copyfd_eof fd1 fd2 s = Ret (int (length (rd_bytes (rd s fd1)))) t
    \<and> sent t = (sent s)(fd2 := sent s fd2 @ rd_bytes (rd s fd1))"
  using copy_loop_eof [OF assms(3,4,2), of 0] assms(1) by (simp add: bb_copyfd_eof_def bb_full_fd_action_def)

theorem copy_copies_all_witness:
  "\<exists>t. bb_copyfd_eof 0 1 sample_bb = Ret 5 t \<and> sent t 1 = ''abcde''"
  using copy_copies_all [of 0 1 sample_bb] by (auto simp: sample_bb_def wr_fine_def)

end
