(* ===== verification/Busybox_Read.thy ===== *)
theory Busybox_Read
  imports Busybox_Lib
begin

section \<open>Reading lines and files\<close>

text \<open>
  The rest of \<^verbatim>\<open>read.c\<close> and \<^verbatim>\<open>safe_poll.c\<close> of the busybox library: waiting for a descriptor,
  reading a line byte by byte, reading a whole file into memory that grows.
\<close>

subsection \<open>State\<close>

text \<open>
  \<open>polls\<close> are the answers of the next calls of \<^verbatim>\<open>poll\<close>, a result and an error number; when they
  are used up one descriptor is ready. \<open>st_size\<close> is the size \<^verbatim>\<open>fstat\<close> reports, 0 when it fails;
  \<open>shrink_moves\<close> says whether \<^verbatim>\<open>realloc\<close> to a smaller size returns other memory.
\<close>

record rfiles = bb +
  polls :: "(int \<times> int) list"
  st_size :: "int \<Rightarrow> nat"
  open_of :: "string \<Rightarrow> int + int"
  closed :: "int list"
  shrink_moves :: bool

definition EAGAIN :: int where "EAGAIN = 11"
definition ENOMEM :: int where "ENOMEM = 12"

subsection \<open>Waiting\<close>

definition sys_poll :: "'z rfiles_scheme \<Rightarrow> int \<times> 'z rfiles_scheme" where
  "sys_poll s =
     (case polls s of
        [] \<Rightarrow> (1, s)
      | (n, e) # as \<Rightarrow> (n, s\<lparr>polls := as, errno := if n < 0 then e else errno s\<rparr>))"

function safe_poll :: "int \<Rightarrow> 'z rfiles_scheme \<Rightarrow> (int, 'z rfiles_scheme) run" where
  "safe_poll timeout s =
     (let (n, t) = sys_poll s
      in if 0 \<le> n then Ret n t
         else
           let timeout = (if 0 < timeout then timeout - 1 else timeout)
           in if errno t = EINTR \<or> errno t = ENOMEM then safe_poll timeout t
              else sbind (bb_perror_msg ''poll'' ''poll'' t) (\<lambda>_ s. Ret n s))"
  by pat_completeness auto
termination
  by (relation "measure (\<lambda>(timeout, s). length (polls s))")
    (auto simp: sys_poll_def split: list.splits prod.splits if_splits)

declare safe_poll.simps [simp del]

text \<open>What waiting does not change.\<close>

lemma safe_poll_cases:
  "(\<exists>n t. safe_poll timeout s = Ret n t \<and> rd t = rd s \<and> (mem s = [] \<longrightarrow> mem t = []))
   \<or> (\<exists>t. safe_poll timeout s = xfunc_die t) \<and> mem s \<noteq> []"
proof (induction timeout s rule: safe_poll.induct)
  case (1 timeout s)
  obtain n t where n: "sys_poll s = (n, t)" by fastforce
  then have t: "rd t = rd s" "mem t = mem s" by (auto simp: sys_poll_def split: list.splits prod.splits)
  let ?m = "bb_perror_msg ''poll'' ''poll'' t"
  have m: "(\<exists>u. ?m = Ret () u \<and> rd u = rd s \<and> (mem s = [] \<longrightarrow> mem u = [])) \<or> (\<exists>u. ?m = xfunc_die u) \<and> mem s \<noteq> []"
  proof (cases "mem t = []")
    case True
    then obtain u where "?m = Ret () u" "msg_only t u" "mem u = []"
      using bb_verror_msg_memory unfolding bb_perror_msg_def by blast
    with t msg_only_fields [of t u] show ?thesis by simp
  next
    case False
    obtain u where "?m = Ret () u \<or> ?m = xfunc_die u" "msg_only t u"
      using bb_verror_msg_spec unfolding bb_perror_msg_def by blast
    with t False msg_only_fields [of t u] show ?thesis by auto
  qed
  consider "0 \<le> n" | "\<not> 0 \<le> n" "errno t = EINTR \<or> errno t = ENOMEM" | "\<not> 0 \<le> n" "\<not> (errno t = EINTR \<or> errno t = ENOMEM)" by blast
  then show ?case
  proof cases
    case 1
    with n t show ?thesis by (simp add: safe_poll.simps [of timeout s])
  next
    case 2
    with n "1.IH" [OF n [symmetric] refl 2(1) refl 2(2)] t show ?thesis by (simp add: safe_poll.simps [of timeout s] Let_def)
  next
    case 3
    with n m show ?thesis by (auto simp: safe_poll.simps [of timeout s] Let_def)
  qed
qed

lemma safe_poll_rd: "safe_poll timeout s = Ret n t \<Longrightarrow> rd t = rd s"
  using safe_poll_cases [of timeout s] by auto

lemma safe_poll_returns: "mem s = [] \<Longrightarrow> \<exists>n t. safe_poll timeout s = Ret n t \<and> rd t = rd s \<and> mem t = []"
  using safe_poll_cases [of timeout s] by auto

lemma safe_read_mem: "safe_read fd count s = (n, d, t) \<Longrightarrow> mem t = mem s"
proof (induction fd count s arbitrary: n d t rule: safe_read.induct)
  case (1 fd count s)
  obtain m b u where u: "sys_read fd count s = (m, b, u)" by (metis prod_cases3)
  then have "mem u = mem s" by (auto simp: sys_read_def split: list.splits rd_answer.splits)
  with 1 u show ?case by (auto simp: safe_read.simps [of fd count s] split: if_splits)
qed

lemma safe_read_error:
  "safe_read fd count s = (n, d, t) \<Longrightarrow> n < 0 \<Longrightarrow> rd_size (rd t fd) < rd_size (rd s fd)"
proof (induction fd count s arbitrary: n d t rule: safe_read.induct)
  case (1 fd count s)
  obtain m b u where u: "sys_read fd count s = (m, b, u)" by (metis prod_cases3)
  then have w: "m < 0 \<longrightarrow> rd_size (rd u fd) < rd_size (rd s fd)"
    by (auto simp: sys_read_def split: list.splits rd_answer.splits)
  show ?case
  proof (cases "m < 0 \<and> errno u = EINTR")
    case True
    with "1.prems" u have "safe_read fd count u = (n, d, t)" by (simp add: safe_read.simps [of fd count s])
    from "1.IH" [OF u [symmetric] refl refl True this "1.prems"(2)] w True show ?thesis by simp
  next
    case False
    with "1.prems" u w show ?thesis by (auto simp: safe_read.simps [of fd count s])
  qed
qed

function nonblock_safe_read :: "int \<Rightarrow> nat \<Rightarrow> 'z rfiles_scheme \<Rightarrow> (int \<times> bytes, 'z rfiles_scheme) run" where
  "nonblock_safe_read fd count s =
     (let (n, d, t) = safe_read fd count s
      in if 0 \<le> n \<or> errno t \<noteq> EAGAIN then Ret (n, d) t
         else sbind (safe_poll (- 1) t) (\<lambda>_ s. nonblock_safe_read fd count s))"
  by pat_completeness auto
termination
proof (relation "measure (\<lambda>(fd, count, s). rd_size (rd s fd))", goal_cases)
  case (2 fd count s x n y d t r u)
  then have "safe_read fd count s = (n, d, t)" "n < 0" by auto
  from safe_read_error [OF this] 2 safe_poll_rd [of "- 1" t] show ?case by simp
qed simp

declare nonblock_safe_read.simps [simp del]

text \<open>A byte that is read comes from the descriptor.\<close>

lemma nonblock_safe_read_bounds:
  assumes "nonblock_safe_read fd count s = Ret (n, d) t"
  shows "rd_size (rd t fd) \<le> rd_size (rd s fd) \<and> (0 < n \<longrightarrow> rd_size (rd t fd) < rd_size (rd s fd) \<and> n = int (length d))"
  using assms
proof (induction fd count s rule: nonblock_safe_read.induct)
  case (1 fd count s)
  obtain m b u where u: "safe_read fd count s = (m, b, u)" by (metis prod_cases3)
  show ?case
  proof (cases "0 \<le> m \<or> errno u \<noteq> EAGAIN")
    case True
    with "1.prems" u safe_read_bounds [OF u] show ?thesis by (auto simp: nonblock_safe_read.simps [of fd count s])
  next
    case False
    with "1.prems" u obtain k v where v: "safe_poll (- 1) u = Ret k v" "nonblock_safe_read fd count v = Ret (n, d) t"
      by (auto simp: nonblock_safe_read.simps [of fd count s] sbind_Ret_iff)
    from "1.IH" [OF u [symmetric] refl refl False v] safe_poll_rd [OF v(1)] safe_read_bounds [OF u] show ?thesis by auto
  qed
qed

subsection \<open>A line\<close>

text \<open>
  \<^verbatim>\<open>xmalloc_reads\<close>: \<open>acc\<close> are the bytes in front of \<open>p\<close>, \<open>sz\<close> is the size of the memory. \<open>None\<close>
  as a result is NULL. The loop is entered behind its test, where memory is allocated.
\<close>

definition reads_finish :: "bytes \<Rightarrow> nat \<Rightarrow> 'z rfiles_scheme \<Rightarrow> (bytes option, 'z rfiles_scheme) run" where
  "reads_finish acc sz s = (if sz \<le> length acc then Halt (Crash Oob_write) s else Ret (Some acc) s)"

function reads_loop :: "int \<Rightarrow> nat \<Rightarrow> bool \<Rightarrow> bytes \<Rightarrow> nat \<Rightarrow> 'z rfiles_scheme \<Rightarrow> (bytes option, 'z rfiles_scheme) run" where
  "reads_loop fd maxsz jump_in acc sz s =
     (if \<not> jump_in \<and> maxsz \<le> sz then reads_finish acc sz s
      else
        let sz = (if jump_in \<or> length acc = sz then sz + 128 else sz)
        in if sz \<le> length acc then Halt (Crash Oob_write) s
           else sbind (nonblock_safe_read fd 1 s) (\<lambda>r s.
             if fst r \<noteq> 1 then (if acc = [] then Ret None s else reads_finish acc sz s)
             else if snd r = [CHR 0x0A] then reads_finish acc sz s
             else reads_loop fd maxsz False (acc @ snd r) sz s))"
  by pat_completeness auto
termination
  by (relation "measure (\<lambda>(fd, maxsz, jump_in, acc, sz, s). rd_size (rd s fd))")
    (auto dest!: nonblock_safe_read_bounds)

declare reads_loop.simps [simp del]

definition SIZE_MAX :: nat where "SIZE_MAX = 4294967295"

definition xmalloc_reads :: "int \<Rightarrow> cptr \<Rightarrow> nat option \<Rightarrow> 'z rfiles_scheme \<Rightarrow> (bytes option, 'z rfiles_scheme) run" where
  "xmalloc_reads fd buf maxsz_p s =
     (let pfx = (case buf of None \<Rightarrow> [] | Some b \<Rightarrow> b)
      in reads_loop fd (case maxsz_p of None \<Rightarrow> SIZE_MAX | Some m \<Rightarrow> m) True pfx (length pfx) s)"

subsection \<open>A file\<close>

definition sys_close :: "int \<Rightarrow> 'z rfiles_scheme \<Rightarrow> 'z rfiles_scheme" where
  "sys_close fd s = s\<lparr>closed := closed s @ [fd]\<rparr>"

definition read_close :: "int \<Rightarrow> nat \<Rightarrow> 'z rfiles_scheme \<Rightarrow> int \<times> bytes \<times> 'z rfiles_scheme" where
  "read_close fd sz s = (let (n, d, t) = full_read fd sz s in (n, d, sys_close fd t))"

definition open_read_close :: "string \<Rightarrow> nat \<Rightarrow> 'z rfiles_scheme \<Rightarrow> int \<times> bytes \<times> 'z rfiles_scheme" where
  "open_read_close filename sz s =
     (case open_of s filename of
        Inl e \<Rightarrow> (- 1, [], s\<lparr>errno := e\<rparr>)
      | Inr fd \<Rightarrow> read_close fd sz s)"

text \<open>
  The loop of \<^verbatim>\<open>xmalloc_read\<close>: \<open>got\<close> are the bytes read so far; the memory has room for \<open>size\<close> more
  and a terminator. The result of the last \<^verbatim>\<open>xrealloc\<close> is dropped.
\<close>

definition round_up_1k :: "nat \<Rightarrow> nat" where
  "round_up_1k n = (n div 1024 + 1) * 1024"

lemma full_read_loop_bounds:
  "full_read_loop fd len got s = (n, d, t) \<Longrightarrow>
   rd_size (rd t fd) \<le> rd_size (rd s fd) \<and> length d \<le> length got + len \<and> length got \<le> length d
   \<and> (length got < length d \<longrightarrow> rd_size (rd t fd) < rd_size (rd s fd)) \<and> (n = int (length d) \<or> n < 0 \<and> d = [])"
proof (induction fd len got s arbitrary: n d t rule: full_read_loop.induct)
  case (1 fd len got s)
  obtain cc b u where u: "safe_read fd len s = (cc, b, u)" by (metis prod_cases3)
  note bo = safe_read_bounds [OF u]
  show ?case
  proof (cases "len \<noteq> 0 \<and> 0 < cc")
    case True
    then have "full_read_loop fd (len - nat cc) (got @ b) u = (n, d, t)"
      using "1.prems" u by (simp add: full_read_loop.simps [of fd len got s])
    with "1.IH" [OF _ u [symmetric] refl refl _ _ this] True bo show ?thesis by auto
  next
    case False
    with "1.prems" u bo show ?thesis
      by (auto simp: full_read_loop.simps [of fd len got s] Let_def split: if_splits)
  qed
qed

lemma full_read_bounds:
  "full_read fd len s = (n, d, t) \<Longrightarrow>
   rd_size (rd t fd) \<le> rd_size (rd s fd) \<and> length d \<le> len \<and> (d \<noteq> [] \<longrightarrow> rd_size (rd t fd) < rd_size (rd s fd))
   \<and> (n = int (length d) \<or> n < 0 \<and> d = [])"
  using full_read_loop_bounds [of fd len "[]" s n d t] by (auto simp: full_read_def)

function read_all_loop :: "int \<Rightarrow> bytes \<Rightarrow> nat \<Rightarrow> nat \<Rightarrow> 'z rfiles_scheme \<Rightarrow> (bytes option, 'z rfiles_scheme) run" where
  "read_all_loop fd got to_read sz s =
     (let sz = (if to_read < sz then to_read else sz);
          (n, d, t) = full_read fd sz s
      in if n = - 1 then Ret None t
         else
           let got = got @ d; rd_sz = nat n
           in if rd_sz < sz \<or> to_read \<le> rd_sz then Ret (Some got) t
              else read_all_loop fd got (to_read - rd_sz) (min (round_up_1k (length got div 8)) 65536) t)"
  by pat_completeness auto
termination
proof (relation "measures [\<lambda>(fd, got, to_read, sz, s). rd_size (rd s fd), \<lambda>(fd, got, to_read, sz, s). if sz = 0 then 1 else 0]", goal_cases)
  case (2 fd got to_read sz s sz' x n y d t got' rd_sz)
  then have r: "full_read fd sz' s = (n, d, t)" "\<not> rd_sz < sz'" "\<not> to_read \<le> rd_sz" "rd_sz = nat n"
    "sz' = (if to_read < sz then to_read else sz)" by auto
  from full_read_bounds [OF r(1)] r(2-5) show ?case
    by (cases "d = []") (auto simp: round_up_1k_def split: if_splits)
qed simp

declare read_all_loop.simps [simp del]

definition SSIZE_MAX :: nat where "SSIZE_MAX = 2147483647"

definition xmalloc_read :: "int \<Rightarrow> nat option \<Rightarrow> 'z rfiles_scheme \<Rightarrow> (bytes option, 'z rfiles_scheme) run" where
  "xmalloc_read fd maxsz_p s =
     sbind (read_all_loop fd [] (case maxsz_p of None \<Rightarrow> SSIZE_MAX | Some m \<Rightarrow> m) (round_up_1k (st_size s fd)) s) (\<lambda>r s.
       case r of
         None \<Rightarrow> Ret None s
       | Some d \<Rightarrow> if shrink_moves s then Halt (Crash Use_after_free) s else Ret (Some d) s)"

definition xmalloc_open_read_close :: "string \<Rightarrow> nat option \<Rightarrow> 'z rfiles_scheme \<Rightarrow> (bytes option, 'z rfiles_scheme) run" where
  "xmalloc_open_read_close filename maxsz_p s =
     (case open_of s filename of
        Inl e \<Rightarrow> Ret None (s\<lparr>errno := e\<rparr>)
      | Inr fd \<Rightarrow> sbind (xmalloc_read fd maxsz_p s) (\<lambda>buf s. Ret buf (sys_close fd s)))"

definition cant_read :: "string \<Rightarrow> string" where
  "cant_read t = ''can'' @ [CHR 0x27] @ ''t read '' @ quoted t"

definition xmalloc_xopen_read_close :: "string \<Rightarrow> nat option \<Rightarrow> 'z rfiles_scheme \<Rightarrow> (bytes, 'z rfiles_scheme) run" where
  "xmalloc_xopen_read_close filename maxsz_p s =
     sbind (xmalloc_open_read_close filename maxsz_p s) (\<lambda>buf s.
       case buf of
         None \<Rightarrow> bb_perror_msg_and_die (cant_read ''%s'') (cant_read filename) s
       | Some b \<Rightarrow> Ret b s)"

text \<open>No decompressor is configured (\<^verbatim>\<open>ZIPPED\<close> is 0).\<close>

definition open_zipped :: "string \<Rightarrow> 'z rfiles_scheme \<Rightarrow> int + int" where
  "open_zipped fname s = open_of s fname"

definition read_error_from :: "string \<Rightarrow> string" where
  "read_error_from t = ''read error from '' @ quoted t"

definition xmalloc_open_zipped_read_close ::
  "string \<Rightarrow> nat option \<Rightarrow> 'z rfiles_scheme \<Rightarrow> (bytes option, 'z rfiles_scheme) run" where
  "xmalloc_open_zipped_read_close fname maxsz_p s =
     (case open_zipped fname s of
        Inl e \<Rightarrow> Ret None (s\<lparr>errno := e\<rparr>)
      | Inr fd \<Rightarrow>
          sbind (xmalloc_read fd maxsz_p s) (\<lambda>image s.
          sbind (if image = None then bb_perror_msg (read_error_from ''%s'') (read_error_from fname) s else Ret () s) (\<lambda>_ s.
            Ret image (sys_close fd s))))"

subsection \<open>Lemmas\<close>

text \<open>A source without errors other than an interrupted call and a call that would wait.\<close>

fun rd_calm :: "rd_answer list \<Rightarrow> bool" where
  "rd_calm [] = True"
| "rd_calm (Data d # as) = (d \<noteq> [] \<and> rd_calm as)"
| "rd_calm (R_err e # as) = ((e = EINTR \<or> e = EAGAIN) \<and> rd_calm as)"

lemma safe_read_calm:
  assumes "safe_read fd 1 s = (n, d, t)" "rd_calm (rd s fd)"
  shows "rd_calm (rd t fd) \<and> (n < 0 \<and> errno t = EAGAIN \<and> rd_bytes (rd t fd) = rd_bytes (rd s fd)
    \<or> n = int (length d) \<and> d = take 1 (rd_bytes (rd s fd)) \<and> rd_bytes (rd t fd) = drop 1 (rd_bytes (rd s fd)))"
  using assms
proof (induction fd "1 :: nat" s arbitrary: n d t rule: safe_read.induct)
  case (1 fd s)
  show ?case
  proof (cases "rd s fd")
    case Nil
    with "1.prems" show ?thesis by (auto simp: safe_read.simps [of fd "Suc 0" s] sys_read_def)
  next
    case (Cons a as)
    show ?thesis
    proof (cases a)
      case (Data x)
      with Cons "1.prems" obtain c x' where x: "x = c # x'" "rd_calm as" by (cases x) auto
      with Cons Data "1.prems" show ?thesis by (cases x') (auto simp: safe_read.simps [of fd "Suc 0" s] sys_read_def)
    next
      case (R_err e)
      let ?u = "s\<lparr>rd := (rd s)(fd := as), errno := e\<rparr>"
      have sr: "sys_read fd 1 s = (- 1, [], ?u)" using Cons R_err by (simp add: sys_read_def)
      show ?thesis
      proof (cases "e = EINTR")
        case True
        then have "safe_read fd 1 ?u = (n, d, t)" using "1.prems"(1) sr by (simp add: safe_read.simps [of fd "Suc 0" s])
        from "1.hyps" [OF sr [symmetric] refl refl _ this] True "1.prems"(2) Cons R_err show ?thesis by simp
      next
        case False
        with "1.prems" sr Cons R_err show ?thesis by (auto simp: safe_read.simps [of fd "Suc 0" s])
      qed
    qed
  qed
qed

lemma nonblock_safe_read_returns: "mem s = [] \<Longrightarrow> \<exists>n d t. nonblock_safe_read fd count s = Ret (n, d) t \<and> mem t = []"
proof (induction fd count s rule: nonblock_safe_read.induct)
  case (1 fd count s)
  obtain m b u where u: "safe_read fd count s = (m, b, u)" by (metis prod_cases3)
  have m: "mem u = []" using safe_read_mem [OF u] "1.prems" by simp
  obtain k v where v: "safe_poll (- 1) u = Ret k v" "mem v = []" using safe_poll_returns [OF m] by blast
  from "1.IH" [OF u [symmetric] refl refl _ v] u v m show ?case
    by (cases "0 \<le> m \<or> errno u \<noteq> EAGAIN") (auto simp: nonblock_safe_read.simps [of fd count s])
qed

lemma nonblock_byte:
  "rd_calm (rd s fd) \<Longrightarrow> mem s = [] \<Longrightarrow> \<exists>t. nonblock_safe_read fd 1 s = Ret (int (length (take 1 (rd_bytes (rd s fd)))), take 1 (rd_bytes (rd s fd))) t
     \<and> rd_calm (rd t fd) \<and> rd_bytes (rd t fd) = drop 1 (rd_bytes (rd s fd)) \<and> mem t = []"
proof (induction fd "1 :: nat" s rule: nonblock_safe_read.induct)
  case (1 fd s)
  obtain m b u where u: "safe_read fd 1 s = (m, b, u)" by (metis prod_cases3)
  note c = safe_read_calm [OF u "1.prems"(1)]
  have mu: "mem u = []" using safe_read_mem [OF u] "1.prems"(2) by simp
  show ?case
  proof (cases "0 \<le> m \<or> errno u \<noteq> EAGAIN")
    case True
    with c u mu show ?thesis by (auto simp: nonblock_safe_read.simps [of fd "Suc 0" s])
  next
    case False
    obtain k v where v: "safe_poll (- 1) u = Ret k v" "rd v = rd u" "mem v = []" using safe_poll_returns [OF mu] by blast
    with c False "1.hyps" [OF u [symmetric] refl refl _ v(1)] u show ?thesis
      by (auto simp: nonblock_safe_read.simps [of fd "Suc 0" s])
  qed
qed

lemma reads_loop_line:
  assumes "rd_calm (rd s fd)" "if jump_in then sz = length acc else length acc \<le> sz \<and> sz \<le> length acc + 128"
    "length acc + length (rd_bytes (rd s fd)) + 128 < maxsz" "mem s = []"
  shows "\<exists>t. reads_loop fd maxsz jump_in acc sz s =
      Ret (if acc = [] \<and> rd_bytes (rd s fd) = [] then None else Some (acc @ takeWhile (\<lambda>c. c \<noteq> CHR 0x0A) (rd_bytes (rd s fd)))) t
    \<and> rd_bytes (rd t fd) = drop 1 (dropWhile (\<lambda>c. c \<noteq> CHR 0x0A) (rd_bytes (rd s fd)))"
  using assms
proof (induction "rd_bytes (rd s fd)" arbitrary: s acc sz jump_in)
  case Nil
  from nonblock_byte [OF Nil.prems(1,4)] Nil.hyps obtain t where
    "nonblock_safe_read fd 1 s = Ret (0, []) t" "rd_bytes (rd t fd) = []" by auto
  with Nil.hyps [symmetric] Nil.prems(2,3) show ?case
    by (auto simp: reads_loop.simps [of fd maxsz _ acc sz s] reads_finish_def Let_def split: if_splits)
next
  case (Cons c B)
  from nonblock_byte [OF Cons.prems(1,4)] Cons.hyps(2) [symmetric] obtain u where
    u: "nonblock_safe_read fd 1 s = Ret (1, [c]) u" "rd_calm (rd u fd)" "rd_bytes (rd u fd) = B" "mem u = []" by auto
  define sz' where "sz' = (if jump_in \<or> length acc = sz then sz + 128 else sz)"
  have sz': "length acc < sz'" "sz' \<le> length acc + 128" using Cons.prems(2) by (auto simp: sz'_def split: if_splits)
  have step: "reads_loop fd maxsz jump_in acc sz s =
      (if c = CHR 0x0A then Ret (Some acc) u else reads_loop fd maxsz False (acc @ [c]) sz' u)"
    using u(1) sz' Cons.prems(2,3) Cons.hyps(2) [symmetric]
    by (auto simp: reads_loop.simps [of fd maxsz _ acc sz s] reads_finish_def Let_def sz'_def [symmetric] split: if_splits)
  show ?case
  proof (cases "c = CHR 0x0A")
    case True
    with step u(3) Cons.hyps(2) [symmetric] show ?thesis by auto
  next
    case False
    with Cons.hyps(1) [OF u(3) [symmetric] u(2), of False sz' "acc @ [c]"] step u(3,4) sz' Cons.prems(3) Cons.hyps(2) [symmetric]
    show ?thesis by auto
  qed
qed

lemma reads_loop_returns:
  "(if jump_in then sz = length acc else length acc \<le> sz \<and> (maxsz \<le> sz \<longrightarrow> length acc < sz)) \<Longrightarrow> mem s = [] \<Longrightarrow>
   \<exists>r t. reads_loop fd maxsz jump_in acc sz s = Ret r t"
proof (induction fd maxsz jump_in acc sz s rule: reads_loop.induct)
  case (1 fd maxsz jump_in acc sz s)
  obtain n d t where r: "nonblock_safe_read fd 1 s = Ret (n, d) t" and mt: "mem t = []"
    using nonblock_safe_read_returns [OF "1.prems"(2)] by blast
  define sz' where "sz' = (if jump_in \<or> length acc = sz then sz + 128 else sz)"
  show ?case
  proof (cases "\<not> jump_in \<and> maxsz \<le> sz")
    case True
    with "1.prems" show ?thesis by (auto simp: reads_loop.simps [of fd maxsz _ acc sz s] reads_finish_def)
  next
    case False
    have sz': "length acc < sz'" using "1.prems" by (auto simp: sz'_def split: if_splits)
    have eq: "reads_loop fd maxsz jump_in acc sz s =
        (if n \<noteq> 1 then (if acc = [] then Ret None t else Ret (Some acc) t)
         else if d = [CHR 0x0A] then Ret (Some acc) t else reads_loop fd maxsz False (acc @ d) sz' t)"
      unfolding reads_loop.simps [of fd maxsz jump_in acc sz s] if_not_P [OF False] Let_def sz'_def [symmetric]
      using r sz' by (simp add: reads_finish_def)
    show ?thesis
    proof (cases "n = 1 \<and> d \<noteq> [CHR 0x0A]")
      case True
      then have d: "length d = 1" using nonblock_safe_read_bounds [OF r] by simp
      have "length (acc @ d) \<le> sz' \<and> (maxsz \<le> sz' \<longrightarrow> length (acc @ d) < sz')"
        using d sz' False "1.prems" by (auto simp: sz'_def split: if_splits)
      with "1.IH" [OF False sz'_def _ r] True sz' eq mt show ?thesis by simp
    qed (use eq in auto)
  qed
qed

lemma safe_read_keeps:
  "safe_read fd count s = (n, d, t) \<Longrightarrow> closed t = closed s \<and> shrink_moves t = shrink_moves s"
proof (induction fd count s arbitrary: n d t rule: safe_read.induct)
  case (1 fd count s)
  obtain m b u where u: "sys_read fd count s = (m, b, u)" by (metis prod_cases3)
  then have w: "closed u = closed s" "shrink_moves u = shrink_moves s"
    by (auto simp: sys_read_def split: list.splits rd_answer.splits)
  with 1 u show ?case by (auto simp: safe_read.simps [of fd count s] split: if_splits)
qed

lemma full_read_loop_fine:
  fixes s :: "'z rfiles_scheme"
  shows "rd_fine (rd s fd) \<Longrightarrow> \<exists>t. full_read_loop fd len got s = (int (length got + length (take len (rd_bytes (rd s fd)))), got @ take len (rd_bytes (rd s fd)), t)
     \<and> rd_fine (rd t fd) \<and> rd_bytes (rd t fd) = drop len (rd_bytes (rd s fd)) \<and> closed t = closed s \<and> shrink_moves t = shrink_moves s"
proof (induction fd len got s rule: full_read_loop.induct)
  case (1 fd len got s)
  show ?case
  proof (cases "len = 0")
    case True
    with "1.prems" show ?thesis by (simp add: full_read_loop.simps [of fd _ got s])
  next
    case False
    obtain cc b u where u: "safe_read fd len s = (cc, b, u)" by (metis prod_cases3)
    from safe_read_fine [OF u "1.prems"] False have
      f: "rd_bytes (rd s fd) = b @ rd_bytes (rd u fd)" "rd_fine (rd u fd)" "cc = int (length b)" "b = [] \<longrightarrow> rd_bytes (rd u fd) = []" by simp_all
    have k: "length b \<le> len" "closed u = closed s" "shrink_moves u = shrink_moves s"
      using safe_read_bounds [OF u] f(3) safe_read_keeps [OF u] by auto
    show ?thesis
    proof (cases "b = []")
      case True
      with False u f k show ?thesis by (simp add: full_read_loop.simps [of fd len got s])
    next
      case b: False
      with "1.IH" [OF False u [symmetric] refl refl] f k False u show ?thesis
        by (auto simp: full_read_loop.simps [of fd len got s])
    qed
  qed
qed

lemma full_read_fine:
  fixes s :: "'z rfiles_scheme"
  assumes "rd_fine (rd s fd)"
  shows "\<exists>t. full_read fd len s = (int (length (take len (rd_bytes (rd s fd)))), take len (rd_bytes (rd s fd)), t)
     \<and> rd_fine (rd t fd) \<and> rd_bytes (rd t fd) = drop len (rd_bytes (rd s fd)) \<and> closed t = closed s \<and> shrink_moves t = shrink_moves s"
  using full_read_loop_fine [OF assms, of len "[]"] by (simp add: full_read_def)

lemma read_all_loop_fine:
  fixes s :: "'z rfiles_scheme"
  shows "rd_fine (rd s fd) \<Longrightarrow> \<exists>t. read_all_loop fd got to_read sz s = Ret (Some (got @ take to_read (rd_bytes (rd s fd)))) t
    \<and> closed t = closed s \<and> shrink_moves t = shrink_moves s"
proof (induction fd got to_read sz s rule: read_all_loop.induct)
  case (1 fd got to_read sz s)
  let ?B = "rd_bytes (rd s fd)"
  define sz' where "sz' = (if to_read < sz then to_read else sz)"
  obtain u where u: "full_read fd sz' s = (int (length (take sz' ?B)), take sz' ?B, u)" "rd_fine (rd u fd)"
    "rd_bytes (rd u fd) = drop sz' ?B" "closed u = closed s" "shrink_moves u = shrink_moves s"
    using full_read_fine [OF "1.prems"] by blast
  let ?k = "length (take sz' ?B)"
  have eq: "read_all_loop fd got to_read sz s =
      (if ?k < sz' \<or> to_read \<le> ?k then Ret (Some (got @ take sz' ?B)) u
       else read_all_loop fd (got @ take sz' ?B) (to_read - ?k) (min (round_up_1k (length (got @ take sz' ?B) div 8)) 65536) u)"
    using u(1) by (simp add: read_all_loop.simps [of fd got to_read sz s] Let_def sz'_def [symmetric])
  show ?case
  proof (cases "?k < sz' \<or> to_read \<le> ?k")
    case True
    then have "take sz' ?B = take to_read ?B" by (auto simp: sz'_def split: if_splits)
    with True u eq show ?thesis by simp
  next
    case False
    then have k: "?k = sz'" "sz' \<le> to_read" by (auto simp: sz'_def)
    have "take to_read ?B = take sz' ?B @ take (to_read - sz') (drop sz' ?B)"
      using k(2) by (metis le_add_diff_inverse take_add)
    with "1.IH" [OF sz'_def u(1) [symmetric] refl refl _ refl refl] False u eq k show ?thesis by simp
  qed
qed


subsection \<open>Properties\<close>

text \<open>
  Reading a line takes exactly one line: what is returned is the prefix given and the bytes
  up to the newline or the end of the file, NULL when there is nothing at all, and what
  stands behind the newline is still there for the next reader, however the bytes arrive.
\<close>

theorem xmalloc_reads_one_line:
  assumes "rd_calm (rd s fd)" "length pfx + length (rd_bytes (rd s fd)) + 128 < SIZE_MAX" "mem s = []"
  shows "\<exists>t. xmalloc_reads fd (Some pfx) None s =
      Ret (if pfx = [] \<and> rd_bytes (rd s fd) = [] then None
           else Some (pfx @ takeWhile (\<lambda>c. c \<noteq> CHR 0x0A) (rd_bytes (rd s fd)))) t
    \<and> rd_bytes (rd t fd) = drop 1 (dropWhile (\<lambda>c. c \<noteq> CHR 0x0A) (rd_bytes (rd s fd)))"
  using reads_loop_line [OF assms(1), of True "length pfx" pfx SIZE_MAX] assms(2,3) by (simp add: xmalloc_reads_def)

definition sample_files :: rfiles where
  "sample_files = \<lparr>applet_name = ''flash_eraseall'', logmode = LOGMODE_STDIO, msg_eol = [CHR 0x0A], errno = 0,
     strerror = (\<lambda>_. ''Error''), xfunc_error_retval = 1, die_sleep = 0, wr = (\<lambda>_. []), sent = (\<lambda>_. []),
     rd = (\<lambda>fd. if fd = 3 then [Data ''ab'', R_err EAGAIN, Data (''c'' @ [CHR 0x0A]), R_err EINTR, Data ''de'']
                else if fd = 4 then [Data ''abcde'', R_err EINTR, Data ''f''] else []), mem = [],
     polls = [(- 1, EINTR), (1, 0)], st_size = (\<lambda>_. 0), open_of = (\<lambda>f. if f = ''f'' then Inr 4 else Inl 2), closed = [], shrink_moves = False\<rparr>"

theorem xmalloc_reads_one_line_witness:
  "\<exists>t. xmalloc_reads 3 (Some ''x'') None sample_files = Ret (Some ''xabc'') t \<and> rd_bytes (rd t 3) = ''de''"
  using xmalloc_reads_one_line [of sample_files 3 "''x''"] by (auto simp: sample_files_def SIZE_MAX_def)

text \<open>
  Reading a line never writes outside its memory, with any limit, any prefix and any
  errors on the way, and it always returns if there is memory for messages.
\<close>

theorem xmalloc_reads_in_bounds: "mem s = [] \<Longrightarrow> \<exists>r t. xmalloc_reads fd buf maxsz_p s = Ret r t"
  unfolding xmalloc_reads_def Let_def by (rule reads_loop_returns) simp_all

text \<open>
  The limit is compared with the size of the memory instead of the number of bytes: with a
  limit of up to 128 a line ends after its first byte.
\<close>

theorem limited_line_is_one_byte:
  assumes "rd_calm (rd s fd)" "rd_bytes (rd s fd) = c # B" "c \<noteq> CHR 0x0A" "m \<le> 128" "mem s = []"
  shows "\<exists>t. xmalloc_reads fd None (Some m) s = Ret (Some [c]) t"
proof -
  obtain t where "nonblock_safe_read fd 1 s = Ret (1, [c]) t" using nonblock_byte [OF assms(1,5)] assms(2) by auto
  with assms(3,4) show ?thesis
    by (auto simp: xmalloc_reads_def reads_loop.simps [of fd m _ _ 0] reads_loop.simps [of fd m False] reads_finish_def)
qed

theorem limited_line_is_one_byte_witness: "\<exists>t. xmalloc_reads 3 None (Some 100) sample_files = Ret (Some ''a'') t"
  using limited_line_is_one_byte [of sample_files 3 "CHR ''a''"] by (simp add: sample_files_def)

text \<open>
  Reading a whole file returns all its bytes, or as many as the limit allows, however large
  the size that fstat reports, and closes the file; provided that making memory smaller
  leaves it where it is.
\<close>

theorem whole_file_read:
  assumes "open_of s filename = Inr fd" "rd_fine (rd s fd)" "\<not> shrink_moves s" "length (rd_bytes (rd s fd)) \<le> SSIZE_MAX"
  shows "(\<exists>t. xmalloc_xopen_read_close filename None s = Ret (rd_bytes (rd s fd)) t \<and> closed t = closed s @ [fd])
    \<and> (\<forall>m. \<exists>t. xmalloc_xopen_read_close filename (Some m) s = Ret (take m (rd_bytes (rd s fd))) t \<and> closed t = closed s @ [fd])"
proof -
  have "\<exists>t. xmalloc_xopen_read_close filename l s = Ret (take (case l of None \<Rightarrow> SSIZE_MAX | Some m \<Rightarrow> m) (rd_bytes (rd s fd))) t
      \<and> closed t = closed s @ [fd]" for l
    using read_all_loop_fine [OF assms(2), of "[]" "case l of None \<Rightarrow> SSIZE_MAX | Some m \<Rightarrow> m" "round_up_1k (st_size s fd)"] assms(1,3)
    by (auto simp: xmalloc_xopen_read_close_def xmalloc_open_read_close_def xmalloc_read_def sys_close_def)
  from this [of None] this [of "Some m" for m] assms(4) show ?thesis by simp
qed

theorem whole_file_read_witness:
  "\<exists>t. xmalloc_xopen_read_close ''f'' None sample_files = Ret ''abcdef'' t \<and> closed t = [4]"
  using whole_file_read [of sample_files "''f''" 4] by (auto simp: sample_files_def SSIZE_MAX_def)

text \<open>
  Where \<^verbatim>\<open>realloc\<close> moves memory that it makes smaller, the terminator is written to memory that
  was given back, since the new pointer is dropped.
\<close>

theorem moved_memory_is_used:
  assumes "rd_fine (rd s fd)" "shrink_moves s"
  shows "\<exists>t. xmalloc_read fd l s = Halt (Crash Use_after_free) t"
  using read_all_loop_fine [OF assms(1), of "[]" "case l of None \<Rightarrow> SSIZE_MAX | Some m \<Rightarrow> m" "round_up_1k (st_size s fd)"] assms(2)
  by (auto simp: xmalloc_read_def)

theorem moved_memory_is_used_witness:
  "\<exists>t. xmalloc_read 4 None (sample_files\<lparr>shrink_moves := True\<rparr>) = Halt (Crash Use_after_free) t"
  using moved_memory_is_used [of "sample_files\<lparr>shrink_moves := True\<rparr>" 4 None] by (simp add: sample_files_def)

text \<open>
  Without decompressors reading a file that may be compressed is reading it as it is: both
  functions return the same, and they differ only in the message about a file that was
  opened and could not be read.
\<close>

theorem zipped_read_is_plain:
  assumes "case open_of s fname of Inl e \<Rightarrow> True | Inr fd \<Rightarrow> rd_fine (rd s fd)"
  shows "xmalloc_open_zipped_read_close fname l s = xmalloc_open_read_close fname l s"
proof (cases "open_of s fname")
  case (Inr fd)
  then have "rd_fine (rd s fd)" using assms by simp
  from read_all_loop_fine [OF this, of "[]" "case l of None \<Rightarrow> SSIZE_MAX | Some m \<Rightarrow> m" "round_up_1k (st_size s fd)"]
  have "(\<exists>d t. xmalloc_read fd l s = Ret (Some d) t) \<or> (\<exists>t. xmalloc_read fd l s = Halt (Crash Use_after_free) t)"
    by (auto simp: xmalloc_read_def)
  with Inr show ?thesis by (auto simp: xmalloc_open_zipped_read_close_def open_zipped_def xmalloc_open_read_close_def)
qed (simp add: xmalloc_open_zipped_read_close_def open_zipped_def xmalloc_open_read_close_def)

end
