(* ===== verification/Busybox_Xfuncs.thy ===== *)
theory Busybox_Xfuncs
  imports Busybox_Lib
begin

section \<open>Calls that do not fail\<close>

text \<open>
  The file \<^verbatim>\<open>xfuncs_printf.c\<close> of the busybox library beyond opening files: wrappers of system and
  library calls that end the program (the functions with an \<^verbatim>\<open>x\<close>) or warn (\<^verbatim>\<open>_or_warn\<close>) when the
  call fails. The wrapped calls are parameters: functions of their arguments and the state
  that return a result and the state after the call, error number included. Their contract
  is the one the file states, "If it returned, it succeeded": the locale \<open>die_on_failure\<close> states
  it once, and every wrapper is an instance.
\<close>

type_synonym ('r, 's) syscall = "'s \<Rightarrow> 'r \<times> 's"

definition bb_msg_standard_output :: string where "bb_msg_standard_output = ''standard output''"

definition bb_simple_perror_msg :: "string \<Rightarrow> 'z bb_scheme \<Rightarrow> (unit, 'z bb_scheme) run" where
  "bb_simple_perror_msg msg s = bb_perror_msg ''%s'' msg s"

definition bb_simple_perror_msg_and_die :: "string \<Rightarrow> 'z bb_scheme \<Rightarrow> ('a, 'z bb_scheme) run" where
  "bb_simple_perror_msg_and_die msg s = bb_perror_msg_and_die ''%s'' msg s"

definition cant :: "string \<Rightarrow> string" where
  "cant what = ''can'' @ [CHR 0x27] @ ''t '' @ what"

subsection \<open>Memory\<close>

text \<open>
  Memory is the list of its bytes. What \<^verbatim>\<open>malloc\<close> returns for a size is a parameter: \<open>None\<close> when
  there is no memory, which it may also return for the size 0.
\<close>

definition memory_exhausted :: "'z bb_scheme \<Rightarrow> ('a, 'z bb_scheme) run" where
  "memory_exhausted s = bb_error_msg_and_die bb_msg_memory_exhausted bb_msg_memory_exhausted s"

definition malloc_or_warn ::
  "(nat \<Rightarrow> (bytes option, 'z bb_scheme) syscall) \<Rightarrow> nat \<Rightarrow> 'z bb_scheme \<Rightarrow> (bytes option, 'z bb_scheme) run" where
  "malloc_or_warn malloc sz s =
     (let (p, t) = malloc sz s
      in if p = None \<and> sz \<noteq> 0
         then sbind (bb_error_msg bb_msg_memory_exhausted bb_msg_memory_exhausted t) (\<lambda>_ s. Ret p s)
         else Ret p t)"

definition xmalloc ::
  "(nat \<Rightarrow> (bytes option, 'z bb_scheme) syscall) \<Rightarrow> nat \<Rightarrow> 'z bb_scheme \<Rightarrow> (bytes option, 'z bb_scheme) run" where
  "xmalloc malloc sz s =
     (let (p, t) = malloc sz s in if p = None \<and> sz \<noteq> 0 then memory_exhausted t else Ret p t)"

definition xrealloc ::
  "(bytes option \<Rightarrow> nat \<Rightarrow> (bytes option, 'z bb_scheme) syscall) \<Rightarrow> bytes option \<Rightarrow> nat \<Rightarrow> 'z bb_scheme
   \<Rightarrow> (bytes option, 'z bb_scheme) run" where
  "xrealloc realloc ptr sz s =
     (let (p, t) = realloc ptr sz s in if p = None \<and> sz \<noteq> 0 then memory_exhausted t else Ret p t)"

text \<open>\<^verbatim>\<open>memset\<close> and \<^verbatim>\<open>memcpy\<close> write from the beginning of the memory; nothing is written for the size 0.\<close>

definition fill :: "bytes \<Rightarrow> bytes option \<Rightarrow> bytes option res" where
  "fill b p =
     (if b = [] then Ok p
      else (case p of None \<Rightarrow> Fault Null_deref | Some m \<Rightarrow> rbind (poke 0 b m) (\<lambda>m. Ok (Some m))))"

definition xzalloc ::
  "(nat \<Rightarrow> (bytes option, 'z bb_scheme) syscall) \<Rightarrow> nat \<Rightarrow> 'z bb_scheme \<Rightarrow> (bytes option, 'z bb_scheme) run" where
  "xzalloc malloc sz s = sbind (xmalloc malloc sz s) (\<lambda>p s. lift (fill (replicate sz NUL) p) s)"

definition xstrdup ::
  "(string \<Rightarrow> (bytes option, 'z bb_scheme) syscall) \<Rightarrow> cptr \<Rightarrow> 'z bb_scheme \<Rightarrow> (bytes option, 'z bb_scheme) run" where
  "xstrdup strdup str s =
     (case str of
        None \<Rightarrow> Ret None s
      | Some x \<Rightarrow> (let (t, s) = strdup x s in if t = None then memory_exhausted s else Ret t s))"

text \<open>
  The loop counts down from \<open>n\<close> until it is 0 or the string ends; a negative \<open>n\<close> never gets to 0.
  No string is so long that the counter leaves the range of \<^verbatim>\<open>int\<close>.
\<close>

fun strn_loop :: "int \<Rightarrow> string \<Rightarrow> int" where
  "strn_loop m [] = m"
| "strn_loop m (c # t) = (if m = 0 then m else strn_loop (m - 1) t)"

definition xstrndup ::
  "(nat \<Rightarrow> (bytes option, 'z bb_scheme) syscall) \<Rightarrow> string \<Rightarrow> int \<Rightarrow> 'z bb_scheme \<Rightarrow> (bytes option, 'z bb_scheme) run" where
  "xstrndup malloc str n s =
     (let n = nat (n - strn_loop n str)
      in sbind (xmalloc malloc (n + 1) s) (\<lambda>t s.
           case t of
             None \<Rightarrow> Halt (Crash Null_deref) s
           | Some m \<Rightarrow>
               sbind (lift (poke n [NUL] m) s) (\<lambda>m s.
                 if length str + 1 < n then Halt (Crash Oob_read) s
                 else lift (fill (take n (str @ [NUL])) (Some m)) s)))"

definition xasprintf ::
  "(string \<Rightarrow> 'args \<Rightarrow> (int \<times> bytes option, 'z bb_scheme) syscall) \<Rightarrow> string \<Rightarrow> 'args \<Rightarrow> 'z bb_scheme
   \<Rightarrow> (bytes option, 'z bb_scheme) run" where
  "xasprintf vasprintf format p s =
     (let ((r, string_ptr), t) = vasprintf format p s
      in if r < 0 then memory_exhausted t else Ret string_ptr t)"

subsection \<open>Files and descriptors\<close>

definition xfopen ::
  "(string \<Rightarrow> string \<Rightarrow> ('f option, 'z bb_scheme) syscall) \<Rightarrow> string \<Rightarrow> string \<Rightarrow> 'z bb_scheme \<Rightarrow> ('f, 'z bb_scheme) run" where
  "xfopen fopen path mode s =
     (let (fp, t) = fopen path mode s
      in case fp of None \<Rightarrow> bb_perror_msg_and_die (cant_open ''%s'') (cant_open path) t | Some f \<Rightarrow> Ret f t)"

definition open3_or_warn ::
  "(string \<Rightarrow> int \<Rightarrow> int \<Rightarrow> (int, 'z bb_scheme) syscall) \<Rightarrow> string \<Rightarrow> int \<Rightarrow> int \<Rightarrow> 'z bb_scheme \<Rightarrow> (int, 'z bb_scheme) run" where
  "open3_or_warn open3 pathname flags mode s =
     (let (ret, t) = open3 pathname flags mode s
      in if ret < 0 then sbind (bb_perror_msg (cant_open ''%s'') (cant_open pathname) t) (\<lambda>_ s. Ret ret s)
         else Ret ret t)"

definition open_or_warn ::
  "(string \<Rightarrow> int \<Rightarrow> int \<Rightarrow> (int, 'z bb_scheme) syscall) \<Rightarrow> string \<Rightarrow> int \<Rightarrow> 'z bb_scheme \<Rightarrow> (int, 'z bb_scheme) run" where
  "open_or_warn open3 pathname flags s = open3_or_warn open3 pathname flags 0x1B6 s"

definition xunlink ::
  "(string \<Rightarrow> (int, 'z bb_scheme) syscall) \<Rightarrow> string \<Rightarrow> 'z bb_scheme \<Rightarrow> (unit, 'z bb_scheme) run" where
  "xunlink unlink pathname s =
     (let (r, t) = unlink pathname s
      in if r \<noteq> 0 then bb_perror_msg_and_die (cant ''remove file '' @ quoted ''%s'') (cant ''remove file '' @ quoted pathname) t
         else Ret () t)"

definition cant_move :: "string \<Rightarrow> string \<Rightarrow> string" where
  "cant_move a b = cant ''move '' @ quoted a @ '' to '' @ quoted b"

definition xrename ::
  "(string \<Rightarrow> string \<Rightarrow> (int, 'z bb_scheme) syscall) \<Rightarrow> string \<Rightarrow> string \<Rightarrow> 'z bb_scheme \<Rightarrow> (unit, 'z bb_scheme) run" where
  "xrename rename oldpath newpath s =
     (let (r, t) = rename oldpath newpath s
      in if r \<noteq> 0 then bb_perror_msg_and_die (cant_move ''%s'' ''%s'') (cant_move oldpath newpath) t else Ret () t)"

definition rename_or_warn ::
  "(string \<Rightarrow> string \<Rightarrow> (int, 'z bb_scheme) syscall) \<Rightarrow> string \<Rightarrow> string \<Rightarrow> 'z bb_scheme \<Rightarrow> (int, 'z bb_scheme) run" where
  "rename_or_warn rename oldpath newpath s =
     (let (n, t) = rename oldpath newpath s
      in if n \<noteq> 0 then sbind (bb_perror_msg (cant_move ''%s'' ''%s'') (cant_move oldpath newpath) t) (\<lambda>_ s. Ret n s)
         else Ret n t)"

text \<open>\<^verbatim>\<open>pipe\<close> fills the two descriptors its argument points to: they are part of its result.\<close>

definition xpipe ::
  "(int \<times> int \<times> int, 'z bb_scheme) syscall \<Rightarrow> 'z bb_scheme \<Rightarrow> (int \<times> int, 'z bb_scheme) run" where
  "xpipe pipe s =
     (let ((r, filedes), t) = pipe s
      in if r \<noteq> 0 then bb_perror_msg_and_die (cant ''create pipe'') (cant ''create pipe'') t else Ret filedes t)"

definition xdup2 ::
  "(int \<Rightarrow> int \<Rightarrow> (int, 'z bb_scheme) syscall) \<Rightarrow> int \<Rightarrow> int \<Rightarrow> 'z bb_scheme \<Rightarrow> (unit, 'z bb_scheme) run" where
  "xdup2 dup2 from to s =
     (let (r, t) = dup2 from to s
      in if r \<noteq> to
         then bb_perror_msg_and_die (cant ''duplicate file descriptor'') (cant ''duplicate file descriptor'') t
         else Ret () t)"

definition xmove_fd ::
  "(int \<Rightarrow> int \<Rightarrow> (int, 'z bb_scheme) syscall) \<Rightarrow> (int \<Rightarrow> (int, 'z bb_scheme) syscall) \<Rightarrow> int \<Rightarrow> int \<Rightarrow> 'z bb_scheme
   \<Rightarrow> (unit, 'z bb_scheme) run" where
  "xmove_fd dup2 close from to s =
     (if from = to then Ret () s
      else sbind (xdup2 dup2 from to s) (\<lambda>_ s. Ret () (snd (close from s))))"

definition xwrite :: "int \<Rightarrow> bytes \<Rightarrow> 'z bb_scheme \<Rightarrow> (unit, 'z bb_scheme) run" where
  "xwrite fd buf s =
     (if buf \<noteq> [] then
        (let (sz, t) = full_write fd buf s
         in if sz \<noteq> int (length buf) then bb_error_msg_and_die ''short write'' ''short write'' t else Ret () t)
      else Ret () s)"

text \<open>\<^verbatim>\<open>off_t\<close> has 32 bits (no large files) and is printed as an unsigned number.\<close>

definition SEEK_SET :: int where "SEEK_SET = 0"

definition xlseek ::
  "(int \<Rightarrow> int \<Rightarrow> int \<Rightarrow> (int, 'z bb_scheme) syscall) \<Rightarrow> int \<Rightarrow> int \<Rightarrow> int \<Rightarrow> 'z bb_scheme \<Rightarrow> (int, 'z bb_scheme) run" where
  "xlseek lseek fd offset whence s =
     (let (off, t) = lseek fd offset whence s
      in if off = - 1
         then (if whence = SEEK_SET
               then bb_perror_msg_and_die ''lseek(%lu)'' (''lseek('' @ show_nat (nat (offset mod 2 ^ 32)) @ '')'') t
               else bb_perror_msg_and_die ''lseek'' ''lseek'' t)
         else Ret off t)"

definition die_if_ferror :: "('f \<Rightarrow> 'z bb_scheme \<Rightarrow> int) \<Rightarrow> 'f \<Rightarrow> string \<Rightarrow> 'z bb_scheme \<Rightarrow> (unit, 'z bb_scheme) run" where
  "die_if_ferror ferror fp fn s =
     (if ferror fp s \<noteq> 0 then bb_error_msg_and_die ''%s: I/O error'' (fn @ '': I/O error'') s else Ret () s)"

definition die_if_ferror_stdout :: "('f \<Rightarrow> 'z bb_scheme \<Rightarrow> int) \<Rightarrow> 'f \<Rightarrow> 'z bb_scheme \<Rightarrow> (unit, 'z bb_scheme) run" where
  "die_if_ferror_stdout ferror stdout s = die_if_ferror ferror stdout bb_msg_standard_output s"

definition xfflush_stdout ::
  "('f \<Rightarrow> (int, 'z bb_scheme) syscall) \<Rightarrow> 'f \<Rightarrow> 'z bb_scheme \<Rightarrow> (unit, 'z bb_scheme) run" where
  "xfflush_stdout fflush stdout s =
     (let (r, t) = fflush stdout s
      in if r \<noteq> 0 then bb_perror_msg_and_die bb_msg_standard_output bb_msg_standard_output t else Ret () t)"

definition bb_putchar :: "(int \<Rightarrow> 'f \<Rightarrow> (int, 'z bb_scheme) syscall) \<Rightarrow> 'f \<Rightarrow> int \<Rightarrow> 'z bb_scheme \<Rightarrow> (int, 'z bb_scheme) run" where
  "bb_putchar putc stdout ch s = (let (r, t) = putc ch stdout s in Ret r t)"

definition xprint_and_close_file ::
  "('f \<Rightarrow> (int, 'z bb_scheme) syscall) \<Rightarrow> ('f \<Rightarrow> int) \<Rightarrow> ('f \<Rightarrow> (int, 'z bb_scheme) syscall) \<Rightarrow> 'f \<Rightarrow> 'f \<Rightarrow> 'z bb_scheme
   \<Rightarrow> (unit, 'z bb_scheme) run" where
  "xprint_and_close_file fflush fileno fclose stdout file s =
     sbind (bb_copyfd_eof (fileno file) 1 (snd (fflush stdout s))) (\<lambda>r s.
       if r = - 1 then xfunc_die s else Ret () (snd (fclose file s)))"

definition warn_opendir ::
  "(string \<Rightarrow> ('d option, 'z bb_scheme) syscall) \<Rightarrow> string \<Rightarrow> 'z bb_scheme \<Rightarrow> ('d option, 'z bb_scheme) run" where
  "warn_opendir opendir path s =
     (let (dp, t) = opendir path s
      in if dp = None then sbind (bb_perror_msg (cant_open ''%s'') (cant_open path) t) (\<lambda>_ s. Ret dp s) else Ret dp t)"

definition xopendir ::
  "(string \<Rightarrow> ('d option, 'z bb_scheme) syscall) \<Rightarrow> string \<Rightarrow> 'z bb_scheme \<Rightarrow> ('d, 'z bb_scheme) run" where
  "xopendir opendir path s =
     (let (dp, t) = opendir path s
      in case dp of None \<Rightarrow> bb_perror_msg_and_die (cant_open ''%s'') (cant_open path) t | Some d \<Rightarrow> Ret d t)"

text \<open>\<^verbatim>\<open>stat\<close> fills a structure, which is part of its result.\<close>

definition xstat ::
  "(string \<Rightarrow> (int \<times> 'st, 'z bb_scheme) syscall) \<Rightarrow> string \<Rightarrow> 'z bb_scheme \<Rightarrow> ('st, 'z bb_scheme) run" where
  "xstat stat name s =
     (let ((r, stat_buf), t) = stat name s
      in if r \<noteq> 0 then bb_perror_msg_and_die (cant ''stat '' @ quoted ''%s'') (cant ''stat '' @ quoted name) t
         else Ret stat_buf t)"

subsection \<open>The process\<close>

definition xsetenv ::
  "(string \<Rightarrow> string \<Rightarrow> int \<Rightarrow> (int, 'z bb_scheme) syscall) \<Rightarrow> string \<Rightarrow> string \<Rightarrow> 'z bb_scheme \<Rightarrow> (unit, 'z bb_scheme) run" where
  "xsetenv setenv key val s = (let (r, t) = setenv key val 1 s in if r \<noteq> 0 then memory_exhausted t else Ret () t)"

definition xsetgid :: "(int \<Rightarrow> (int, 'z bb_scheme) syscall) \<Rightarrow> int \<Rightarrow> 'z bb_scheme \<Rightarrow> (unit, 'z bb_scheme) run" where
  "xsetgid setgid gid s =
     (let (r, t) = setgid gid s in if r \<noteq> 0 then bb_perror_msg_and_die ''setgid'' ''setgid'' t else Ret () t)"

definition xsetuid :: "(int \<Rightarrow> (int, 'z bb_scheme) syscall) \<Rightarrow> int \<Rightarrow> 'z bb_scheme \<Rightarrow> (unit, 'z bb_scheme) run" where
  "xsetuid setuid uid s =
     (let (r, t) = setuid uid s in if r \<noteq> 0 then bb_perror_msg_and_die ''setuid'' ''setuid'' t else Ret () t)"

definition xchdir :: "(string \<Rightarrow> (int, 'z bb_scheme) syscall) \<Rightarrow> string \<Rightarrow> 'z bb_scheme \<Rightarrow> (unit, 'z bb_scheme) run" where
  "xchdir chdir path s =
     (let (r, t) = chdir path s
      in if r \<noteq> 0 then bb_perror_msg_and_die ''chdir(%s)'' (''chdir('' @ path @ '')'') t else Ret () t)"

definition xchroot :: "(string \<Rightarrow> (int, 'z bb_scheme) syscall) \<Rightarrow> string \<Rightarrow> 'z bb_scheme \<Rightarrow> (unit, 'z bb_scheme) run" where
  "xchroot chroot path s =
     (let (r, t) = chroot path s
      in if r \<noteq> 0
         then bb_perror_msg_and_die (cant ''change root directory to %s'') (cant (''change root directory to '' @ path)) t
         else Ret () t)"

text \<open>Without SELinux (\<^verbatim>\<open>ENABLE_SELINUX\<close> is 0) the check always fails.\<close>

definition selinux_or_die :: "'z bb_scheme \<Rightarrow> (unit, 'z bb_scheme) run" where
  "selinux_or_die s = bb_error_msg_and_die ''SELinux support is disabled'' ''SELinux support is disabled'' s"

subsection \<open>Sockets and devices\<close>

text \<open>\<^verbatim>\<open>ENABLE_VERBOSE_RESOLUTION_ERRORS\<close> and \<^verbatim>\<open>ENABLE_FEATURE_CLEAN_UP\<close> are 0.\<close>

definition xsocket ::
  "(int \<Rightarrow> int \<Rightarrow> int \<Rightarrow> (int, 'z bb_scheme) syscall) \<Rightarrow> int \<Rightarrow> int \<Rightarrow> int \<Rightarrow> 'z bb_scheme \<Rightarrow> (int, 'z bb_scheme) run" where
  "xsocket socket domain typ protocol s =
     (let (r, t) = socket domain typ protocol s
      in if r < 0 then bb_perror_msg_and_die ''socket'' ''socket'' t else Ret r t)"

definition xbind ::
  "(int \<Rightarrow> bytes \<Rightarrow> (int, 'z bb_scheme) syscall) \<Rightarrow> int \<Rightarrow> bytes \<Rightarrow> 'z bb_scheme \<Rightarrow> (unit, 'z bb_scheme) run" where
  "xbind sbnd sockfd my_addr s =
     (let (r, t) = sbnd sockfd my_addr s in if r \<noteq> 0 then bb_perror_msg_and_die ''bind'' ''bind'' t else Ret () t)"

definition xlisten ::
  "(int \<Rightarrow> int \<Rightarrow> (int, 'z bb_scheme) syscall) \<Rightarrow> int \<Rightarrow> int \<Rightarrow> 'z bb_scheme \<Rightarrow> (unit, 'z bb_scheme) run" where
  "xlisten listen fd backlog s =
     (let (r, t) = listen fd backlog s in if r \<noteq> 0 then bb_perror_msg_and_die ''listen'' ''listen'' t else Ret () t)"

definition xsendto ::
  "(int \<Rightarrow> bytes \<Rightarrow> int \<Rightarrow> bytes \<Rightarrow> (int, 'z bb_scheme) syscall) \<Rightarrow> int \<Rightarrow> bytes \<Rightarrow> bytes \<Rightarrow> 'z bb_scheme
   \<Rightarrow> (int, 'z bb_scheme) run" where
  "xsendto sendto fd buf to s =
     (let (ret, t) = sendto fd buf 0 to s
      in if ret < 0 then bb_perror_msg_and_die ''sendto'' ''sendto'' t else Ret ret t)"

text \<open>
  The text that \<^verbatim>\<open>bb_verror_msg\<close> formats from the variable arguments is \<open>out\<close>. The argument of \<^verbatim>\<open>ioctl\<close> is captured in the parameter.
\<close>

definition ioctl_or_perror_and_die ::
  "(int \<Rightarrow> nat \<Rightarrow> (int, 'z bb_scheme) syscall) \<Rightarrow> int \<Rightarrow> nat \<Rightarrow> string \<Rightarrow> string \<Rightarrow> 'z bb_scheme
   \<Rightarrow> (int, 'z bb_scheme) run" where
  "ioctl_or_perror_and_die ioctl fd request fmt out s =
     (let (ret, t) = ioctl fd request s
      in if ret < 0 then sbind (bb_verror_msg (Some fmt) out (Some (strerror t (errno t))) t) (\<lambda>_ s. xfunc_die s)
         else Ret ret t)"

definition ioctl_or_perror ::
  "(int \<Rightarrow> nat \<Rightarrow> (int, 'z bb_scheme) syscall) \<Rightarrow> int \<Rightarrow> nat \<Rightarrow> string \<Rightarrow> string \<Rightarrow> 'z bb_scheme
   \<Rightarrow> (int, 'z bb_scheme) run" where
  "ioctl_or_perror ioctl fd request fmt out s =
     (let (ret, t) = ioctl fd request s
      in if ret < 0 then sbind (bb_verror_msg (Some fmt) out (Some (strerror t (errno t))) t) (\<lambda>_ s. Ret ret s)
         else Ret ret t)"

definition bb_ioctl_or_warn ::
  "(int \<Rightarrow> nat \<Rightarrow> (int, 'z bb_scheme) syscall) \<Rightarrow> int \<Rightarrow> nat \<Rightarrow> string \<Rightarrow> 'z bb_scheme \<Rightarrow> (int, 'z bb_scheme) run" where
  "bb_ioctl_or_warn ioctl fd request ioctl_name s =
     (let (ret, t) = ioctl fd request s
      in if ret < 0 then sbind (bb_simple_perror_msg ioctl_name t) (\<lambda>_ s. Ret ret s) else Ret ret t)"

definition bb_xioctl ::
  "(int \<Rightarrow> nat \<Rightarrow> (int, 'z bb_scheme) syscall) \<Rightarrow> int \<Rightarrow> nat \<Rightarrow> string \<Rightarrow> 'z bb_scheme \<Rightarrow> (int, 'z bb_scheme) run" where
  "bb_xioctl ioctl fd request ioctl_name s =
     (let (ret, t) = ioctl fd request s
      in if ret < 0 then bb_simple_perror_msg_and_die ioctl_name t else Ret ret t)"

subsection \<open>The contract\<close>

lemma more_die_messages [simp, intro]:
  "dies_with (perror_shown ''%s'' out t) t (bb_simple_perror_msg_and_die out t)"
  "dies_with (error_shown bb_msg_memory_exhausted bb_msg_memory_exhausted t) t (memory_exhausted t)"
  by (simp_all add: bb_simple_perror_msg_and_die_def memory_exhausted_def)

lemma dies_with_ends: "dies_with shown u m \<Longrightarrow> m \<noteq> Ret a t \<and> m \<noteq> Halt (Crash c) t"
  by (auto simp: dies_with_def)

text \<open>
  The run \<open>m\<close> ends the program with its error status from the state \<open>t\<close>. Standard error has got one line, the
  name of the program and \<open>line\<close>, if there is memory for the message, and nothing if there is none to format it.
\<close>

definition stopped :: "'z bb_scheme \<Rightarrow> string \<Rightarrow> ('a, 'z bb_scheme) run \<Rightarrow> bool" where
  "stopped t line m \<longleftrightarrow> (\<exists>u. m = Halt (Exit (xfunc_error_retval t)) u
     \<and> (mem t = [] \<longrightarrow> sent u = (sent t)(2 := sent t 2 @ applet_name t @ '': '' @ line @ msg_eol t))
     \<and> (mem t \<noteq> [] \<and> \<not> hd (mem t) \<longrightarrow> sent u = sent t))"

text \<open>A standard error that takes what is written to it, in a program that is not run from inside a shell.\<close>

definition can_report :: "'z bb_scheme \<Rightarrow> bool" where
  "can_report t \<longleftrightarrow> 0 \<le> die_sleep t \<and> logmode t = LOGMODE_STDIO \<and> wr_fine (wr t 2)"

lemma dies_with_stopped:
  "dies_with shown t m \<Longrightarrow> can_report t \<Longrightarrow> shown = applet_name t @ '': '' @ line @ msg_eol t \<Longrightarrow> stopped t line m"
  using dies_with_exit [of shown t m] by (auto simp: stopped_def can_report_def)

text \<open>
  A call that may fail and its wrapper: the wrapper returns the result of a call that did
  not fail, in the state the call left, and otherwise ends the program with a message.
\<close>

lemma full_write_nil: "full_write fd [] s = (0, s)"
  by (simp add: full_write_def full_write_loop.simps [of fd "[]"])

locale die_on_failure =
  fixes call :: "('r, 'z bb_scheme) syscall"
    and failed :: "'r \<Rightarrow> bool"
    and res :: "'r \<Rightarrow> 'a"
    and x :: "'z bb_scheme \<Rightarrow> ('a, 'z bb_scheme) run"
    and shown :: "'z bb_scheme \<Rightarrow> string"
  assumes goes_on: "\<not> failed (fst (call s)) \<Longrightarrow> x s = Ret (res (fst (call s))) (snd (call s))"
    and gives_up: "failed (fst (call s)) \<Longrightarrow> dies_with (shown (snd (call s))) (snd (call s)) (x s)"
begin

lemma returns_iff: "x s = Ret a t \<longleftrightarrow> (\<exists>r. call s = (r, t) \<and> \<not> failed r \<and> a = res r)"
proof (cases "failed (fst (call s))")
  case True
  with dies_with_ends [OF gives_up [OF True]] show ?thesis by auto
next
  case False
  with goes_on [OF False] show ?thesis by (cases "call s") auto
qed

lemma failure_stops:
  assumes "call s = (r, t)" "failed r" "can_report t" "shown t = applet_name t @ '': '' @ line @ msg_eol t"
  shows "stopped t line (x s)"
  using dies_with_stopped [of "shown t" t "x s" line] gives_up [of s] assms by simp

lemma never_crashes: "x s \<noteq> Halt (Crash c) u"
proof (cases "failed (fst (call s))")
  case True
  from dies_with_ends [OF gives_up [OF True]] show ?thesis by simp
next
  case False
  from goes_on [OF False] show ?thesis by simp
qed

end

interpretation malloc: die_on_failure
  "malloc n" "\<lambda>p. p = None \<and> n \<noteq> 0" "\<lambda>p. p"
  "xmalloc malloc n"
  "error_shown bb_msg_memory_exhausted bb_msg_memory_exhausted"
  for malloc n
  by unfold_locales (auto simp: xmalloc_def Let_def split: prod.splits option.splits)

interpretation realloc: die_on_failure
  "realloc p n" "\<lambda>p. p = None \<and> n \<noteq> 0" "\<lambda>p. p"
  "xrealloc realloc p n"
  "error_shown bb_msg_memory_exhausted bb_msg_memory_exhausted"
  for realloc p n
  by unfold_locales (auto simp: xrealloc_def Let_def split: prod.splits option.splits)

interpretation strdup: die_on_failure
  "strdup y" "\<lambda>p. p = None" "\<lambda>p. p"
  "xstrdup strdup (Some y)"
  "error_shown bb_msg_memory_exhausted bb_msg_memory_exhausted"
  for strdup y
  by unfold_locales (auto simp: xstrdup_def Let_def split: prod.splits option.splits)

interpretation asprintf: die_on_failure
  "vasprintf fmt args" "\<lambda>r. fst r < 0" "snd"
  "xasprintf vasprintf fmt args"
  "error_shown bb_msg_memory_exhausted bb_msg_memory_exhausted"
  for vasprintf fmt args
  by unfold_locales (auto simp: xasprintf_def Let_def split: prod.splits option.splits)

interpretation fopen: die_on_failure
  "fopen path mode" "\<lambda>f. f = None" "the"
  "xfopen fopen path mode"
  "perror_shown (cant_open ''%s'') (cant_open path)"
  for fopen path mode
  by unfold_locales (auto simp: xfopen_def Let_def split: prod.splits option.splits)

interpretation unlink: die_on_failure
  "unlink path" "\<lambda>r. r \<noteq> 0" "\<lambda>_. ()"
  "xunlink unlink path"
  "perror_shown (cant ''remove file '' @ quoted ''%s'') (cant ''remove file '' @ quoted path)"
  for unlink path
  by unfold_locales (auto simp: xunlink_def Let_def split: prod.splits option.splits)

interpretation rename: die_on_failure
  "rename a b" "\<lambda>r. r \<noteq> 0" "\<lambda>_. ()"
  "xrename rename a b"
  "perror_shown (cant_move ''%s'' ''%s'') (cant_move a b)"
  for rename a b
  by unfold_locales (auto simp: xrename_def Let_def split: prod.splits option.splits)

interpretation pipe: die_on_failure
  "pipe" "\<lambda>r. fst r \<noteq> 0" "snd"
  "xpipe pipe"
  "perror_shown (cant ''create pipe'') (cant ''create pipe'')"
  for pipe
  by unfold_locales (auto simp: xpipe_def Let_def split: prod.splits option.splits)

interpretation dup2: die_on_failure
  "dup2 a b" "\<lambda>r. r \<noteq> b" "\<lambda>_. ()"
  "xdup2 dup2 a b"
  "perror_shown (cant ''duplicate file descriptor'') (cant ''duplicate file descriptor'')"
  for dup2 a b
  by unfold_locales (auto simp: xdup2_def Let_def split: prod.splits option.splits)

interpretation lseek: die_on_failure
  "lseek fd off wh" "\<lambda>r. r = - 1" "\<lambda>r. r"
  "xlseek lseek fd off wh"
  "if wh = SEEK_SET then perror_shown ''lseek(%lu)'' (''lseek('' @ show_nat (nat (off mod 2 ^ 32)) @ '')'') else perror_shown ''lseek'' ''lseek''"
  for lseek fd off wh
  by unfold_locales (auto simp: xlseek_def Let_def split: prod.splits option.splits)

interpretation ferror: die_on_failure
  "\<lambda>s. (ferror fp s, s)" "\<lambda>r. r \<noteq> 0" "\<lambda>_. ()"
  "die_if_ferror ferror fp fn"
  "error_shown ''%s: I/O error'' (fn @ '': I/O error'')"
  for ferror fp fn
  by unfold_locales (auto simp: die_if_ferror_def Let_def split: prod.splits option.splits)

interpretation fflush: die_on_failure
  "fflush fp" "\<lambda>r. r \<noteq> 0" "\<lambda>_. ()"
  "xfflush_stdout fflush fp"
  "perror_shown bb_msg_standard_output bb_msg_standard_output"
  for fflush fp
  by unfold_locales (auto simp: xfflush_stdout_def Let_def split: prod.splits option.splits)

interpretation opendir: die_on_failure
  "opendir path" "\<lambda>d. d = None" "the"
  "xopendir opendir path"
  "perror_shown (cant_open ''%s'') (cant_open path)"
  for opendir path
  by unfold_locales (auto simp: xopendir_def Let_def split: prod.splits option.splits)

interpretation stat: die_on_failure
  "stat path" "\<lambda>r. fst r \<noteq> 0" "snd"
  "xstat stat path"
  "perror_shown (cant ''stat '' @ quoted ''%s'') (cant ''stat '' @ quoted path)"
  for stat path
  by unfold_locales (auto simp: xstat_def Let_def split: prod.splits option.splits)

interpretation setenv: die_on_failure
  "setenv key val 1" "\<lambda>r. r \<noteq> 0" "\<lambda>_. ()"
  "xsetenv setenv key val"
  "error_shown bb_msg_memory_exhausted bb_msg_memory_exhausted"
  for setenv key val
  by unfold_locales (auto simp: xsetenv_def Let_def split: prod.splits option.splits)

interpretation setgid: die_on_failure
  "setgid gid" "\<lambda>r. r \<noteq> 0" "\<lambda>_. ()"
  "xsetgid setgid gid"
  "perror_shown ''setgid'' ''setgid''"
  for setgid gid
  by unfold_locales (auto simp: xsetgid_def Let_def split: prod.splits option.splits)

interpretation setuid: die_on_failure
  "setuid uid" "\<lambda>r. r \<noteq> 0" "\<lambda>_. ()"
  "xsetuid setuid uid"
  "perror_shown ''setuid'' ''setuid''"
  for setuid uid
  by unfold_locales (auto simp: xsetuid_def Let_def split: prod.splits option.splits)

interpretation chdir: die_on_failure
  "chdir path" "\<lambda>r. r \<noteq> 0" "\<lambda>_. ()"
  "xchdir chdir path"
  "perror_shown ''chdir(%s)'' (''chdir('' @ path @ '')'')"
  for chdir path
  by unfold_locales (auto simp: xchdir_def Let_def split: prod.splits option.splits)

interpretation chroot: die_on_failure
  "chroot path" "\<lambda>r. r \<noteq> 0" "\<lambda>_. ()"
  "xchroot chroot path"
  "perror_shown (cant ''change root directory to %s'') (cant (''change root directory to '' @ path))"
  for chroot path
  by unfold_locales (auto simp: xchroot_def Let_def split: prod.splits option.splits)

interpretation socket: die_on_failure
  "socket dom ty prot" "\<lambda>r. r < 0" "\<lambda>r. r"
  "xsocket socket dom ty prot"
  "perror_shown ''socket'' ''socket''"
  for socket dom ty prot
  by unfold_locales (auto simp: xsocket_def Let_def split: prod.splits option.splits)

interpretation sbnd: die_on_failure
  "sbnd fd adr" "\<lambda>r. r \<noteq> 0" "\<lambda>_. ()"
  "xbind sbnd fd adr"
  "perror_shown ''bind'' ''bind''"
  for sbnd fd adr
  by unfold_locales (auto simp: xbind_def Let_def split: prod.splits option.splits)

interpretation listen: die_on_failure
  "listen fd n" "\<lambda>r. r \<noteq> 0" "\<lambda>_. ()"
  "xlisten listen fd n"
  "perror_shown ''listen'' ''listen''"
  for listen fd n
  by unfold_locales (auto simp: xlisten_def Let_def split: prod.splits option.splits)

interpretation sendto: die_on_failure
  "sendto fd buf 0 adr" "\<lambda>r. r < 0" "\<lambda>r. r"
  "xsendto sendto fd buf adr"
  "perror_shown ''sendto'' ''sendto''"
  for sendto fd buf adr
  by unfold_locales (auto simp: xsendto_def Let_def split: prod.splits option.splits)

interpretation ioctl: die_on_failure
  "ioctl fd req" "\<lambda>r. r < 0" "\<lambda>r. r"
  "ioctl_or_perror_and_die ioctl fd req fmt out"
  "\<lambda>t. error_line (applet_name t) (msg_eol t) (Some fmt) out (Some (strerror t (errno t)))"
  for ioctl fd req fmt out
  by unfold_locales (auto simp: ioctl_or_perror_and_die_def Let_def intro: message_dies split: prod.splits option.splits)

interpretation xioctl: die_on_failure
  "ioctl fd req" "\<lambda>r. r < 0" "\<lambda>r. r"
  "bb_xioctl ioctl fd req name"
  "perror_shown ''%s'' name"
  for ioctl fd req name
  by unfold_locales (auto simp: bb_xioctl_def Let_def split: prod.splits option.splits)

interpretation fullwr: die_on_failure
  "full_write fd buf" "\<lambda>r. r \<noteq> int (length buf)" "\<lambda>_. ()"
  "xwrite fd buf"
  "error_shown ''short write'' ''short write''"
  for fd buf
  by unfold_locales (auto simp: xwrite_def full_write_nil Let_def split: prod.splits option.splits)

subsection \<open>Properties\<close>

lemmas returns_iffs =
  malloc.returns_iff realloc.returns_iff strdup.returns_iff asprintf.returns_iff fopen.returns_iff unlink.returns_iff
  rename.returns_iff pipe.returns_iff dup2.returns_iff lseek.returns_iff ferror.returns_iff fflush.returns_iff
  opendir.returns_iff stat.returns_iff setenv.returns_iff setgid.returns_iff setuid.returns_iff chdir.returns_iff
  chroot.returns_iff socket.returns_iff sbnd.returns_iff listen.returns_iff sendto.returns_iff ioctl.returns_iff
  xioctl.returns_iff fullwr.returns_iff

text \<open>
  "If it returned, it succeeded": every wrapper with an x returns if and only if the
  system call it wraps succeeded, with the result and in the state of the call. Its caller
  never sees a failed call.
\<close>

theorem returned_means_succeeded:
  "(xmalloc malloc n s = Ret p t \<longleftrightarrow> malloc n s = (p, t) \<and> (n = 0 \<or> p \<noteq> None))
   \<and> (xrealloc realloc q n s = Ret p t \<longleftrightarrow> realloc q n s = (p, t) \<and> (n = 0 \<or> p \<noteq> None))
   \<and> (xstrdup strdup (Some str) s = Ret p t \<longleftrightarrow> strdup str s = (p, t) \<and> p \<noteq> None)
   \<and> (xasprintf vasprintf fmt args s = Ret p t \<longleftrightarrow> (\<exists>len. vasprintf fmt args s = ((len, p), t) \<and> 0 \<le> len))
   \<and> (xfopen fopen path mode s = Ret f t \<longleftrightarrow> fopen path mode s = (Some f, t))
   \<and> (xopendir opendir path s = Ret d t \<longleftrightarrow> opendir path s = (Some d, t))
   \<and> (xunlink unlink path s = Ret u t \<longleftrightarrow> unlink path s = (0, t))
   \<and> (xrename rename path path2 s = Ret u t \<longleftrightarrow> rename path path2 s = (0, t))
   \<and> (xpipe pipe s = Ret fds t \<longleftrightarrow> pipe s = ((0, fds), t))
   \<and> (xdup2 dup2 fd fd2 s = Ret u t \<longleftrightarrow> dup2 fd fd2 s = (fd2, t))
   \<and> (xlseek lseek fd off whence s = Ret r t \<longleftrightarrow> lseek fd off whence s = (r, t) \<and> r \<noteq> - 1)
   \<and> (die_if_ferror ferror f path s = Ret u t \<longleftrightarrow> ferror f s = 0 \<and> t = s)
   \<and> (xfflush_stdout fflush f s = Ret u t \<longleftrightarrow> fflush f s = (0, t))
   \<and> (xstat stat path s = Ret st t \<longleftrightarrow> stat path s = ((0, st), t))
   \<and> (xsetenv setenv path path2 s = Ret u t \<longleftrightarrow> setenv path path2 1 s = (0, t))
   \<and> (xsetgid setgid gid s = Ret u t \<longleftrightarrow> setgid gid s = (0, t))
   \<and> (xsetuid setuid uid s = Ret u t \<longleftrightarrow> setuid uid s = (0, t))
   \<and> (xchdir chdir path s = Ret u t \<longleftrightarrow> chdir path s = (0, t))
   \<and> (xchroot chroot path s = Ret u t \<longleftrightarrow> chroot path s = (0, t))
   \<and> (xsocket socket domain ty prot s = Ret r t \<longleftrightarrow> socket domain ty prot s = (r, t) \<and> 0 \<le> r)
   \<and> (xbind sbnd fd adr s = Ret u t \<longleftrightarrow> sbnd fd adr s = (0, t))
   \<and> (xlisten listen fd backlog s = Ret u t \<longleftrightarrow> listen fd backlog s = (0, t))
   \<and> (xsendto sendto fd buf adr s = Ret r t \<longleftrightarrow> sendto fd buf 0 adr s = (r, t) \<and> 0 \<le> r)
   \<and> (bb_xioctl ioctl fd request path s = Ret r t \<longleftrightarrow> ioctl fd request s = (r, t) \<and> 0 \<le> r)
   \<and> (xwrite fd buf s = Ret u t \<longleftrightarrow> full_write fd buf s = (int (length buf), t))"
  unfolding returns_iffs by (intro conjI) (auto simp: not_less)

theorem returned_means_succeeded_witness:
  "xunlink (\<lambda>path s. (0, s\<lparr>errno := 7\<rparr>)) ''a'' sample_bb = Ret () (sample_bb\<lparr>errno := 7\<rparr>)
   \<and> xmalloc (\<lambda>k s. (Some (replicate k NUL), s)) 3 sample_bb = Ret (Some (replicate 3 NUL)) sample_bb"
  by (simp add: returned_means_succeeded)

text \<open>The reason a message gives.\<close>

definition errno_text :: "'z bb_scheme \<Rightarrow> string" where
  "errno_text t = (if errno t \<noteq> 0 then '': '' @ strerror t (errno t) else [])"

lemma ferror_stops:
  "ferror f s = r \<Longrightarrow> r \<noteq> 0 \<Longrightarrow> t = s \<Longrightarrow> can_report t \<Longrightarrow> stopped t (path @ '': I/O error'') (die_if_ferror ferror f path s)"
  using ferror.failure_stops [of ferror f s r t] by (simp add: error_shown_def error_line_def)

lemmas failure_stops_rules =
  malloc.failure_stops realloc.failure_stops strdup.failure_stops asprintf.failure_stops setenv.failure_stops fopen.failure_stops
  opendir.failure_stops unlink.failure_stops rename.failure_stops stat.failure_stops chdir.failure_stops chroot.failure_stops
  pipe.failure_stops dup2.failure_stops lseek.failure_stops ferror_stops fflush.failure_stops setgid.failure_stops
  setuid.failure_stops socket.failure_stops sbnd.failure_stops listen.failure_stops sendto.failure_stops xioctl.failure_stops fullwr.failure_stops

lemmas shown_defs = error_shown_def perror_shown_def error_line_def errno_text_def bb_msg_memory_exhausted_def bb_msg_standard_output_def
  cant_def cant_open_def cant_move_def

text \<open>
  C32. A wrapped call that fails ends the program: for each of the twenty-five functions below that wrap one call, the
  exit status is the error status of the program in the state the failed call left, and a standard error that takes
  what is written to it has got one line with the function's own text, the argument where the text has one, and the
  reason where errno is reported and set. When there is no memory to format this line, which is likely after a failed
  allocation, nothing is shown and the program ends all the same.
\<close>

theorem failed_call_ends_program:
  assumes "can_report t"
  shows "(malloc n s = (None, t) \<and> n \<noteq> 0 \<longrightarrow> stopped t (bb_msg_memory_exhausted) (xmalloc malloc n s))
    \<and> (realloc q n s = (None, t) \<and> n \<noteq> 0 \<longrightarrow> stopped t (bb_msg_memory_exhausted) (xrealloc realloc q n s))
    \<and> (strdup str s = (None, t) \<longrightarrow> stopped t (bb_msg_memory_exhausted) (xstrdup strdup (Some str) s))
    \<and> (vasprintf fmt args s = ((r, p), t) \<and> r < 0 \<longrightarrow> stopped t (bb_msg_memory_exhausted) (xasprintf vasprintf fmt args s))
    \<and> (setenv path npath 1 s = (r, t) \<and> r \<noteq> 0 \<longrightarrow> stopped t (bb_msg_memory_exhausted) (xsetenv setenv path npath s))
    \<and> (fopen path mode s = (None, t) \<longrightarrow> stopped t (cant_open path @ errno_text t) (xfopen fopen path mode s))
    \<and> (opendir path s = (None, t) \<longrightarrow> stopped t (cant_open path @ errno_text t) (xopendir opendir path s))
    \<and> (unlink path s = (r, t) \<and> r \<noteq> 0 \<longrightarrow> stopped t (cant ''remove file '' @ quoted path @ errno_text t) (xunlink unlink path s))
    \<and> (rename path npath s = (r, t) \<and> r \<noteq> 0 \<longrightarrow> stopped t (cant_move path npath @ errno_text t) (xrename rename path npath s))
    \<and> (stat path s = ((r, st), t) \<and> r \<noteq> 0 \<longrightarrow> stopped t (cant ''stat '' @ quoted path @ errno_text t) (xstat stat path s))
    \<and> (chdir path s = (r, t) \<and> r \<noteq> 0 \<longrightarrow> stopped t (''chdir('' @ path @ '')'' @ errno_text t) (xchdir chdir path s))
    \<and> (chroot path s = (r, t) \<and> r \<noteq> 0 \<longrightarrow> stopped t (cant (''change root directory to '' @ path) @ errno_text t) (xchroot chroot path s))
    \<and> (pipe s = ((r, fds), t) \<and> r \<noteq> 0 \<longrightarrow> stopped t (cant ''create pipe'' @ errno_text t) (xpipe pipe s))
    \<and> (dup2 fd fd2 s = (r, t) \<and> r \<noteq> fd2 \<longrightarrow> stopped t (cant ''duplicate file descriptor'' @ errno_text t) (xdup2 dup2 fd fd2 s))
    \<and> (lseek fd off whence s = (- 1, t) \<longrightarrow> stopped t ((if whence = SEEK_SET then ''lseek('' @ show_nat (nat (off mod 2 ^ 32)) @ '')'' else ''lseek'') @ errno_text t) (xlseek lseek fd off whence s))
    \<and> (ferror f s = r \<and> r \<noteq> 0 \<and> t = s \<longrightarrow> stopped t (path @ '': I/O error'') (die_if_ferror ferror f path s))
    \<and> (fflush f s = (r, t) \<and> r \<noteq> 0 \<longrightarrow> stopped t (bb_msg_standard_output @ errno_text t) (xfflush_stdout fflush f s))
    \<and> (setgid gid s = (r, t) \<and> r \<noteq> 0 \<longrightarrow> stopped t (''setgid'' @ errno_text t) (xsetgid setgid gid s))
    \<and> (setuid uid s = (r, t) \<and> r \<noteq> 0 \<longrightarrow> stopped t (''setuid'' @ errno_text t) (xsetuid setuid uid s))
    \<and> (socket domain ty prot s = (r, t) \<and> r < 0 \<longrightarrow> stopped t (''socket'' @ errno_text t) (xsocket socket domain ty prot s))
    \<and> (sbnd fd adr s = (r, t) \<and> r \<noteq> 0 \<longrightarrow> stopped t (''bind'' @ errno_text t) (xbind sbnd fd adr s))
    \<and> (listen fd backlog s = (r, t) \<and> r \<noteq> 0 \<longrightarrow> stopped t (''listen'' @ errno_text t) (xlisten listen fd backlog s))
    \<and> (sendto fd buf 0 adr s = (r, t) \<and> r < 0 \<longrightarrow> stopped t (''sendto'' @ errno_text t) (xsendto sendto fd buf adr s))
    \<and> (ioctl fd request s = (r, t) \<and> r < 0 \<longrightarrow> stopped t (path @ errno_text t) (bb_xioctl ioctl fd request path s))
    \<and> (full_write fd buf s = (r, t) \<and> r \<noteq> int (length buf) \<longrightarrow> stopped t (''short write'') (xwrite fd buf s))"
  using assms by (intro conjI impI)
    (((elim conjE)?, (rule failure_stops_rules, (assumption | simp add: shown_defs)+))[1])+

lemma sample_bb_reports: "can_report (sample_bb\<lparr>errno := 2\<rparr>)" "can_report (sample_bb\<lparr>mem := [False]\<rparr>)"
  by (simp_all add: sample_bb_def can_report_def wr_fine_def)

theorem failed_call_ends_program_witness:
  "(\<exists>u. xrename (\<lambda>a b s. (- 1, s\<lparr>errno := 2\<rparr>)) ''a'' ''b'' sample_bb = Halt (Exit 1) u
     \<and> sent u 2 = ''flash_eraseall: can'' @ [CHR 0x27] @ ''t move '' @ [CHR 0x27] @ ''a'' @ [CHR 0x27] @ '' to ''
         @ [CHR 0x27] @ ''b'' @ [CHR 0x27] @ '': Error'' @ [CHR 0x0A])
   \<and> (\<exists>u. xmalloc (\<lambda>n s. (None, s\<lparr>mem := [False]\<rparr>)) 8 sample_bb = Halt (Exit 1) u \<and> sent u 2 = [])"
proof -
  have "stopped (sample_bb\<lparr>errno := 2\<rparr>) (cant_move ''a'' ''b'' @ errno_text (sample_bb\<lparr>errno := 2\<rparr>))
      (xrename (\<lambda>a b s. (- 1, s\<lparr>errno := 2\<rparr>)) ''a'' ''b'' sample_bb)"
    by (rule failed_call_ends_program [OF sample_bb_reports(1), where r = "- 1", THEN conjunct2, THEN conjunct2, THEN conjunct2,
          THEN conjunct2, THEN conjunct2, THEN conjunct2, THEN conjunct2, THEN conjunct2, THEN conjunct1, THEN mp]) simp
  moreover have "stopped (sample_bb\<lparr>mem := [False]\<rparr>) bb_msg_memory_exhausted
      (xmalloc (\<lambda>n s. (None, s\<lparr>mem := [False]\<rparr>)) 8 sample_bb)"
    by (rule failed_call_ends_program [OF sample_bb_reports(2), THEN conjunct1, THEN mp]) simp
  ultimately show ?thesis
    by (auto simp: stopped_def sample_bb_def cant_move_def cant_def quoted_def errno_text_def)
qed

lemma strn_loop_eq: "n - strn_loop n str = (if n < 0 then int (length str) else min n (int (length str)))"
proof (induction n str rule: strn_loop.induct)
  case (2 m c t)
  then show ?case by (cases "m = 0") (auto simp: min_def)
qed auto

lemma fill_ok: "length m = length b \<Longrightarrow> fill b (Some m) = Ok (Some b)"
  by (auto simp: fill_def poke_def)

lemma memory_exhausted_stops: "sbind (memory_exhausted t) f = memory_exhausted t"
  using bb_verror_msg_spec [of "Some bb_msg_memory_exhausted" bb_msg_memory_exhausted None t]
  by (auto simp: memory_exhausted_def bb_error_msg_and_die_def)

text \<open>
  Copies of strings stay inside their memory: xstrndup returns memory that holds exactly
  the first n characters of the string, or the whole string when it is shorter or n is
  negative, and the terminator, or ends the program.
\<close>

theorem xstrndup_copies:
  assumes "\<And>k s m t. malloc k s = (Some m, t) \<Longrightarrow> length m = k"
  shows "case malloc (min (if n < 0 then length str else nat n) (length str) + 1) s of
      (Some m, t) \<Rightarrow> xstrndup malloc str n s =
         Ret (Some ((if n < 0 then str else take (nat n) str) @ [NUL])) t
    | (None, t) \<Rightarrow> xstrndup malloc str n s = memory_exhausted t"
proof -
  define k where "k = nat (n - strn_loop n str)"
  have k: "k = min (if n < 0 then length str else nat n) (length str)"
    unfolding k_def strn_loop_eq by (auto simp: min_def)
  then have le: "k \<le> length str" and tk: "take k str = (if n < 0 then str else take (nat n) str)"
    by (auto simp: min_def)
  obtain p t where p: "malloc (k + 1) s = (p, t)" by fastforce
  show ?thesis
  proof (cases p)
    case None
    then show ?thesis using p unfolding k [symmetric] xstrndup_def k_def [symmetric]
      by (simp add: xmalloc_def memory_exhausted_stops)
  next
    case (Some m)
    then have m: "length m = k + 1" using assms p by blast
    then have pk: "poke k [NUL] m = Ok (take k m @ [NUL])" by (simp add: poke_def)
    have "fill (take k (str @ [NUL])) (Some (take k m @ [NUL])) = Ok (Some (take k str @ [NUL]))"
      using m le by (cases "k = 0") (auto simp: fill_def poke_def)
    with Some p pk le show ?thesis unfolding k [symmetric] xstrndup_def k_def [symmetric] tk [symmetric]
      by (simp add: xmalloc_def)
  qed
qed

theorem xstrndup_copies_witness:
  "xstrndup (\<lambda>k s. (Some (replicate k CHR ''x''), s)) ''abc'' 2 sample_bb = Ret (Some (''ab'' @ [NUL])) sample_bb"
  using xstrndup_copies [where malloc = "\<lambda>k s. (Some (replicate k CHR ''x''), s)" and n = 2 and str = "''abc''" and s = sample_bb] by simp

text \<open>
  xwrite writes everything or ends the program: when it returns, all bytes of the buffer have
  reached the descriptor in order and nothing else changed than the state of the
  descriptors; it returns when the system reports no error other than an interrupted call.
\<close>

theorem xwrite_writes_all:
  shows "xwrite fd buf s = Ret () t \<Longrightarrow> sent t = (sent s)(fd := sent s fd @ buf) \<and> io_only s t"
    and "wr_fine (wr s fd) \<Longrightarrow> \<exists>t. xwrite fd buf s = Ret () t"
proof -
  obtain n u where w: "full_write fd buf s = (n, u)" by fastforce
  note f = full_write_spec [OF w]
  show "sent t = (sent s)(fd := sent s fd @ buf) \<and> io_only s t" if "xwrite fd buf s = Ret () t"
  proof -
    have "n = int (length buf)" "u = t" using that w by (auto simp: fullwr.returns_iff)
    with f show ?thesis by auto
  qed
  show "\<exists>t. xwrite fd buf s = Ret () t" if "wr_fine (wr s fd)"
    using f that w by (auto simp: fullwr.returns_iff)
qed

text \<open>
  xzalloc returns memory of the size asked for that is zero everywhere.
\<close>

theorem xzalloc_zeroes:
  assumes "\<And>k s m t. malloc k s = (Some m, t) \<Longrightarrow> length m = k" "malloc n s = (Some m, t)"
  shows "xzalloc malloc n s = Ret (Some (replicate n NUL)) t"
  using assms(1) [OF assms(2)] assms(2) by (simp add: xzalloc_def xmalloc_def fill_ok)

text \<open>
  Moving a descriptor to itself keeps it open; to another one, the old one is closed after the
  duplication succeeded, and not at all when it failed.
\<close>

theorem xmove_fd_moves:
  "xmove_fd dup2 close from to s = Ret () t \<longleftrightarrow>
     (if from = to then t = s else \<exists>u. dup2 from to s = (to, u) \<and> t = snd (close from u))"
  by (auto simp: xmove_fd_def sbind_Ret_iff dup2.returns_iff)

text \<open>
  A file is printed completely: everything the file delivers reaches standard output behind
  what was written before, and the file is closed.
\<close>

theorem file_is_printed:
  assumes "0 \<le> fileno f" "rd_fine (rd (snd (fflush out s)) (fileno f))" "wr_fine (wr (snd (fflush out s)) 1)"
  shows "\<exists>t. xprint_and_close_file fflush fileno fclose out f s = Ret () (snd (fclose f t))
    \<and> sent t 1 = sent (snd (fflush out s)) 1 @ rd_bytes (rd (snd (fflush out s)) (fileno f))"
  using copy_loop_eof [OF assms(2,3), of 0] assms(1)
  by (auto simp: xprint_and_close_file_def bb_copyfd_eof_def bb_full_fd_action_def)

end
