(* ===== verification/Busybox_List.thy ===== *)
theory Busybox_List
  imports Prelude
begin

section \<open>The linked lists of busybox\<close>

text \<open>
  \<^verbatim>\<open>llist.c\<close> at the level of its pointers. The memory maps addresses to list cells; \<^verbatim>\<open>xmalloc\<close> takes
  an address that was not used before. The loops follow the links, which may lead into a
  circle, so their result is \<open>None\<close> when they do not end; the lemmas show that on a list they
  do, and what the list is afterwards.
\<close>

subsection \<open>Memory\<close>

record 'a llist_t =
  data :: 'a
  link :: "nat option"

record 'a list_heap =
  cells :: "nat \<Rightarrow> 'a llist_t option"
  brk :: nat

definition load :: "nat \<Rightarrow> 'a list_heap \<Rightarrow> 'a llist_t res" where
  "load a h = (case cells h a of None \<Rightarrow> Fault Use_after_free | Some n \<Rightarrow> Ok n)"

definition set_cell :: "nat \<Rightarrow> 'a llist_t \<Rightarrow> 'a list_heap \<Rightarrow> 'a list_heap" where
  "set_cell a n h = h\<lparr>cells := (cells h)(a := Some n)\<rparr>"

definition alloc :: "'a llist_t \<Rightarrow> 'a list_heap \<Rightarrow> nat \<times> 'a list_heap" where
  "alloc n h = (brk h, set_cell (brk h) n (h\<lparr>brk := Suc (brk h)\<rparr>))"

definition free_cell :: "nat \<Rightarrow> 'a list_heap \<Rightarrow> 'a list_heap" where
  "free_cell a h = h\<lparr>cells := (cells h)(a := None)\<rparr>"

subsection \<open>Operations\<close>

definition llist_add_to :: "nat option \<Rightarrow> 'a \<Rightarrow> 'a list_heap \<Rightarrow> nat option \<times> 'a list_heap" where
  "llist_add_to old_head d h =
     (let (new_head, h) = alloc \<lparr>data = d, link = old_head\<rparr> h in (Some new_head, h))"

partial_function (option) find_tail :: "nat \<Rightarrow> 'a list_heap \<Rightarrow> nat res option" where
  [code]: "find_tail tail h =
     (case load tail h of
        Fault e \<Rightarrow> Some (Fault e)
      | Ok n \<Rightarrow> (case link n of None \<Rightarrow> Some (Ok tail) | Some l \<Rightarrow> find_tail l h))"

definition llist_add_to_end :: "nat option \<Rightarrow> 'a \<Rightarrow> 'a list_heap \<Rightarrow> (nat option \<times> 'a list_heap) res option" where
  "llist_add_to_end list_head d h =
     (let (new_item, h) = alloc \<lparr>data = d, link = None\<rparr> h
      in case list_head of
           None \<Rightarrow> Some (Ok (Some new_item, h))
         | Some l \<Rightarrow>
             (case find_tail l h of
                None \<Rightarrow> None
              | Some r \<Rightarrow>
                  Some (rbind r (\<lambda>tail. rbind (load tail h) (\<lambda>n.
                    Ok (list_head, set_cell tail (n\<lparr>link := Some new_item\<rparr>) h))))))"

definition llist_pop :: "nat option \<Rightarrow> 'a list_heap \<Rightarrow> ('a option \<times> nat option \<times> 'a list_heap) res" where
  "llist_pop head h =
     (case head of
        None \<Rightarrow> Ok (None, None, h)
      | Some a \<Rightarrow> rbind (load a h) (\<lambda>n. Ok (Some (data n), link n, free_cell a h)))"

partial_function (option) unlink_loop :: "nat option \<Rightarrow> nat \<Rightarrow> 'a list_heap \<Rightarrow> 'a list_heap res option" where
  [code]: "unlink_loop crt elm h =
     (case crt of
        None \<Rightarrow> Some (Ok h)
      | Some a \<Rightarrow>
          (case load a h of
             Fault e \<Rightarrow> Some (Fault e)
           | Ok n \<Rightarrow>
               if link n = Some elm
               then Some (rbind (load elm h) (\<lambda>m. Ok (set_cell a (n\<lparr>link := link m\<rparr>) h)))
               else unlink_loop (link n) elm h))"

definition llist_unlink :: "nat option \<Rightarrow> nat option \<Rightarrow> 'a list_heap \<Rightarrow> (nat option \<times> 'a list_heap) res option" where
  "llist_unlink head elm h =
     (case (elm, head) of
        (Some e, Some a) \<Rightarrow>
          if e = a then Some (rbind (load a h) (\<lambda>n. Ok (link n, h)))
          else (case unlink_loop head e h of None \<Rightarrow> None | Some r \<Rightarrow> Some (rbind r (\<lambda>h. Ok (head, h))))
      | _ \<Rightarrow> Some (Ok (head, h)))"

text \<open>\<open>freeit\<close> is called with each datum; \<open>seen\<close> collects them.\<close>

partial_function (option) llist_free :: "nat option \<Rightarrow> 'a list \<Rightarrow> 'a list_heap \<Rightarrow> ('a list \<times> 'a list_heap) res option" where
  [code]: "llist_free elm seen h =
     (case elm of
        None \<Rightarrow> Some (Ok (seen, h))
      | Some a \<Rightarrow>
          (case llist_pop elm h of
             Fault e \<Rightarrow> Some (Fault e)
           | Ok r \<Rightarrow> llist_free (fst (snd r)) (seen @ [the (fst r)]) (snd (snd r))))"

partial_function (option) rev_loop :: "nat option \<Rightarrow> nat option \<Rightarrow> 'a list_heap \<Rightarrow> (nat option \<times> 'a list_heap) res option" where
  [code]: "rev_loop lst rv h =
     (case lst of
        None \<Rightarrow> Some (Ok (rv, h))
      | Some a \<Rightarrow>
          (case load a h of
             Fault e \<Rightarrow> Some (Fault e)
           | Ok n \<Rightarrow> rev_loop (link n) lst (set_cell a (n\<lparr>link := rv\<rparr>) h)))"

definition llist_rev :: "nat option \<Rightarrow> 'a list_heap \<Rightarrow> (nat option \<times> 'a list_heap) res option" where
  "llist_rev lst h = rev_loop lst None h"

subsection \<open>Lists in memory\<close>

text \<open>The cells of a list, from the head to the one whose link is NULL.\<close>

fun chain :: "'a list_heap \<Rightarrow> nat option \<Rightarrow> nat list \<Rightarrow> bool" where
  "chain h p [] \<longleftrightarrow> p = None"
| "chain h p (a # as) \<longleftrightarrow> p = Some a \<and> (case cells h a of None \<Rightarrow> False | Some n \<Rightarrow> chain h (link n) as)"

definition vals :: "'a list_heap \<Rightarrow> nat list \<Rightarrow> 'a list" where
  "vals h as = map (\<lambda>a. data (the (cells h a))) as"

definition llist :: "'a list_heap \<Rightarrow> nat option \<Rightarrow> nat list \<Rightarrow> bool" where
  "llist h p as \<longleftrightarrow> chain h p as \<and> distinct as \<and> (\<forall>a\<in>set as. a < brk h)"

lemma vals_cong: "(\<And>a. a \<in> set as \<Longrightarrow> map_option data (cells h' a) = map_option data (cells h a)) \<Longrightarrow>
    chain h p as \<Longrightarrow> vals h' as = vals h as"
  by (induction as arbitrary: p) (fastforce simp: vals_def split: option.splits)+

lemma cells_simps [simp]:
  "cells (set_cell a n h) = (cells h)(a \<mapsto> n)" "brk (set_cell a n h) = brk h"
  "cells (free_cell a h) = (cells h)(a := None)" "brk (free_cell a h) = brk h"
  by (simp_all add: set_cell_def free_cell_def)

lemma set_cell_twice [simp]: "set_cell a m (set_cell a n h) = set_cell a m h"
  by (simp add: set_cell_def)

lemma set_cell_same: "cells h a = Some n \<Longrightarrow> set_cell a n h = h"
  by (simp add: set_cell_def fun_upd_idem)

lemma chain_other [simp]:
  "a \<notin> set as \<Longrightarrow> chain (set_cell a n h) p as = chain h p as" "a \<notin> set as \<Longrightarrow> chain (free_cell a h) p as = chain h p as"
  "chain (h\<lparr>brk := k\<rparr>) p as = chain h p as"
  by (induction as arbitrary: p) (auto split: option.splits)

lemma vals_other [simp]:
  "a \<notin> set as \<Longrightarrow> vals (set_cell a n h) as = vals h as" "a \<notin> set as \<Longrightarrow> vals (free_cell a h) as = vals h as"
  "vals (h\<lparr>brk := k\<rparr>) as = vals h as"
  by (auto simp: vals_def)

text \<open>Lists that share no cell: a segment in front of a list.\<close>

lemma chain_append:
  "chain h p (as @ b # bs) \<longleftrightarrow>
     (case cells h b of None \<Rightarrow> False
      | Some n \<Rightarrow> chain (set_cell b (n\<lparr>link := None\<rparr>) h) p (as @ [b]) \<and> chain h (link n) bs)"
  if "b \<notin> set as"
  using that by (induction as arbitrary: p) (auto split: option.splits)

lemma find_tail_ok: "chain h (Some a) (as @ [b]) \<Longrightarrow> find_tail a h = Some (Ok b)"
proof (induction as arbitrary: a)
  case Nil
  then show ?case by (subst find_tail.simps) (auto simp: load_def split: option.splits)
next
  case (Cons c as)
  then obtain n where n: "a = c" "cells h c = Some n" "chain h (link n) (as @ [b])" by (auto split: option.splits)
  moreover obtain l where "link n = Some l" using n(3) by (cases as) auto
  ultimately show ?case using Cons.IH [of l] by (subst find_tail.simps) (simp add: load_def)
qed


subsection \<open>What the operations do to a list\<close>

lemma add_to_list:
  assumes "llist h p as" "llist_add_to p d h = (q, h')"
  shows "llist h' q (brk h # as) \<and> vals h' (brk h # as) = d # vals h as"
proof -
  have new: "brk h \<notin> set as" using assms(1) by (auto simp: llist_def)
  have h': "q = Some (brk h)" "h' = set_cell (brk h) \<lparr>data = d, link = p\<rparr> (h\<lparr>brk := Suc (brk h)\<rparr>)"
    using assms(2) by (auto simp: llist_add_to_def alloc_def)
  have "vals h' (brk h # as) = d # vals h' as" by (simp add: vals_def h')
  with assms(1) h' new show ?thesis by (auto simp: llist_def)
qed

lemma add_to_end_list:
  assumes "llist h p as"
  shows "\<exists>q h'. llist_add_to_end p d h = Some (Ok (q, h')) \<and> llist h' q (as @ [brk h]) \<and> vals h' (as @ [brk h]) = vals h as @ [d]"
proof (cases as rule: rev_cases)
  case Nil
  with assms show ?thesis by (simp add: llist_def llist_add_to_end_def alloc_def vals_def)
next
  case (snoc bs b)
  let ?h = "set_cell (brk h) \<lparr>data = d, link = None\<rparr> (h\<lparr>brk := Suc (brk h)\<rparr>)"
  have dist: "b \<notin> set bs" "brk h \<notin> set as" "b \<noteq> brk h" using assms snoc by (auto simp: llist_def)
  have c: "chain ?h p (bs @ [b])" using dist assms snoc by (simp add: llist_def)
  obtain a where a: "p = Some a" using c by (cases bs) auto
  obtain n where n: "cells h b = Some n" "link n = None"
    using c chain_append [OF dist(1), of ?h p "[]"] dist(3) by (auto split: option.splits)
  let ?h' = "set_cell b (n\<lparr>link := Some (brk h)\<rparr>) ?h"
  have "set_cell b (n\<lparr>link := None\<rparr>) ?h' = ?h" using n dist(3) set_cell_same [of ?h b n] by (cases n) simp
  then have "chain ?h' p (bs @ b # [brk h])" using c dist by (subst chain_append [OF dist(1)]) simp
  moreover have "vals ?h' (as @ [brk h]) = vals h as @ [d]"
    using n dist snoc by (auto simp: vals_def intro!: map_cong)
  moreover have "llist_add_to_end p d h = Some (Ok (p, ?h'))"
    using find_tail_ok [OF c [unfolded a]] n dist a by (simp add: llist_add_to_end_def alloc_def load_def)
  ultimately show ?thesis using assms snoc dist by (auto simp: llist_def)
qed

lemma pop_list:
  assumes "llist h p (a # as)"
  shows "\<exists>q h'. llist_pop p h = Ok (Some (hd (vals h (a # as))), q, h') \<and> llist h' q as \<and> vals h' as = tl (vals h (a # as)) \<and> cells h' a = None"
proof -
  obtain n where n: "p = Some a" "cells h a = Some n" "chain h (link n) as" "a \<notin> set as"
    using assms by (auto simp: llist_def split: option.splits)
  with assms show ?thesis by (simp add: llist_pop_def load_def llist_def) (simp add: vals_def)
qed

lemma unlink_loop_list:
  "chain h p (xs @ c # elm # ys) \<Longrightarrow> elm \<notin> set xs \<Longrightarrow> distinct (xs @ c # elm # ys) \<Longrightarrow>
   \<exists>n m. cells h c = Some n \<and> cells h elm = Some m \<and> unlink_loop p elm h = Some (Ok (set_cell c (n\<lparr>link := link m\<rparr>) h))"
proof (induction xs arbitrary: p)
  case Nil
  then show ?case by (subst unlink_loop.simps) (auto simp: load_def split: option.splits)
next
  case (Cons x xs)
  then obtain n where n: "p = Some x" "cells h x = Some n" "chain h (link n) (xs @ c # elm # ys)" by (auto split: option.splits)
  then have "link n \<noteq> Some elm" using Cons.prems by (cases xs) auto
  with n Cons show ?case by (subst unlink_loop.simps) (simp add: load_def)
qed

lemma unlink_list:
  assumes "llist h p as" "elm \<in> set as"
  shows "\<exists>q h'. llist_unlink p (Some elm) h = Some (Ok (q, h')) \<and> llist h' q (remove1 elm as)
    \<and> vals h' (remove1 elm as) = vals h (remove1 elm as)"
proof -
  obtain xs ys where as: "as = xs @ elm # ys" "elm \<notin> set xs" by (meson assms(2) split_list_first)
  show ?thesis
  proof (cases xs rule: rev_cases)
    case Nil
    with assms(1) as show ?thesis by (auto simp: llist_def llist_unlink_def load_def split: option.splits)
  next
    case (snoc zs c)
    have d: "distinct (zs @ c # elm # ys)" "elm \<notin> set zs" "c \<notin> set zs" "c \<noteq> elm" using assms(1) as snoc by (auto simp: llist_def)
    have ch: "chain h p (zs @ c # elm # ys)" using assms(1) as snoc by (simp add: llist_def)
    from unlink_loop_list [OF ch d(2,1)] obtain n m where
      u: "cells h c = Some n" "cells h elm = Some m" "unlink_loop p elm h = Some (Ok (set_cell c (n\<lparr>link := link m\<rparr>) h))" by blast
    let ?h = "set_cell c (n\<lparr>link := link m\<rparr>) h"
    have "chain (set_cell c (n\<lparr>link := None\<rparr>) h) p (zs @ [c])" "chain h (link m) ys"
      using ch chain_append [OF d(3), of h p "elm # ys"] u by auto
    then have "chain ?h p (zs @ c # ys)" using chain_append [OF d(3), of ?h p ys] d(1) by simp
    moreover have "p \<noteq> Some elm" using ch d by (cases zs) auto
    moreover obtain a where "p = Some a" using ch by (cases zs) auto
    ultimately show ?thesis using u assms(1) as snoc d
      by (auto simp: llist_unlink_def llist_def remove1_append vals_def intro!: map_cong)
  qed
qed

lemma free_list:
  "chain h p as \<Longrightarrow> distinct as \<Longrightarrow>
   \<exists>h'. llist_free p seen h = Some (Ok (seen @ vals h as, h')) \<and> (\<forall>a. cells h' a = (if a \<in> set as then None else cells h a))"
proof (induction as arbitrary: p seen h)
  case Nil
  then show ?case by (subst llist_free.simps) (simp add: vals_def)
next
  case (Cons a as)
  then obtain n where n: "p = Some a" "cells h a = Some n" "chain h (link n) as" by (auto split: option.splits)
  let ?h = "free_cell a h"
  have "chain ?h (link n) as" "vals ?h as = vals h as" using n(3) Cons.prems by simp_all
  then show ?case
    using Cons.IH [of ?h "link n" "seen @ [data n]"] Cons.prems n
    by (subst llist_free.simps) (auto simp: llist_pop_def load_def vals_def)
qed

lemma rev_loop_list:
  "chain h p as \<Longrightarrow> chain h r rs \<Longrightarrow> distinct (as @ rs) \<Longrightarrow>
   \<exists>q h'. rev_loop p r h = Some (Ok (q, h')) \<and> chain h' q (rev as @ rs) \<and> brk h' = brk h
     \<and> (\<forall>a. map_option data (cells h' a) = map_option data (cells h a))"
proof (induction as arbitrary: p r rs h)
  case Nil
  then show ?case by (subst rev_loop.simps) simp
next
  case (Cons a as)
  then obtain n where n: "p = Some a" "cells h a = Some n" "chain h (link n) as" by (auto split: option.splits)
  let ?h = "set_cell a (n\<lparr>link := r\<rparr>) h"
  have c: "chain ?h (link n) as" "chain ?h r rs"
    using n(3) Cons.prems by simp_all
  then have "chain ?h p (a # rs)" using n by simp
  with Cons.IH [OF c(1), of p "a # rs"] Cons.prems(3) obtain q h' where
    h': "rev_loop (link n) p ?h = Some (Ok (q, h'))" "chain h' q (rev as @ a # rs)" "brk h' = brk h"
      "\<forall>x. map_option data (cells h' x) = map_option data (cells ?h x)" by auto
  have "rev_loop p r h = Some (Ok (q, h'))" using n h'(1) by (subst rev_loop.simps) (simp add: load_def)
  with h' n show ?case by auto
qed

lemma rev_list:
  assumes "llist h p as"
  shows "\<exists>q h'. llist_rev p h = Some (Ok (q, h')) \<and> llist h' q (rev as) \<and> vals h' (rev as) = rev (vals h as)"
proof -
  from rev_loop_list [of h p as None "[]"] assms obtain q h' where
    h': "rev_loop p None h = Some (Ok (q, h'))" "chain h' q (rev as)" "brk h' = brk h"
      "\<forall>a. map_option data (cells h' a) = map_option data (cells h a)" by (auto simp: llist_def)
  moreover have "vals h' as = vals h as" using vals_cong [of as h' h p] h'(4) assms by (auto simp: llist_def)
  ultimately show ?thesis using assms by (auto simp: llist_rev_def llist_def vals_def rev_map)
qed


subsection \<open>Collecting at the end\<close>

text \<open>
  What a client that only adds at the end relies on: lists in memory, their contents, and one
  operation. Adding the elements of a list one after the other collects them in order.
\<close>

locale collector =
  fixes contents :: "'h \<Rightarrow> 'p \<Rightarrow> 'x list \<Rightarrow> bool"
    and add :: "'p \<Rightarrow> 'x \<Rightarrow> 'h \<Rightarrow> ('p \<times> 'h) res option"
  assumes add_contents: "contents h p xs \<Longrightarrow> \<exists>q h'. add p x h = Some (Ok (q, h')) \<and> contents h' q (xs @ [x])"
begin

fun add_all :: "'p \<Rightarrow> 'x list \<Rightarrow> 'h \<Rightarrow> ('p \<times> 'h) res option" where
  "add_all p [] h = Some (Ok (p, h))"
| "add_all p (x # xs) h =
     (case add p x h of
        None \<Rightarrow> None
      | Some (Fault e) \<Rightarrow> Some (Fault e)
      | Some (Ok (q, h)) \<Rightarrow> add_all q xs h)"

lemma add_all_contents:
  "contents h p xs \<Longrightarrow> \<exists>q h'. add_all p ys h = Some (Ok (q, h')) \<and> contents h' q (xs @ ys)"
proof (induction ys arbitrary: h p xs)
  case Nil
  then show ?case by simp
next
  case (Cons y ys)
  from add_contents [OF Cons.prems, of y] obtain q h' where q: "add p y h = Some (Ok (q, h'))" "contents h' q (xs @ [y])" by blast
  from Cons.IH [OF q(2)] q(1) show ?case by simp
qed

end

definition holds :: "'a list_heap \<Rightarrow> nat option \<Rightarrow> 'a list \<Rightarrow> bool" where
  "holds h p xs \<longleftrightarrow> (\<exists>as. llist h p as \<and> vals h as = xs)"

interpretation bbl: collector holds llist_add_to_end
proof unfold_locales
  fix h p x and xs :: "'a list"
  assume "holds h p xs"
  then obtain as where "llist h p as" "vals h as = xs" by (auto simp: holds_def)
  with add_to_end_list [of h p as x] show "\<exists>q h'. llist_add_to_end p x h = Some (Ok (q, h')) \<and> holds h' q (xs @ [x])"
    unfolding holds_def by blast
qed

subsection \<open>Properties\<close>

text \<open>
  C30. The list operations end on every list in memory and do to its contents what their names
  say: adding at the end appends, popping takes the first element and frees its cell,
  unlinking removes the given cell and nothing else, reversing reverses. Each leaves a
  list in memory again, without cells shared or lost.
\<close>

theorem llist_refines_list:
  assumes "llist h p as"
  shows "(\<exists>q h' bs. llist_add_to_end p d h = Some (Ok (q, h')) \<and> llist h' q bs \<and> vals h' bs = vals h as @ [d])
    \<and> (as \<noteq> [] \<longrightarrow> (\<exists>q h'. llist_pop p h = Ok (Some (hd (vals h as)), q, h') \<and> llist h' q (tl as)
         \<and> vals h' (tl as) = tl (vals h as) \<and> cells h' (hd as) = None))
    \<and> (\<forall>elm\<in>set as. \<exists>q h'. llist_unlink p (Some elm) h = Some (Ok (q, h')) \<and> llist h' q (remove1 elm as)
         \<and> vals h' (remove1 elm as) = vals h (remove1 elm as))
    \<and> (\<exists>q h'. llist_rev p h = Some (Ok (q, h')) \<and> llist h' q (rev as) \<and> vals h' (rev as) = rev (vals h as))"
proof (intro conjI impI ballI)
  show "\<exists>q h' bs. llist_add_to_end p d h = Some (Ok (q, h')) \<and> llist h' q bs \<and> vals h' bs = vals h as @ [d]"
    using add_to_end_list [OF assms] by blast
  show "\<exists>q h'. llist_pop p h = Ok (Some (hd (vals h as)), q, h') \<and> llist h' q (tl as)
         \<and> vals h' (tl as) = tl (vals h as) \<and> cells h' (hd as) = None" if "as \<noteq> []"
    using pop_list [of h p "hd as" "tl as"] assms that by simp
  show "\<exists>q h'. llist_unlink p (Some elm) h = Some (Ok (q, h')) \<and> llist h' q (remove1 elm as)
         \<and> vals h' (remove1 elm as) = vals h (remove1 elm as)" if "elm \<in> set as" for elm
    using unlink_list [OF assms that] .
  show "\<exists>q h'. llist_rev p h = Some (Ok (q, h')) \<and> llist h' q (rev as) \<and> vals h' (rev as) = rev (vals h as)"
    using rev_list [OF assms] .
qed

definition sample_list :: "string list_heap" where
  "sample_list = \<lparr>cells = [1 \<mapsto> \<lparr>data = ''a'', link = Some 2\<rparr>, 2 \<mapsto> \<lparr>data = ''b'', link = None\<rparr>], brk = 3\<rparr>"

theorem llist_refines_list_witness:
  "\<exists>q h'. llist_rev (Some 1) sample_list = Some (Ok (q, h')) \<and> llist h' q [2, 1] \<and> vals h' [2, 1] = [''b'', ''a'']"
  using llist_refines_list [of sample_list "Some 1" "[1, 2]" "''c''"]
  by (auto simp: llist_def sample_list_def vals_def)

text \<open>
  Freeing a list calls the function given with every element in order and leaves none of its
  cells in memory.
\<close>

theorem llist_free_all:
  assumes "llist h p as"
  shows "\<exists>h'. llist_free p [] h = Some (Ok (vals h as, h')) \<and> (\<forall>a. cells h' a = (if a \<in> set as then None else cells h a))"
  using free_list [of h p as "[]"] assms by (simp add: llist_def)

theorem llist_free_all_witness:
  "\<exists>h'. llist_free (Some 1) [] sample_list = Some (Ok ([''a'', ''b''], h')) \<and> cells h' 1 = None \<and> cells h' 2 = None"
  using llist_free_all [of sample_list "Some 1" "[1, 2]"] by (auto simp: llist_def sample_list_def vals_def)

end
