(* ===== verification/Getopt32.thy ===== *)
theory Getopt32
  imports Busybox_Lib Busybox_List
begin

unbundle bit_operations_syntax

section \<open>Command line options\<close>

text \<open>
  \<^verbatim>\<open>getopt32.c\<close>: the options of an applet as the bits of one word, with conditions on how they may
  be combined. Long options are not configured (\<^verbatim>\<open>ENABLE_GETOPT_LONG\<close> is 0). Below it stands what
  it uses of \<^verbatim>\<open>getopt\<close> of the C library.
\<close>

subsection \<open>The C library\<close>

text \<open>
  The options in \<open>argv\<close> do not depend on what the caller does between two calls, so all calls
  are one function: the options found, each with its \<^verbatim>\<open>optarg\<close>, the words they took up, and the
  words that are left. \<^verbatim>\<open>getopt\<close> moves the latter behind the former; \<^verbatim>\<open>optind\<close> is where they begin.
  The line it prints for an option it does not know is not part of the model.
\<close>

datatype ordering = Permute | Require_order | Return_in_order
datatype arg_kind = No_arg | Needs_arg | Optional_arg
type_synonym found = "char \<times> cptr"

definition opt_ordering :: "bool \<Rightarrow> string \<Rightarrow> ordering" where
  "opt_ordering posixly_correct opts =
     (if char_at opts 0 = CHR ''-'' then Return_in_order
      else if char_at opts 0 = CHR ''+'' \<or> posixly_correct then Require_order
      else Permute)"

definition skip_gnu :: "string \<Rightarrow> string" where
  "skip_gnu opts = (if char_at opts 0 = CHR ''+'' \<or> char_at opts 0 = CHR ''-'' then drop 1 opts else opts)"

definition opt_kind :: "string \<Rightarrow> char \<Rightarrow> arg_kind option" where
  "opt_kind opts c =
     (if c = CHR '':'' then None
      else case strchr opts c of
             None \<Rightarrow> None
           | Some r \<Rightarrow>
               Some (if char_at r 1 \<noteq> CHR '':'' then No_arg
                     else if char_at r 2 = CHR '':'' then Optional_arg else Needs_arg))"

definition missing_arg :: "string \<Rightarrow> char" where
  "missing_arg opts = (if char_at opts 0 = CHR '':'' then CHR '':'' else CHR ''?'')"

fun getopt_word :: "string \<Rightarrow> string \<Rightarrow> string list \<Rightarrow> found list \<times> string list" where
  "getopt_word opts [] args = ([], args)"
| "getopt_word opts (c # w) args =
     (case opt_kind opts c of
        None \<Rightarrow> let (es, r) = getopt_word opts w args in ((CHR ''?'', None) # es, r)
      | Some No_arg \<Rightarrow> let (es, r) = getopt_word opts w args in ((c, None) # es, r)
      | Some Optional_arg \<Rightarrow> ([(c, if w = [] then None else Some w)], args)
      | Some Needs_arg \<Rightarrow>
          if w \<noteq> [] then ([(c, Some w)], args)
          else (case args of [] \<Rightarrow> ([(missing_arg opts, None)], []) | a # as \<Rightarrow> ([(c, Some a)], as)))"

definition is_operand :: "string \<Rightarrow> bool" where
  "is_operand a \<longleftrightarrow> char_at a 0 \<noteq> CHR ''-'' \<or> length a = 1"

lemma getopt_word_rest: "getopt_word opts w args = (es, r) \<Longrightarrow> length r \<le> length args"
  by (induction opts w args arbitrary: es rule: getopt_word.induct)
    (auto split: option.splits arg_kind.splits prod.splits if_splits list.splits)

function getopt_scan :: "ordering \<Rightarrow> string \<Rightarrow> string list \<Rightarrow> found list \<times> string list \<times> string list" where
  "getopt_scan ord opts [] = ([], [], [])"
| "getopt_scan ord opts (a # args) =
     (if a = ''--'' then ([], [a], args)
      else if is_operand a then
        (case ord of
           Require_order \<Rightarrow> ([], [], a # args)
         | Return_in_order \<Rightarrow> let (es, t, n) = getopt_scan ord opts args in ((CHR 0x01, Some a) # es, a # t, n)
         | Permute \<Rightarrow> let (es, t, n) = getopt_scan ord opts args in (es, t, a # n))
      else
        let (es, rest) = getopt_word opts (drop 1 a) args;
            (es', t, n) = getopt_scan ord opts rest
        in (es @ es', a # take (length args - length rest) args @ t, n))"
  by pat_completeness auto
termination
  by (relation "measure (\<lambda>(ord, opts, args). length args)")
    (auto dest!: getopt_word_rest [OF sym])

declare getopt_scan.simps [simp del]

subsection \<open>State\<close>

text \<open>
  What the pointers behind the option string point to: a \<^verbatim>\<open>char *\<close>, an \<^verbatim>\<open>int\<close>, or the head of a list
  of strings, to whose end \<^verbatim>\<open>llist_add_to_end\<close> adds (\<^verbatim>\<open>Busybox_List\<close>).
\<close>

datatype sink = Text cptr | Number u32 | Items "string list"

record opts_state = bb +
  opt_complementary :: cptr
  posixly_correct :: bool
  optind :: nat
  sinks :: "sink list"
  option_mask32 :: u32

datatype param_type = PARAM_STRING | PARAM_LIST | PARAM_INT

record t_complementary =
  opt_char :: char
  param_type :: param_type
  switch_on :: u32
  switch_off :: u32
  incongruously :: u32
  requires :: u32
  optarg :: "nat option"
  counter :: "nat option"

definition no_option :: t_complementary where
  "no_option = \<lparr>opt_char = NUL, param_type = PARAM_STRING, switch_on = 0, switch_off = 0, incongruously = 0,
     requires = 0, optarg = None, counter = None\<rparr>"

text \<open>The entry with a letter, or the first unused one.\<close>

definition opt_index :: "t_complementary list \<Rightarrow> char \<Rightarrow> nat" where
  "opt_index tab c = length (takeWhile (\<lambda>e. opt_char e \<noteq> NUL \<and> opt_char e \<noteq> c) tab)"

subsection \<open>The option string\<close>

text \<open>
  \<open>va\<close> are the pointers that follow the option string, as numbers of sinks, \<open>None\<close> for NULL.
\<close>

function opt_entries :: "string \<Rightarrow> nat \<Rightarrow> nat option list \<Rightarrow> (t_complementary list \<times> nat option list) res" where
  "opt_entries s c va =
     (if s = [] \<or> 32 \<le> c then Ok ([], va)
      else
        let e = no_option\<lparr>opt_char := hd s, switch_on := push_bit c 1\<rparr>; r = drop 1 s
        in if char_at r 0 = CHR '':''
           then (case va of
                   [] \<Rightarrow> Fault Uninit_read
                 | p # va \<Rightarrow>
                     rbind (opt_entries (dropWhile (\<lambda>x. x = CHR '':'') r) (Suc c) va) (\<lambda>(t, va).
                       Ok (e\<lparr>optarg := p\<rparr> # t, va)))
           else rbind (opt_entries r (Suc c) va) (\<lambda>(t, va). Ok (e # t, va)))"
  by pat_completeness auto
termination
  by (relation "measure (\<lambda>(s, c, va). 32 - c)") auto

declare opt_entries.simps [simp del]

definition opt_table :: "t_complementary list \<Rightarrow> t_complementary list" where
  "opt_table es = es @ replicate (33 - length es) no_option"

subsection \<open>The conditions\<close>

datatype pair_switch = On | Off | Incongruous | Required

definition switch_or :: "pair_switch \<Rightarrow> u32 \<Rightarrow> t_complementary \<Rightarrow> t_complementary" where
  "switch_or ps b e =
     (case ps of
        On \<Rightarrow> e\<lparr>switch_on := switch_on e OR b\<rparr>
      | Off \<Rightarrow> e\<lparr>switch_off := switch_off e OR b\<rparr>
      | Incongruous \<Rightarrow> e\<lparr>incongruously := incongruously e OR b\<rparr>
      | Required \<Rightarrow> e\<lparr>requires := requires e OR b\<rparr>)"

text \<open>The loop over the letters behind the first of a group.\<close>

fun pair_loop :: "nat \<Rightarrow> pair_switch \<Rightarrow> string \<Rightarrow> t_complementary list \<Rightarrow> t_complementary list" where
  "pair_loop pair ps [] tab = tab"
| "pair_loop pair ps (c # s) tab =
     (if c = CHR '':'' then tab
      else if c = CHR ''?'' then pair_loop pair Required s tab
      else if c = CHR ''-'' then pair_loop pair (if ps = Off then Incongruous else Off) s tab
      else
        let on_off = tab ! opt_index tab c
        in pair_loop pair ps s
             (if opt_char on_off = NUL then tab else tab[pair := switch_or ps (switch_on on_off) (tab ! pair)]))"

record conditions =
  table :: "t_complementary list"
  flags0 :: u32
  all_requires :: u32
  all_argv_is_opts :: bool
  first_argv_is_opt :: bool
  min_arg :: int
  max_arg :: int
  va_args :: "nat option list"

definition c_digit :: "char \<Rightarrow> int" where
  "c_digit c = int (of_char c) - 48"

definition is_c_digit :: "char \<Rightarrow> bool" where
  "is_c_digit c \<longleftrightarrow> 48 \<le> (of_char c :: nat) \<and> (of_char c :: nat) \<le> 57"

text \<open>
  One group that begins with a letter: the table and how far \<open>s\<close> advances, to the last
  character of the group that was looked at (the loop then goes to the next).
\<close>

definition group_end :: "char \<Rightarrow> bool" where
  "group_end c \<longleftrightarrow> c = CHR '':'' \<or> c = NUL"

definition comp_letter :: "string \<Rightarrow> conditions \<Rightarrow> (string \<times> conditions) res" where
  "comp_letter s p =
     (let c = char_at s 1; c2 = char_at s 2; tab = table p; i = opt_index tab (hd s); on_off = tab ! i
      in if c = CHR '':'' \<and> c2 = CHR '':'' then Ok (drop 1 s, p\<lparr>table := tab[i := on_off\<lparr>param_type := PARAM_LIST\<rparr>]\<rparr>)
         else if c = CHR ''+'' \<and> group_end c2 then Ok (drop 1 s, p\<lparr>table := tab[i := on_off\<lparr>param_type := PARAM_INT\<rparr>]\<rparr>)
         else if group_end c then Ok (drop 1 s, p\<lparr>all_requires := all_requires p OR switch_on on_off\<rparr>)
         else if c = CHR ''-'' \<and> group_end c2 then
           Ok (drop 2 s, p\<lparr>flags0 := flags0 p OR switch_on on_off,
                 table := tab[i := on_off\<lparr>incongruously := incongruously on_off OR switch_on on_off\<rparr>]\<rparr>)
         else
           rbind (if c = hd s then
                    (case va_args p of
                       [] \<Rightarrow> Fault Uninit_read
                     | v # va \<Rightarrow> Ok (drop 2 s, p\<lparr>table := tab[i := on_off\<lparr>counter := v\<rparr>], va_args := va\<rparr>))
                  else Ok (drop 1 s, p))
             (\<lambda>(r, p). Ok (dropWhile (\<lambda>x. x \<noteq> CHR '':'') r, p\<lparr>table := pair_loop i On r (table p)\<rparr>)))"

text \<open>
  The loop over \<^verbatim>\<open>opt_complementary\<close>. An equals sign at the end of the string takes the terminator
  for its digit and goes on reading behind it.
\<close>

definition comp_step :: "string \<Rightarrow> conditions \<Rightarrow> (string \<times> conditions) res" where
  "comp_step s p =
     (let c = char_at s 1
      in if hd s = CHR '':'' then Ok (drop 1 s, p)
         else if hd s = CHR ''?'' then
           (if \<not> is_c_digit c then Ok (drop 1 s, p) else Ok (drop 2 s, p\<lparr>max_arg := c_digit c\<rparr>))
         else if hd s = CHR ''-'' then
           (if \<not> is_c_digit c
            then (if c = CHR ''-'' then Ok (drop 2 s, p\<lparr>first_argv_is_opt := True\<rparr>)
                  else Ok (drop 1 s, p\<lparr>all_argv_is_opts := True\<rparr>))
            else Ok (drop 2 s, p\<lparr>min_arg := c_digit c\<rparr>))
         else if hd s = CHR ''='' then
           (if length s = 1 then Fault Oob_read else Ok (drop 2 s, p\<lparr>min_arg := c_digit c, max_arg := c_digit c\<rparr>))
         else comp_letter s p)"

lemma comp_step_shorter: "s \<noteq> [] \<Longrightarrow> comp_step s p = Ok (r, q) \<Longrightarrow> length r < length s"
proof -
  assume a: "s \<noteq> []" "comp_step s p = Ok (r, q)"
  have "length (dropWhile P (drop n s)) < length s" if "0 < n" for P n
    using a(1) that length_dropWhile_le [of P "drop n s"] by (simp add: le_less_trans)
  from this [of "Suc 0"] this [of 2] a show ?thesis
    by (auto simp: comp_step_def comp_letter_def Let_def rbind_Ok_iff split: if_splits list.splits)
qed

function comp_loop :: "string \<Rightarrow> conditions \<Rightarrow> conditions res" where
  "comp_loop s p = (if s = [] then Ok p else rbind (comp_step s p) (\<lambda>(s, p). comp_loop s p))"
  by pat_completeness auto
termination
  by (relation "measure (\<lambda>(s, p). length s)") (auto dest: comp_step_shorter)

declare comp_loop.simps [simp del]

subsection \<open>The words\<close>

definition dashed :: "string \<Rightarrow> string" where
  "dashed a = (if char_at a 0 \<noteq> CHR ''-'' \<and> a \<noteq> [] then CHR ''-'' # a else a)"

definition dash_argv :: "conditions \<Rightarrow> string list \<Rightarrow> string list" where
  "dash_argv p args =
     (if all_argv_is_opts p then map dashed args
      else if first_argv_is_opt p then (case args of [] \<Rightarrow> [] | a # as \<Rightarrow> dashed a # as)
      else args)"

subsection \<open>The options found\<close>

definition set_sink :: "nat \<Rightarrow> sink \<Rightarrow> 'z opts_state_scheme \<Rightarrow> 'z opts_state_scheme" where
  "set_sink i v s = s\<lparr>sinks := (sinks s)[i := v]\<rparr>"

text \<open>
  The counter and the argument of an option. A sink of another type than the option has is
  memory read at the wrong type.
\<close>

definition count_option :: "t_complementary \<Rightarrow> 'z opts_state_scheme \<Rightarrow> (unit, 'z opts_state_scheme) run" where
  "count_option e s =
     (case counter e of
        None \<Rightarrow> Ret () s
      | Some i \<Rightarrow>
          if i < length (sinks s) then
            (case sinks s ! i of
               Number n \<Rightarrow> Ret () (set_sink i (Number (n + 1)) s)
             | _ \<Rightarrow> Halt (Crash Uninit_read) s)
          else Halt (Crash Oob_write) s)"

definition store_optarg :: "t_complementary \<Rightarrow> cptr \<Rightarrow> 'z opts_state_scheme \<Rightarrow> (unit, 'z opts_state_scheme) run" where
  "store_optarg e arg s =
     (case arg of
        None \<Rightarrow> Ret () s
      | Some a \<Rightarrow>
          (case optarg e of
             None \<Rightarrow>
               (case param_type e of
                  PARAM_STRING \<Rightarrow> Ret () s
                | PARAM_LIST \<Rightarrow> Halt (Crash Null_deref) s
                | PARAM_INT \<Rightarrow> sbind (xatoi_u a s) (\<lambda>_ s. Halt (Crash Null_deref) s))
           | Some i \<Rightarrow>
               if length (sinks s) \<le> i then Halt (Crash Oob_write) s
               else
                 (case param_type e of
                    PARAM_STRING \<Rightarrow> Ret () (set_sink i (Text (Some a)) s)
                  | PARAM_LIST \<Rightarrow>
                      (case sinks s ! i of
                         Items l \<Rightarrow> Ret () (set_sink i (Items (l @ [a])) s)
                       | _ \<Rightarrow> Halt (Crash Uninit_read) s)
                  | PARAM_INT \<Rightarrow> sbind (xatoi_u a s) (\<lambda>n s. Ret () (set_sink i (Number (word_of_nat n)) s)))))"

definition switch_flags :: "t_complementary \<Rightarrow> u32 \<Rightarrow> u32" where
  "switch_flags e flags =
     (let trigger = switch_on e AND switch_off e;
          flags = flags AND NOT (switch_off e XOR trigger);
          flags = flags OR (switch_on e XOR trigger)
      in flags XOR trigger)"

definition take_option :: "t_complementary list \<Rightarrow> found \<Rightarrow> u32 \<Rightarrow> 'z opts_state_scheme \<Rightarrow> (u32, 'z opts_state_scheme) run" where
  "take_option tab ev flags s =
     (let on_off = tab ! opt_index tab (fst ev)
      in if opt_char on_off \<noteq> fst ev then bb_show_usage s
         else if flags AND incongruously on_off \<noteq> 0 then bb_show_usage s
         else sbind (count_option on_off s) (\<lambda>_ s.
              sbind (store_optarg on_off (snd ev) s) (\<lambda>_ s. Ret (switch_flags on_off flags) s)))"

fun take_options :: "t_complementary list \<Rightarrow> found list \<Rightarrow> u32 \<Rightarrow> 'z opts_state_scheme \<Rightarrow> (u32, 'z opts_state_scheme) run" where
  "take_options tab [] flags s = Ret flags s"
| "take_options tab (ev # evs) flags s = sbind (take_option tab ev flags s) (\<lambda>flags s. take_options tab evs flags s)"

text \<open>The conditions on the whole line: required options, and how many words are left.\<close>

definition requires_missing :: "t_complementary list \<Rightarrow> u32 \<Rightarrow> bool" where
  "requires_missing tab flags \<longleftrightarrow>
     list_ex (\<lambda>e. requires e \<noteq> 0 \<and> flags AND switch_on e \<noteq> 0 \<and> flags AND requires e = 0)
       (takeWhile (\<lambda>e. opt_char e \<noteq> NUL) tab)"

text \<open>
  The result is the word of flags and \<^verbatim>\<open>argv\<close>, whose words getopt has put into order.
\<close>

definition getopt32 ::
  "string list \<Rightarrow> string \<Rightarrow> nat option list \<Rightarrow> 'z opts_state_scheme \<Rightarrow> (u32 \<times> string list, 'z opts_state_scheme) run" where
  "getopt32 argv applet_opts va s =
     (case argv of
        [] \<Rightarrow> Halt (Crash Oob_read) s
      | argv0 # args \<Rightarrow>
          sbind (lift (opt_entries (skip_gnu applet_opts) 0 va) s) (\<lambda>(es, va) s.
          sbind (lift (comp_loop (case opt_complementary s of None \<Rightarrow> [] | Some t \<Rightarrow> t)
                   \<lparr>table = opt_table es, flags0 = 0, all_requires = 0, all_argv_is_opts = False,
                    first_argv_is_opt = False, min_arg = 0, max_arg = - 1, va_args = va\<rparr>) s) (\<lambda>p s.
            let (found, taken, left) =
                  getopt_scan (opt_ordering (posixly_correct s) applet_opts) (skip_gnu applet_opts) (dash_argv p args);
                s = s\<lparr>optind := Suc (length taken)\<rparr>
            in sbind (take_options (table p) found (flags0 p) s) (\<lambda>flags s.
                 let argc = int (length left)
                 in if requires_missing (table p) flags then bb_show_usage s
                    else if all_requires p \<noteq> 0 \<and> flags AND all_requires p = 0 then bb_show_usage s
                    else if argc < min_arg p \<or> 0 \<le> max_arg p \<and> max_arg p < argc then bb_show_usage s
                    else Ret (flags, argv0 # taken @ left) (s\<lparr>option_mask32 := flags\<rparr>)))))"


subsection \<open>Lemmas\<close>

subsubsection \<open>Plain options\<close>

text \<open>
  An option string of letters without arguments, and a command line of option words and
  operands in any order.
\<close>

definition plain_opts :: "string \<Rightarrow> bool" where
  "plain_opts opts \<longleftrightarrow> distinct opts \<and> length opts \<le> 32 \<and> set opts \<inter> {CHR '':'', CHR ''?'', CHR ''-'', CHR ''+'', CHR ''='', NUL} = {}"

datatype item = Opts string | Operand string

fun item_word :: "item \<Rightarrow> string" where
  "item_word (Opts w) = CHR ''-'' # w"
| "item_word (Operand a) = a"

fun item_ok :: "item \<Rightarrow> bool" where
  "item_ok (Opts w) \<longleftrightarrow> w \<noteq> [] \<and> w \<noteq> ''-'' \<and> NUL \<notin> set w"
| "item_ok (Operand a) \<longleftrightarrow> is_operand a"

fun letters :: "item list \<Rightarrow> string" where
  "letters [] = []"
| "letters (Opts w # is) = w @ letters is"
| "letters (Operand a # is) = letters is"

fun operands :: "item list \<Rightarrow> string list" where
  "operands [] = []"
| "operands (Opts w # is) = operands is"
| "operands (Operand a # is) = a # operands is"

fun option_words :: "item list \<Rightarrow> string list" where
  "option_words [] = []"
| "option_words (Opts w # is) = (CHR ''-'' # w) # option_words is"
| "option_words (Operand a # is) = option_words is"

definition plain_entry :: "nat \<Rightarrow> char \<Rightarrow> t_complementary" where
  "plain_entry i x = no_option\<lparr>opt_char := x, switch_on := push_bit i 1\<rparr>"

definition plain_table :: "string \<Rightarrow> t_complementary list" where
  "plain_table opts = opt_table (map (\<lambda>i. plain_entry i (opts ! i)) [0..<length opts])"

lemma opt_entries_plain:
  assumes "c + length opts \<le> 32" "CHR '':'' \<notin> set opts"
  shows "opt_entries opts c va = Ok (map (\<lambda>i. plain_entry (c + i) (opts ! i)) [0..<length opts], va)"
  using assms
proof (induction opts arbitrary: c)
  case Nil
  then show ?case by (simp add: opt_entries.simps)
next
  case (Cons x opts)
  have "char_at opts 0 \<noteq> CHR '':''" using Cons.prems(2) by (cases opts) (auto simp: char_at_def)
  with Cons.IH [of "Suc c"] Cons.prems show ?case
    by (simp add: opt_entries.simps [of "x # opts"] plain_entry_def upt_conv_Cons map_Suc_upt [symmetric] comp_def
        del: upt_Suc)
qed

lemma plain_opts_first:
  assumes "plain_opts opts"
  shows "CHR '':'' \<notin> set opts" "length opts \<le> 32" "char_at opts 0 \<noteq> CHR ''-''" "char_at opts 0 \<noteq> CHR ''+''"
  using assms by (auto simp: plain_opts_def char_at_def) (metis nth_mem length_greater_0_conv)+

lemma opt_kind_plain:
  assumes "plain_opts opts" "c \<noteq> NUL"
  shows "opt_kind opts c = (if c \<in> set opts then Some No_arg else None)"
proof (cases "c \<in> set opts")
  case True
  then obtain a b where s: "opts = a @ c # b" "c \<notin> set a" by (meson split_list_first)
  with assms have "char_at b 0 \<noteq> CHR '':''" "c \<noteq> CHR '':''"
    by (cases b; auto simp: plain_opts_def char_at_def)+
  with s assms(2) strchr_append [of c a b] True show ?thesis by (auto simp: opt_kind_def char_at_def split: if_splits)
next
  case False
  then show ?thesis using strchr_None [OF assms(2) False] by (simp add: opt_kind_def)
qed

definition plain_found :: "string \<Rightarrow> string \<Rightarrow> found list" where
  "plain_found opts w = map (\<lambda>c. (if c \<in> set opts then c else CHR ''?'', None)) w"

lemma getopt_word_plain:
  assumes "plain_opts opts" "NUL \<notin> set w"
  shows "getopt_word opts w args = (plain_found opts w, args)"
  using assms(2) by (induction w) (auto simp: plain_found_def opt_kind_plain [OF assms(1)])

lemma getopt_scan_plain:
  assumes "plain_opts opts" "list_all item_ok items"
  shows "getopt_scan Permute opts (map item_word items) = (plain_found opts (letters items), option_words items, operands items)"
  using assms(2)
proof (induction items)
  case Nil
  then show ?case by (simp add: getopt_scan.simps plain_found_def)
next
  case (Cons i items)
  then have IH: "getopt_scan Permute opts (map item_word items) = (plain_found opts (letters items), option_words items, operands items)"
    by simp
  show ?case
  proof (cases i)
    case (Opts w)
    with Cons.prems have "\<not> is_operand (CHR ''-'' # w)" "CHR ''-'' # w \<noteq> ''--''" "NUL \<notin> set w"
      by (auto simp: is_operand_def char_at_def)
    with IH Opts getopt_word_plain [OF assms(1), of w] show ?thesis
      by (simp add: getopt_scan.simps plain_found_def)
  next
    case (Operand a)
    with Cons.prems have "is_operand a" "a \<noteq> ''--''" by (auto simp: is_operand_def char_at_def)
    with IH Operand show ?thesis by (simp add: getopt_scan.simps)
  qed
qed

lemma opt_index_plain:
  assumes "plain_opts opts" "i < length opts"
  shows "opt_index (plain_table opts) (opts ! i) = i"
proof -
  let ?tab = "plain_table opts"
  let ?P = "\<lambda>e. opt_char e \<noteq> NUL \<and> opt_char e \<noteq> opts ! i"
  have nth: "opt_char (?tab ! j) = opts ! j" if "j < length opts" for j
    using that by (simp add: plain_table_def opt_table_def nth_append plain_entry_def)
  have len: "i < length ?tab" using assms by (auto simp: plain_table_def opt_table_def plain_opts_def)
  have "takeWhile ?P ?tab = take i ?tab"
  proof (rule takeWhile_eq_take_P_nth)
    fix j assume "j < i"
    with assms have "opts ! j \<noteq> opts ! i" "opts ! j \<noteq> NUL"
      by (auto simp: plain_opts_def nth_eq_iff_index_eq) (metis less_trans nth_mem)
    with assms nth [of j] \<open>j < i\<close> show "?P (?tab ! j)" by simp
  next
    show "\<not> ?P (?tab ! i)" using nth [of i] assms(2) by simp
  qed
  with len show ?thesis by (simp add: opt_index_def)
qed

lemma plain_table_nth: "i < length opts \<Longrightarrow> plain_table opts ! i = plain_entry i (opts ! i)"
  by (simp add: plain_table_def opt_table_def nth_append)

lemma takeWhile_stops: "\<exists>x\<in>set xs. \<not> P x \<Longrightarrow> length (takeWhile P xs) < length xs"
  by (induction xs) auto

lemma plain_index_bound:
  assumes "plain_opts opts"
  shows "opt_index (plain_table opts) c < length (plain_table opts)"
proof -
  have "length opts < 33" using assms by (simp add: plain_opts_def)
  then have "\<exists>e\<in>set (plain_table opts). \<not> (opt_char e \<noteq> NUL \<and> opt_char e \<noteq> c)"
    by (auto simp: plain_table_def opt_table_def no_option_def)
  then show ?thesis unfolding opt_index_def by (rule takeWhile_stops)
qed

lemma plain_unknown:
  assumes "plain_opts opts" "c \<notin> set opts" "c \<noteq> NUL"
  shows "opt_char (plain_table opts ! opt_index (plain_table opts) c) \<noteq> c"
proof -
  have "plain_table opts ! opt_index (plain_table opts) c \<in> set (plain_table opts)"
    using plain_index_bound [OF assms(1)] by simp
  then show ?thesis using assms(2,3) by (auto simp: plain_table_def opt_table_def plain_entry_def no_option_def)
qed

lemma take_option_plain:
  assumes "plain_opts opts"
  shows "i < length opts \<Longrightarrow> take_option (plain_table opts) (opts ! i, None) flags s = Ret (flags OR push_bit i 1) s"
    and "take_option (plain_table opts) (CHR ''?'', None) flags s = bb_show_usage s"
proof -
  show "take_option (plain_table opts) (opts ! i, None) flags s = Ret (flags OR push_bit i 1) s" if "i < length opts"
    using opt_index_plain [OF assms that] that
    by (simp add: take_option_def Let_def plain_table_nth plain_entry_def no_option_def count_option_def store_optarg_def
        switch_flags_def)
  have "CHR ''?'' \<notin> set opts" using assms by (auto simp: plain_opts_def)
  from plain_unknown [OF assms this] show "take_option (plain_table opts) (CHR ''?'', None) flags s = bb_show_usage s"
    by (simp add: take_option_def Let_def)
qed

lemma take_options_plain:
  assumes "plain_opts opts"
  shows "set w \<subseteq> set opts \<Longrightarrow> \<exists>f. take_options (plain_table opts) (plain_found opts w) flags s = Ret f s
      \<and> (\<forall>i. bit f i \<longleftrightarrow> bit flags i \<or> i < length opts \<and> opts ! i \<in> set w)"
    and "\<not> set w \<subseteq> set opts \<Longrightarrow> take_options (plain_table opts) (plain_found opts w) flags s = bb_show_usage s"
proof (induction w arbitrary: flags)
  case Nil
  {
    case 1
    show ?case by (simp add: plain_found_def)
  next
    case 2
    then show ?case by simp
  }
next
  case (Cons c w)
  have len: "length opts \<le> 32" using assms by (simp add: plain_opts_def)
  {
    case 1
    then obtain j where j: "j < length opts" "c = opts ! j" by (auto simp: in_set_conv_nth)
    obtain f where f: "take_options (plain_table opts) (plain_found opts w) (flags OR push_bit j 1) s = Ret f s"
      "\<forall>i. bit f i \<longleftrightarrow> bit (flags OR push_bit j 1) i \<or> i < length opts \<and> opts ! i \<in> set w"
      using Cons.IH(1) [of "flags OR push_bit j 1"] 1 by auto
    have dist: "opts ! i = opts ! j \<longleftrightarrow> i = j" if "i < length opts" for i
      using assms j that by (simp add: plain_opts_def nth_eq_iff_index_eq)
    from f(2) have "\<forall>i. bit f i \<longleftrightarrow> bit flags i \<or> i < length opts \<and> opts ! i \<in> set (c # w)"
      using j len dist by (auto simp: bit_simps)
    with f(1) j take_option_plain(1) [OF assms j(1), of flags s] show ?case by (auto simp: plain_found_def)
  next
    case 2
    show ?case
    proof (cases "c \<in> set opts")
      case True
      then obtain j where j: "j < length opts" "c = opts ! j" by (auto simp: in_set_conv_nth)
      with 2 Cons.IH(2) [of "flags OR push_bit j 1"] take_option_plain(1) [OF assms j(1), of flags s]
      show ?thesis by (auto simp: plain_found_def)
    next
      case False
      then show ?thesis using take_option_plain(2) [OF assms, of flags s]
        by (simp add: plain_found_def bb_show_usage_def xfunc_die_def)
    qed
  }
qed


lemma comp_loop_exactly:
  "is_c_digit d \<Longrightarrow> comp_loop [CHR ''='', d] p = Ok (p\<lparr>min_arg := c_digit d, max_arg := c_digit d\<rparr>)"
  by (simp add: comp_loop.simps comp_step_def char_at_def)

lemma bb_show_usage_exit: "0 \<le> die_sleep s \<Longrightarrow> bb_show_usage s = Halt (Exit (xfunc_error_retval s)) s"
  by (simp add: bb_show_usage_def xfunc_die_exit)

lemma plain_requires [simp]: "\<not> requires_missing (plain_table opts) flags"
proof -
  have "requires e = 0" if "e \<in> set (plain_table opts)" for e
    using that by (auto simp: plain_table_def opt_table_def plain_entry_def no_option_def)
  then show ?thesis by (auto simp: requires_missing_def list_ex_iff dest!: set_takeWhileD)
qed

text \<open>All of \<^verbatim>\<open>getopt32\<close> on such a command line when exactly so many operands are asked for.\<close>

lemma getopt32_plain:
  assumes "plain_opts opts" "list_all item_ok items" "opt_complementary s = Some [CHR ''='', d]" "is_c_digit d"
    "\<not> posixly_correct s" "0 \<le> die_sleep s"
  shows "if set (letters items) \<subseteq> set opts \<and> int (length (operands items)) = c_digit d
    then \<exists>f. getopt32 (argv0 # map item_word items) opts va s =
           Ret (f, argv0 # option_words items @ operands items)
             (s\<lparr>optind := Suc (length (option_words items)), option_mask32 := f\<rparr>)
         \<and> (\<forall>i. bit f i \<longleftrightarrow> i < length opts \<and> opts ! i \<in> set (letters items))
    else getopt32 (argv0 # map item_word items) opts va s =
           Halt (Exit (xfunc_error_retval s)) (s\<lparr>optind := Suc (length (option_words items))\<rparr>)"
proof -
  let ?s = "s\<lparr>optind := Suc (length (option_words items))\<rparr>"
  note p = plain_opts_first [OF assms(1)]
  have ord: "skip_gnu opts = opts" "opt_ordering (posixly_correct s) opts = Permute"
    using p assms(5) by (simp_all add: skip_gnu_def opt_ordering_def)
  have es: "opt_entries opts 0 va = Ok (map (\<lambda>i. plain_entry i (opts ! i)) [0..<length opts], va)"
    using opt_entries_plain [of 0 opts va] p by simp
  have "getopt32 (argv0 # map item_word items) opts va s =
    sbind (take_options (plain_table opts) (plain_found opts (letters items)) 0 ?s) (\<lambda>flags s.
      if int (length (operands items)) < c_digit d \<or> 0 \<le> c_digit d \<and> c_digit d < int (length (operands items))
      then bb_show_usage s
      else Ret (flags, argv0 # option_words items @ operands items) (s\<lparr>option_mask32 := flags\<rparr>))"
    using assms(3)
    by (simp add: getopt32_def ord es comp_loop_exactly [OF assms(4)] dash_argv_def getopt_scan_plain [OF assms(1,2)]
        plain_table_def [symmetric] Let_def)
  moreover have "0 \<le> c_digit d" using assms(4) by (simp add: c_digit_def is_c_digit_def)
  ultimately have g: "getopt32 (argv0 # map item_word items) opts va s =
    sbind (take_options (plain_table opts) (plain_found opts (letters items)) 0 ?s) (\<lambda>flags s.
      if int (length (operands items)) \<noteq> c_digit d then bb_show_usage s
      else Ret (flags, argv0 # option_words items @ operands items) (s\<lparr>option_mask32 := flags\<rparr>))"
    by (simp add: linorder_neq_iff)
  show ?thesis
  proof (cases "set (letters items) \<subseteq> set opts")
    case True
    obtain f where "take_options (plain_table opts) (plain_found opts (letters items)) 0 ?s = Ret f ?s"
      "\<forall>i. bit f i \<longleftrightarrow> bit (0 :: u32) i \<or> i < length opts \<and> opts ! i \<in> set (letters items)"
      using take_options_plain(1) [OF assms(1) True, of 0 ?s] by blast
    with True assms(6) show ?thesis unfolding g by (simp add: bb_show_usage_exit)
  next
    case False
    from take_options_plain(2) [OF assms(1) this, of 0 ?s] False assms(6) show ?thesis unfolding g by (simp add: bb_show_usage_exit)
  qed
qed


subsubsection \<open>Exclusive options\<close>

lemma opt_index_letters: "opt_index tab c = length (takeWhile (\<lambda>x. x \<noteq> NUL \<and> x \<noteq> c) (map opt_char tab))"
  by (simp add: opt_index_def takeWhile_map comp_def)

lemma opt_index_update [simp]:
  "opt_char e = opt_char (tab ! i) \<Longrightarrow> opt_index (tab[i := e]) c = opt_index tab c"
  by (simp add: opt_index_letters map_update) (metis list_update_beyond list_update_id not_le map_update nth_map)

definition excl_table :: "string \<Rightarrow> nat \<Rightarrow> nat \<Rightarrow> t_complementary list" where
  "excl_table opts i j =
     (plain_table opts)[i := (plain_entry i (opts ! i))\<lparr>incongruously := push_bit j 1\<rparr>,
                        j := (plain_entry j (opts ! j))\<lparr>incongruously := push_bit i 1\<rparr>]"

lemma comp_loop_exclusive:
  assumes "plain_opts opts" "i < length opts" "j < length opts" "i \<noteq> j" "table p = plain_table opts"
  shows "comp_loop (opts ! i # ''--'' @ opts ! j # '':'' @ opts ! j # ''--'' @ [opts ! i]) p
    = Ok (p\<lparr>table := excl_table opts i j\<rparr>)"
proof -
  let ?a = "opts ! i" and ?b = "opts ! j" and ?tab = "plain_table opts"
  have mem: "?a \<in> set opts" "?b \<in> set opts" using assms(2,3) by simp_all
  have len: "length opts < 33" using assms(1) by (simp add: plain_opts_def)
  have ab: "?a \<noteq> CHR '':''" "?b \<noteq> CHR '':''" "?a \<noteq> CHR ''?''" "?b \<noteq> CHR ''?''" "?a \<noteq> CHR ''-''" "?b \<noteq> CHR ''-''"
    "?a \<noteq> CHR ''=''" "?b \<noteq> CHR ''=''" "?a \<noteq> NUL" "?b \<noteq> NUL"
    using assms(1) mem by (auto simp: plain_opts_def)
  note ix = opt_index_plain [OF assms(1,2)] opt_index_plain [OF assms(1,3)]
  have c: "opt_char (?tab ! i) = ?a" "opt_char (?tab ! j) = ?b" "i < length ?tab" "j < length ?tab"
    using assms(2,3) len by (simp_all add: plain_table_nth plain_entry_def) (simp_all add: plain_table_def opt_table_def)
  define q where "q = p\<lparr>table := ?tab[i := (?tab ! i)\<lparr>incongruously := switch_on (?tab ! j)\<rparr>]\<rparr>"
  have zero: "incongruously (?tab ! k) = 0" "switch_on (?tab ! k) = push_bit k 1" if "k < length opts" for k
    using that by (simp_all add: plain_table_nth plain_entry_def no_option_def)
  have 1: "comp_step (?a # ''--'' @ ?b # '':'' @ ?b # ''--'' @ [?a]) p = Ok ('':'' @ ?b # ''--'' @ [?a], q)"
    using ab assms(2,5) c by (simp add: comp_step_def comp_letter_def char_at_def group_end_def ix switch_or_def q_def zero Let_def)
  have 2: "comp_step (?b # ''--'' @ [?a]) q = Ok ([], p\<lparr>table := excl_table opts i j\<rparr>)"
    using ab assms(2-4) c
    by (simp add: comp_step_def comp_letter_def char_at_def group_end_def ix switch_or_def q_def zero excl_table_def plain_table_nth)
      (simp add: plain_entry_def no_option_def)
  have 3: "comp_step ('':'' @ ?b # ''--'' @ [?a]) q = Ok (?b # ''--'' @ [?a], q)" by (simp add: comp_step_def)
  have step: "comp_loop t r = comp_loop t' r'" if "t \<noteq> []" "comp_step t r = Ok (t', r')" for t r t' r'
    using that by (simp add: comp_loop.simps [of t r])
  have "comp_loop (?a # ''--'' @ ?b # '':'' @ ?b # ''--'' @ [?a]) p = comp_loop [] (p\<lparr>table := excl_table opts i j\<rparr>)"
    using step [OF _ 1] step [OF _ 2] step [OF _ 3] by simp
  then show ?thesis by (simp add: comp_loop.simps)
qed


lemma excl_table_nth:
  assumes "k < length (plain_table opts)" "i < length opts" "j < length opts" "i \<noteq> j"
  shows "excl_table opts i j ! k =
    (if k < length opts then (plain_entry k (opts ! k))\<lparr>incongruously := if k = i then push_bit j 1 else if k = j then push_bit i 1 else 0\<rparr>
     else no_option)"
proof -
  have "i < length (plain_table opts)" "j < length (plain_table opts)"
    using assms(2,3) by (simp_all add: plain_table_def opt_table_def)
  moreover have "plain_table opts ! k = (if k < length opts then plain_entry k (opts ! k) else no_option)"
    using assms(1) by (simp add: plain_table_def opt_table_def nth_append)
  ultimately show ?thesis
    using assms by (auto simp: excl_table_def nth_list_update plain_entry_def no_option_def)
qed

lemma take_option_exclusive:
  assumes "plain_opts opts" "i < length opts" "j < length opts" "i \<noteq> j"
    "take_option (excl_table opts i j) ev flags s = Ret f t" "\<not> (bit flags i \<and> bit flags j)"
  shows "\<not> (bit f i \<and> bit f j)"
proof -
  let ?k = "opt_index (plain_table opts) (fst ev)" and ?tab = "excl_table opts i j"
  have len: "length opts \<le> 32" using assms(1) by (simp add: plain_opts_def)
  have ix: "opt_index ?tab (fst ev) = ?k"
    using assms(2-4) by (simp add: excl_table_def plain_table_nth plain_entry_def)
  note e = excl_table_nth [OF plain_index_bound [OF assms(1), of "fst ev"] assms(2-4)]
  have on: "flags AND incongruously (?tab ! ?k) = 0" "f = switch_flags (?tab ! ?k) flags"
    using assms(5) ix by (auto simp: take_option_def Let_def bb_show_usage_def xfunc_die_def sbind_Ret_iff split: if_splits)
  have "f = flags OR (if ?k < length opts then push_bit ?k 1 else 0)"
    using on(2) e by (simp add: switch_flags_def plain_entry_def no_option_def Let_def)
  with on(1) e assms(2-4,6) len show ?thesis
    by (auto simp: bit_or_iff bit_exp_iff and_exp_eq_0_iff_not_bit plain_entry_def split: if_splits)
qed

lemma take_options_exclusive:
  assumes "plain_opts opts" "i < length opts" "j < length opts" "i \<noteq> j"
  shows "take_options (excl_table opts i j) evs flags s = Ret f t \<Longrightarrow> \<not> (bit flags i \<and> bit flags j) \<Longrightarrow> \<not> (bit f i \<and> bit f j)"
  by (induction evs arbitrary: flags s) (auto simp: sbind_Ret_iff dest: take_option_exclusive [OF assms])


subsubsection \<open>Arguments\<close>

text \<open>The arguments an option was given, in order.\<close>

definition args_of :: "char \<Rightarrow> found list \<Rightarrow> string list" where
  "args_of c evs = [a. (x, Some a) \<leftarrow> evs, x = c]"

lemma args_of_simps [simp]:
  "args_of c [] = []"
  "args_of c ((x, None) # evs) = args_of c evs"
  "args_of c ((x, Some a) # evs) = (if x = c then a # args_of c evs else args_of c evs)"
  by (simp_all add: args_of_def)

text \<open>An entry with a list of its own: no other entry counts or stores into the sink.\<close>

definition own_list :: "t_complementary list \<Rightarrow> nat \<Rightarrow> nat \<Rightarrow> bool" where
  "own_list tab k i \<longleftrightarrow> k < length tab \<and> optarg (tab ! k) = Some i \<and> param_type (tab ! k) = PARAM_LIST
     \<and> counter (tab ! k) \<noteq> Some i \<and> opt_index tab (opt_char (tab ! k)) = k
     \<and> (\<forall>j < length tab. j \<noteq> k \<longrightarrow> optarg (tab ! j) \<noteq> Some i \<and> counter (tab ! j) \<noteq> Some i)"

lemma xatoi_u_pure: "xatoi_u a s = Ret n t \<Longrightarrow> t = s"
proof -
  have die: "bb_error_msg_and_die fmt out u \<noteq> Ret x v" for fmt out x and u v :: "'a bb_scheme"
    by (auto simp: bb_error_msg_and_die_def sbind_Ret_iff xfunc_die_def split: if_splits)
  show "xatoi_u a s = Ret n t \<Longrightarrow> t = s"
    by (auto simp: xatoi_u_def xatou_range_def xstrtou_range_sfx_def Let_def die split: if_splits prod.splits option.splits)
qed

lemma count_option_sinks:
  "count_option e s = Ret () t \<Longrightarrow> length (sinks t) = length (sinks s) \<and> (counter e \<noteq> Some i \<longrightarrow> sinks t ! i = sinks s ! i)"
  by (auto simp: count_option_def set_sink_def split: option.splits if_splits sink.splits)

lemma store_optarg_sinks:
  "store_optarg e a s = Ret () t \<Longrightarrow> length (sinks t) = length (sinks s) \<and> (optarg e \<noteq> Some i \<longrightarrow> sinks t ! i = sinks s ! i)"
  by (auto simp: store_optarg_def set_sink_def sbind_Ret_iff dest!: xatoi_u_pure split: option.splits if_splits sink.splits param_type.splits)

lemma store_optarg_list:
  "store_optarg e a s = Ret () t \<Longrightarrow> optarg e = Some i \<Longrightarrow> param_type e = PARAM_LIST \<Longrightarrow> sinks s ! i = Items l \<Longrightarrow>
   sinks t ! i = Items (l @ (case a of None \<Rightarrow> [] | Some x \<Rightarrow> [x]))"
  by (auto simp: store_optarg_def set_sink_def split: option.splits if_splits)

lemma take_option_list:
  assumes "own_list tab k i" "take_option tab ev flags s = Ret f t" "sinks s ! i = Items l"
    "opt_index tab (fst ev) < length tab"
  shows "sinks t ! i = Items (l @ args_of (opt_char (tab ! k)) [ev])"
proof -
  let ?j = "opt_index tab (fst ev)"
  have c: "opt_char (tab ! ?j) = fst ev"
    using assms(2) by (auto simp: take_option_def Let_def bb_show_usage_def xfunc_die_def split: if_splits)
  obtain u where u: "count_option (tab ! ?j) s = Ret () u" "store_optarg (tab ! ?j) (snd ev) u = Ret () t"
    using assms(2) by (auto simp: take_option_def Let_def bb_show_usage_def xfunc_die_def sbind_Ret_iff split: if_splits)
  show ?thesis
  proof (cases "?j = k")
    case True
    then have "sinks u ! i = Items l" using assms(1,3) count_option_sinks [OF u(1), of i] by (simp add: own_list_def)
    with store_optarg_list [OF u(2)] True assms(1) c show ?thesis by (cases ev; cases "snd ev") (auto simp: own_list_def)
  next
    case False
    then have "fst ev \<noteq> opt_char (tab ! k)" using assms(1) by (auto simp: own_list_def)
    moreover have "sinks t ! i = sinks s ! i"
      using assms(1,4) False count_option_sinks [OF u(1), of i] store_optarg_sinks [OF u(2), of i] by (simp add: own_list_def)
    ultimately show ?thesis using assms(3) by (cases ev; cases "snd ev") auto
  qed
qed

lemma opt_index_terminated: "\<exists>e\<in>set tab. opt_char e = NUL \<Longrightarrow> opt_index tab c < length tab"
  unfolding opt_index_def by (rule takeWhile_stops) auto

lemma take_options_list:
  assumes "own_list tab k i" "\<exists>e\<in>set tab. opt_char e = NUL"
  shows "take_options tab evs flags s = Ret f t \<Longrightarrow> sinks s ! i = Items l \<Longrightarrow> sinks t ! i = Items (l @ args_of (opt_char (tab ! k)) evs)"
proof (induction evs arbitrary: flags s l)
  case (Cons ev evs)
  from Cons.prems(1) obtain g u where u: "take_option tab ev flags s = Ret g u" "take_options tab evs g u = Ret f t"
    by (auto simp: sbind_Ret_iff)
  from Cons.IH [OF u(2) take_option_list [OF assms(1) u(1) Cons.prems(2) opt_index_terminated [OF assms(2)]]]
  show ?case by (cases ev; cases "snd ev") (auto split: if_splits)
qed simp

subsection \<open>Properties\<close>

text \<open>
  C28. Where the options stand does not matter: two command lines with the same option letters,
  grouped, repeated and placed in any way between the same operands, give the same flags, and
  the operands are behind optind in their order. The flags are exactly the bits of the letters.
\<close>

theorem option_position_irrelevant:
  assumes "plain_opts opts" "list_all item_ok items" "list_all item_ok items'"
    "opt_complementary s = Some [CHR ''='', d]" "is_c_digit d" "\<not> posixly_correct s" "0 \<le> die_sleep s"
    "set (letters items) = set (letters items')" "operands items = operands items'"
    "set (letters items) \<subseteq> set opts" "int (length (operands items)) = c_digit d"
  shows "\<exists>f argv t argv' t'. getopt32 (argv0 # map item_word items) opts va s = Ret (f, argv) t
    \<and> getopt32 (argv0 # map item_word items') opts va s = Ret (f, argv') t'
    \<and> drop (optind t) argv = operands items \<and> drop (optind t') argv' = operands items
    \<and> (\<forall>i. bit f i \<longleftrightarrow> i < length opts \<and> opts ! i \<in> set (letters items))"
proof -
  note g = getopt32_plain [OF assms(1) _ assms(4-7), of _ argv0 va]
  obtain f where f: "getopt32 (argv0 # map item_word items) opts va s = Ret (f, argv0 # option_words items @ operands items)
      (s\<lparr>optind := Suc (length (option_words items)), option_mask32 := f\<rparr>)"
    "\<forall>i. bit f i \<longleftrightarrow> i < length opts \<and> opts ! i \<in> set (letters items)"
    using g [OF assms(2)] assms(10,11) by auto
  obtain f' where f': "getopt32 (argv0 # map item_word items') opts va s = Ret (f', argv0 # option_words items' @ operands items')
      (s\<lparr>optind := Suc (length (option_words items')), option_mask32 := f'\<rparr>)"
    "\<forall>i. bit f' i \<longleftrightarrow> i < length opts \<and> opts ! i \<in> set (letters items')"
    using g [OF assms(3)] assms(8-11) by auto
  have "f' = f" using f(2) f'(2) assms(8) by (simp add: bit_eq_iff)
  with f f' assms(9) show ?thesis by auto
qed

definition sample_opts :: opts_state where
  "sample_opts = \<lparr>applet_name = ''flash_eraseall'', logmode = LOGMODE_STDIO, msg_eol = [CHR 0x0A], errno = 0,
     strerror = (\<lambda>_. ''Error''), xfunc_error_retval = 1, die_sleep = 0, wr = (\<lambda>_. []), sent = (\<lambda>_. []), rd = (\<lambda>_. []), mem = [],
     opt_complementary = Some ''=1'', posixly_correct = False, optind = 0, sinks = [], option_mask32 = 0\<rparr>"

theorem option_position_irrelevant_witness:
  "\<exists>f argv t argv' t'. getopt32 [''p'', ''-jq'', ''/dev/mtd3''] ''jqre'' [] sample_opts = Ret (f, argv) t
    \<and> getopt32 [''p'', ''-q'', ''/dev/mtd3'', ''-jj''] ''jqre'' [] sample_opts = Ret (f, argv') t'
    \<and> drop (optind t) argv = [''/dev/mtd3''] \<and> drop (optind t') argv' = [''/dev/mtd3''] \<and> bit f 0 \<and> \<not> bit f 2"
  using option_position_irrelevant [of "''jqre''" "[Opts ''jq'', Operand ''/dev/mtd3'']" "[Opts ''q'', Operand ''/dev/mtd3'', Opts ''jj'']"
      sample_opts "CHR ''1''" "''p''" "[]"]
  by (fastforce simp: plain_opts_def sample_opts_def is_c_digit_def c_digit_def is_operand_def char_at_def)

text \<open>
  C29. Two options that are declared exclusive in both directions are never set together,
  whatever the command line is.
\<close>

theorem exclusive_never_together:
  fixes s :: "'z opts_state_scheme"
  assumes "plain_opts opts" "i < length opts" "j < length opts" "i \<noteq> j"
    "opt_complementary s = Some (opts ! i # ''--'' @ opts ! j # '':'' @ opts ! j # ''--'' @ [opts ! i])"
    "getopt32 argv opts va s = Ret (f, argv') t"
  shows "\<not> (bit f i \<and> bit f j)"
proof -
  note p = plain_opts_first [OF assms(1)]
  have es: "opt_entries (skip_gnu opts) 0 va = Ok (map (\<lambda>i. plain_entry i (opts ! i)) [0..<length opts], va)"
    using opt_entries_plain [of 0 opts va] p by (simp add: skip_gnu_def)
  note c = comp_loop_exclusive [OF assms(1-4)]
  have "\<exists>evs (u :: 'z opts_state_scheme) v. take_options (excl_table opts i j) evs 0 u = Ret f v"
    using assms(5,6) es c
    by (auto simp: getopt32_def sbind_Ret_iff plain_table_def bb_show_usage_def xfunc_die_def Let_def
        split: list.splits prod.splits if_splits)
  with take_options_exclusive [OF assms(1-4)] show ?thesis by fastforce
qed


text \<open>The flags alone, for a look at particular command lines.\<close>

fun flags_or_stop :: "(u32 \<times> string list, 's) run \<Rightarrow> stop + u32" where
  "flags_or_stop (Ret x s) = Inr (fst x)"
| "flags_or_stop (Halt e s) = Inl e"

lemma flags_or_stop_Inr: "flags_or_stop r = Inr f \<Longrightarrow> \<exists>argv t. r = Ret (f, argv) t"
  by (cases r) (auto simp: prod_eq_iff)

theorem exclusive_never_together_witness:
  "\<exists>f argv t. getopt32 [''id'', ''-u''] ''ug'' [] (sample_opts\<lparr>opt_complementary := Some ''u--g:g--u''\<rparr>) = Ret (f, argv) t
    \<and> \<not> (bit f 0 \<and> bit f 1)"
proof -
  let ?s = "sample_opts\<lparr>opt_complementary := Some ''u--g:g--u''\<rparr>"
  have "flags_or_stop (getopt32 [''id'', ''-u''] ''ug'' [] ?s) = Inr 1" by code_simp
  with exclusive_never_together [of "''ug''" 0 1 ?s "[''id'', ''-u'']" "[]"] show ?thesis
    by (fastforce simp: plain_opts_def dest: flags_or_stop_Inr)
qed

text \<open>
  A condition in one direction refuses the options in one order only: with
  \<^verbatim>\<open>a--b\<close> the line \<^verbatim>\<open>-b -a\<close> is refused and the line \<^verbatim>\<open>-a -b\<close> is taken.
\<close>

theorem one_sided_exclusion:
  "flags_or_stop (getopt32 [''p'', ''-a'', ''-b''] ''ab'' [] (sample_opts\<lparr>opt_complementary := Some ''a--b''\<rparr>)) = Inr 3
   \<and> flags_or_stop (getopt32 [''p'', ''-b'', ''-a''] ''ab'' [] (sample_opts\<lparr>opt_complementary := Some ''a--b''\<rparr>)) = Inl (Exit 1)"
  by code_simp

text \<open>An option that only shows the usage is set in the flags when it is not given.\<close>

theorem usage_option_always_set:
  "flags_or_stop (getopt32 [''p''] ''aV'' [] (sample_opts\<lparr>opt_complementary := Some ''V-''\<rparr>)) = Inr 2"
  by code_simp

text \<open>The counter of an option given three times, and the arguments of another collected in order.\<close>

theorem sinks_filled:
  "(case getopt32 [''p'', ''-vbx'', ''-vv'', ''f'', ''-b'', ''y''] ''vb:'' [Some 0, Some 1]
      (sample_opts\<lparr>opt_complementary := Some ''vv:b::'', sinks := [Items [], Number 0]\<rparr>) of
     Ret x s \<Rightarrow> Some (sinks s, drop (optind s) (snd x)) | Halt e s \<Rightarrow> None)
   = Some ([Items [''x'', ''y''], Number 3], [''f''])"
  by code_simp


text \<open>
  An option declared as a list collects its arguments in the order of the command line: the
  sink holds what it held before and then every argument, and the list that
  llist_add_to_end builds in memory for these arguments has the same contents.
\<close>

theorem list_option_collects:
  assumes "c \<notin> set '':?-+=''" "c \<noteq> NUL" "opt_complementary s = Some (c # ''::'')" "sinks s = [Items l]"
    "getopt32 (argv0 # args) (c # '':'') [Some 0] s = Ret (f, argv) t" "holds h p l"
    "as = args_of c (fst (getopt_scan (opt_ordering (posixly_correct s) (c # '':'')) (c # '':'') args))"
  shows "sinks t ! 0 = Items (l @ as) \<and> (\<exists>q h'. bbl.add_all p as h = Some (Ok (q, h')) \<and> holds h' q (l @ as))"
proof -
  let ?opts = "c # '':''"
  define e where "e = no_option\<lparr>opt_char := c, switch_on := 1, optarg := Some 0\<rparr>"
  define tab where "tab = e\<lparr>param_type := PARAM_LIST\<rparr> # replicate 32 no_option"
  have es: "opt_entries (skip_gnu ?opts) 0 [Some 0] = Ok ([e], [])"
    using assms(1) by (simp add: skip_gnu_def char_at_def opt_entries.simps e_def)
  have t33: "opt_table [e] = e # replicate 32 no_option" by (simp add: opt_table_def)
  have ix: "opt_index (opt_table [e]) c = 0" by (simp add: opt_index_def t33) (simp add: e_def)
  have "comp_step (c # ''::'') p = Ok (''::'', p\<lparr>table := tab\<rparr>)" if "table p = opt_table [e]" for p
    using assms(1,2) that ix by (simp add: comp_step_def comp_letter_def char_at_def t33 tab_def Let_def)
  then have comp: "comp_loop (c # ''::'') p = Ok (p\<lparr>table := tab\<rparr>)" if "table p = opt_table [e]" for p
    using that by (simp add: comp_loop.simps [of "c # ''::''"]) (simp add: comp_loop.simps comp_step_def)
  obtain evs taken left where sc: "getopt_scan (opt_ordering (posixly_correct s) ?opts) ?opts args = (evs, taken, left)"
    by (metis prod_cases3)
  have skip: "skip_gnu ?opts = ?opts" using assms(1) by (simp add: skip_gnu_def char_at_def)
  obtain g u where u: "take_options tab evs 0 (s\<lparr>optind := Suc (length taken)\<rparr>) = Ret g u" "sinks u = sinks t"
    using assms(3,5) es comp sc
    by (auto simp: getopt32_def sbind_Ret_iff bb_show_usage_def xfunc_die_def Let_def dash_argv_def skip split: if_splits)
  have own: "own_list tab 0 0"
    using assms(2) by (auto simp: own_list_def tab_def e_def no_option_def opt_index_def nth_Cons' less_Suc_eq_0_disj)
  have "\<exists>x\<in>set tab. opt_char x = NUL" by (simp add: tab_def no_option_def)
  from take_options_list [OF own this u(1), of l] assms(4) u(2) have "sinks t ! 0 = Items (l @ args_of (opt_char (tab ! 0)) evs)"
    by simp
  then have "sinks t ! 0 = Items (l @ as)" using assms(7) sc by (simp add: tab_def e_def)
  with bbl.add_all_contents [OF assms(6), of as] show ?thesis by blast
qed

theorem list_option_collects_witness:
  "\<exists>f argv t q h'. getopt32 [''grep'', ''-e'', ''user'', ''-eroot'', ''passwd''] ''e:'' [Some 0]
      (sample_opts\<lparr>opt_complementary := Some ''e::'', sinks := [Items []]\<rparr>) = Ret (f, argv) t
    \<and> sinks t ! 0 = Items [''user'', ''root'']
    \<and> bbl.add_all None [''user'', ''root''] \<lparr>cells = (\<lambda>_. None), brk = 1\<rparr> = Some (Ok (q, h')) \<and> holds h' q [''user'', ''root'']"
proof -
  let ?s = "sample_opts\<lparr>opt_complementary := Some ''e::'', sinks := [Items []]\<rparr>"
  let ?args = "[''-e'', ''user'', ''-eroot'', ''passwd'']"
  have "flags_or_stop (getopt32 (''grep'' # ?args) ''e:'' [Some 0] ?s) = Inr 1" by code_simp
  then obtain argv t where g: "getopt32 (''grep'' # ?args) ''e:'' [Some 0] ?s = Ret (1, argv) t" by (auto dest: flags_or_stop_Inr)
  have a: "args_of (CHR ''e'') (fst (getopt_scan (opt_ordering (posixly_correct ?s) ''e:'') ''e:'' ?args)) = [''user'', ''root'']"
    by code_simp
  have "holds \<lparr>cells = (\<lambda>_. None), brk = 1\<rparr> None []" by (simp add: holds_def llist_def vals_def)
  from list_option_collects [of "CHR ''e''" ?s "[]" "''grep''" ?args 1 argv t, OF _ _ _ _ g this a [symmetric]] g show ?thesis
    by auto
qed

end
