(* ===== verification/Flash_Eraseall.thy ===== *)
theory Flash_Eraseall
  imports Nvram_Flash Getopt32
begin

unbundle bit_operations_syntax

section \<open>Erasing a flash partition\<close>

text \<open>
  \<^verbatim>\<open>flash_eraseall.c\<close>, the program for which the repository carries a copy of busybox, and
  \<^verbatim>\<open>crc32_filltable\<close> of the library beside it, with the \<^verbatim>\<open>main\<close> of a busybox of one program
  (\<^verbatim>\<open>appletlib.c\<close>).
\<close>

subsection \<open>The device\<close>

definition OPTION_J :: u32 where "OPTION_J = push_bit 0 1"
definition OPTION_Q :: u32 where "OPTION_Q = push_bit 1 1"
definition OPTION_R :: u32 where "OPTION_R = push_bit 2 1"
definition OPTION_E :: u32 where "OPTION_E = push_bit 3 1"
definition IS_NAND :: u32 where "IS_NAND = push_bit 4 1"
definition BBTEST :: u32 where "BBTEST = push_bit 5 1"

lemmas option_defs = OPTION_J_def OPTION_Q_def OPTION_R_def OPTION_E_def IS_NAND_def BBTEST_def

definition flag :: "u32 \<Rightarrow> u32 \<Rightarrow> bool" where
  "flag flags b \<longleftrightarrow> flags AND b \<noteq> 0"

datatype bad_block = Good | Bad | Not_supported | Bb_error int

definition EOPNOTSUPP :: int where "EOPNOTSUPP = 122"

text \<open>
  What a block holds at its start after a clean marker was written: in the spare area, with
  the length the driver was given, or in the data.
\<close>

datatype marker = Spare "u32 list" u32 | In_data "u32 list"

text \<open>
  The device as \<^verbatim>\<open>stat\<close>, \<^verbatim>\<open>open\<close> and \<^verbatim>\<open>ioctl\<close> show it. The results of \<^verbatim>\<open>stat\<close>, \<^verbatim>\<open>MEMGETINFO\<close> and
  \<^verbatim>\<open>ECCGETLAYOUT\<close> are not checked: where the call fails (\<open>is_chr\<close> or \<open>oobavail\<close> is \<open>None\<close>, \<open>is_mtd\<close> is
  false) the program goes on with memory it never wrote. \<open>erase_calls\<close> are the \<^verbatim>\<open>MEMERASE\<close> calls in
  order with the start and the length that each hands to the driver, and \<open>markers\<close> the marker calls; the
  program looks at the result of neither, so what is recorded is what the driver was asked for. \<open>e_out\<close> is
  standard output.
\<close>

record mtd = opts_state +
  is_chr :: "bool option"
  open_ret :: "int + int"
  is_mtd :: bool
  is_nand :: bool
  mtd_size :: u32
  erasesize :: u32
  oobavail :: "u32 option"
  badblock :: "u32 \<Rightarrow> bad_block"
  spare_words :: "u32 \<Rightarrow> u32 list"
  erase_calls :: "(u32 \<times> u32) list"
  markers :: "(u32 \<times> marker) list"
  e_out :: string

subsection \<open>Output\<close>

definition hex_digit_char :: "nat \<Rightarrow> char" where
  "hex_digit_char d = (if d < 10 then char_of (48 + d) else char_of (87 + d))"

fun show_hex :: "nat \<Rightarrow> string" where
  "show_hex n = (if n < 16 then [hex_digit_char n] else show_hex (n div 16) @ [hex_digit_char (n mod 16)])"

declare show_hex.simps [simp del]

definition put :: "string \<Rightarrow> 'z mtd_scheme \<Rightarrow> 'z mtd_scheme" where
  "put t s = s\<lparr>e_out := e_out s @ t\<rparr>"

definition padded :: "nat \<Rightarrow> char \<Rightarrow> string \<Rightarrow> string" where
  "padded w c t = replicate (w - length t) c @ t"

definition show_progress :: "u32 \<Rightarrow> 'z mtd_scheme \<Rightarrow> (unit, 'z mtd_scheme) run" where
  "show_progress start s =
     (if mtd_size s = 0 then Halt (Crash Div_by_zero) s
      else Ret () (put ([CHR 0x0D] @ ''Erasing '' @ show_int (sint (erasesize s div 1024)) @ '' Kibyte @ ''
             @ show_hex (unat start) @ '' -- '' @ padded 2 (CHR '' '') (show_nat (unat start * 100 div unat (mtd_size s)))
             @ '' % complete.'') s))"

subsection \<open>One block\<close>

text \<open>
  The test for a bad block: whether the block is to be skipped, and the options afterwards.
  Where the driver has no table of bad blocks, \<^verbatim>\<open>flags = ~BBTEST\<close> sets every other option.
\<close>

definition bad_block_test :: "u32 \<Rightarrow> u32 \<Rightarrow> 'z mtd_scheme \<Rightarrow> (bool \<times> u32, 'z mtd_scheme) run" where
  "bad_block_test flags start s =
     (if flag flags BBTEST then
        (case badblock s start of
           Good \<Rightarrow> Ret (False, flags) s
         | Bad \<Rightarrow>
             Ret (True, flags)
               (if flag flags OPTION_Q then s
                else put ([CHR 0x0A] @ ''Skipping bad block at 0x'' @ padded 8 (CHR ''0'') (show_hex (unat start)) @ [CHR 0x0A]) s)
         | Not_supported \<Rightarrow>
             let flags = NOT BBTEST; s = s\<lparr>errno := EOPNOTSUPP\<rparr>
             in if flag flags IS_NAND
                then bb_error_msg_and_die ''bad block check not available'' ''bad block check not available'' s
                else Ret (False, flags) s
         | Bb_error e \<Rightarrow> bb_perror_msg_and_die ''MEMGETBADBLOCK error'' ''MEMGETBADBLOCK error'' (s\<lparr>errno := e\<rparr>))
      else Ret (False, flags) s)"

text \<open>The clean marker in the target's byte order; in the data its length is the one of the node.\<close>

definition cleanmarker :: "u32 \<Rightarrow> u32 list" where
  "cleanmarker totlen = [0x19852003, totlen, 0xFFFFFFFF]"

text \<open>
  The buffer for the spare area: the marker and then bytes 0xFF, 432 bytes in all. The driver
  reads as many bytes from it as it said are available.
\<close>

definition spare_buf :: "u32 list" where
  "spare_buf = cleanmarker 8 @ replicate 105 0xFFFFFFFF"

definition write_marker :: "u32 \<Rightarrow> u32 \<Rightarrow> u32 \<Rightarrow> 'z mtd_scheme \<Rightarrow> (unit, 'z mtd_scheme) run" where
  "write_marker flags clmlen start s =
     (if flag flags IS_NAND \<and> 432 < unat clmlen then Halt (Crash Oob_read) s
      else
        let m = (if flag flags IS_NAND then Spare spare_buf clmlen else In_data (cleanmarker 12));
            s = s\<lparr>markers := markers s @ [(start, m)]\<rparr>
        in Ret () (if flag flags OPTION_Q then s else put ('' Cleanmarker written at '' @ show_hex (unat start) @ ''.'') s))"

definition erase_block :: "u32 \<Rightarrow> u32 \<Rightarrow> u32 \<Rightarrow> 'z mtd_scheme \<Rightarrow> (u32, 'z mtd_scheme) run" where
  "erase_block flags clmlen start s =
     sbind (bad_block_test flags start s) (\<lambda>(skip, flags) s.
       if skip then Ret flags s
       else
         sbind (if flag flags OPTION_Q then Ret () s else show_progress start s) (\<lambda>_ s.
           let s = (if flag flags OPTION_E then s else s\<lparr>erase_calls := erase_calls s @ [(start, erasesize s)]\<rparr>)
           in if flag flags OPTION_J then sbind (write_marker flags clmlen start s) (\<lambda>_ s. Ret flags s) else Ret flags s))"

subsection \<open>The program\<close>

text \<open>
  The loop over the blocks; the block number is 32 bits wide and wraps. With no fuel left
  the result is \<open>None\<close>.
\<close>

fun erase_loop :: "nat \<Rightarrow> u32 \<Rightarrow> u32 \<Rightarrow> u32 \<Rightarrow> 'z mtd_scheme \<Rightarrow> (u32 \<times> u32, 'z mtd_scheme) run option" where
  "erase_loop 0 flags clmlen start s = None"
| "erase_loop (Suc k) flags clmlen start s =
     (if start < mtd_size s then
        (case erase_block flags clmlen start s of
           Halt e s \<Rightarrow> Some (Halt e s)
         | Ret flags s \<Rightarrow> erase_loop k flags clmlen (start + erasesize s) s)
      else Some (Ret (flags, start) s))"

text \<open>The loop of option \<^verbatim>\<open>-r\<close>: the first four words of every spare area.\<close>

definition spare_line :: "u32 \<Rightarrow> u32 list \<Rightarrow> string" where
  "spare_line i w =
     ''R '' @ padded 8 (CHR ''0'') (show_hex (unat i)) @ '':''
     @ concat (map (\<lambda>x. '' '' @ padded 8 (CHR ''0'') (show_hex (unat x))) (take 4 w)) @ [CHR 0x0A]"

fun read_loop :: "nat \<Rightarrow> u32 \<Rightarrow> u32 \<Rightarrow> 'z mtd_scheme \<Rightarrow> 'z mtd_scheme option" where
  "read_loop 0 flags i s = None"
| "read_loop (Suc k) flags i s =
     (if i < mtd_size s then
        read_loop k flags (i + erasesize s)
          (if flag flags IS_NAND then put (spare_line i (spare_words s i)) s else s)
      else Some s)"

text \<open>How much of the spare area a marker takes up.\<close>

definition marker_length :: "u32 \<Rightarrow> 'z mtd_scheme \<Rightarrow> u32 res" where
  "marker_length flags s =
     (if flag flags OPTION_J \<and> flag flags IS_NAND
      then (case oobavail s of None \<Rightarrow> Fault Uninit_read | Some n \<Rightarrow> Ok n)
      else Ok 8)"

text \<open>From the options on; the fuel bounds both loops.\<close>

definition erase_device :: "nat \<Rightarrow> u32 \<Rightarrow> string \<Rightarrow> 'z mtd_scheme \<Rightarrow> (int, 'z mtd_scheme) run option" where
  "erase_device fuel flags mtd_name s =
     (case is_chr s of
        None \<Rightarrow> Some (Halt (Crash Uninit_read) s)
      | Some False \<Rightarrow> Some (bb_error_msg_and_die ''%s: not a char device'' (mtd_name @ '': not a char device'') s)
      | Some True \<Rightarrow>
          (case xopen mtd_name (open_ret s) s of
             Halt e s \<Rightarrow> Some (Halt e s)
           | Ret fd s \<Rightarrow>
               if \<not> is_mtd s then Some (Halt (Crash Uninit_read) s)
               else
                 let flags = (if is_nand s then flags OR IS_NAND else flags)
                 in (case marker_length flags s of
                       Fault e \<Rightarrow> Some (Halt (Crash e) s)
                     | Ok clmlen \<Rightarrow>
                         (case erase_loop fuel flags clmlen 0 (put ([CHR 0x0A] @ ''flash_eraseall: '' @ mtd_name) s) of
                            None \<Rightarrow> None
                          | Some (Halt e s) \<Rightarrow> Some (Halt e s)
                          | Some (Ret (flags, start) s) \<Rightarrow>
                              (case (if flag flags OPTION_Q then Ret () s
                                     else sbind (show_progress start s) (\<lambda>_ s. Ret () (put [CHR 0x0A] s))) of
                                 Halt e s \<Rightarrow> Some (Halt e s)
                               | Ret u s \<Rightarrow>
                                   (case (if flag flags OPTION_R then read_loop fuel flags 0 s else Some s) of
                                      None \<Rightarrow> None
                                    | Some s \<Rightarrow> Some (Ret 0 s)))))))"

definition flash_eraseall_main :: "nat \<Rightarrow> string list \<Rightarrow> 'z mtd_scheme \<Rightarrow> (int, 'z mtd_scheme) run option" where
  "flash_eraseall_main fuel argv s =
     (case getopt32 argv ''jqre'' [] (s\<lparr>opt_complementary := Some ''=1''\<rparr>) of
        Halt e s \<Rightarrow> Some (Halt e s)
      | Ret (opts, argv) s \<Rightarrow>
          (case drop (optind s) argv of
             [] \<Rightarrow> Some (Halt (Crash Null_deref) s)
           | mtd_name # _ \<Rightarrow> erase_device fuel (BBTEST OR opts) mtd_name s))"

text \<open>\<^verbatim>\<open>main\<close> of a busybox with a single applet.\<close>

definition lbb_prepare :: "string \<Rightarrow> 'z bb_scheme \<Rightarrow> 'z bb_scheme" where
  "lbb_prepare applet s = s\<lparr>applet_name := applet\<rparr>"

definition busybox_single_main :: "nat \<Rightarrow> string list \<Rightarrow> 'z mtd_scheme \<Rightarrow> (int, 'z mtd_scheme) run option" where
  "busybox_single_main fuel argv s =
     flash_eraseall_main fuel argv (lbb_prepare ''flash_eraseall'' s)"

subsection \<open>The checksum table\<close>

fun table_bits :: "bool \<Rightarrow> nat \<Rightarrow> u32 \<Rightarrow> u32" where
  "table_bits endian 0 c = c"
| "table_bits endian (Suc j) c =
     table_bits endian j
       (if endian then (if c AND 0x80000000 \<noteq> 0 then push_bit 1 c XOR 0x04C11DB7 else push_bit 1 c)
        else (if c AND 1 \<noteq> 0 then drop_bit 1 c XOR 0xEDB88320 else drop_bit 1 c))"

definition crc32_filltable :: "bool \<Rightarrow> u32 list" where
  "crc32_filltable endian =
     map (\<lambda>i. table_bits endian 8 (if endian then push_bit 24 (word_of_nat i) else word_of_nat i)) [0..<256]"

subsection \<open>Lemmas\<close>

definition blocks_from :: "nat \<Rightarrow> nat \<Rightarrow> 'z mtd_scheme \<Rightarrow> u32 list" where
  "blocks_from j n s = map (\<lambda>k. word_of_nat (k * unat (erasesize s))) [j..<n]"

lemma flag_or [simp]: "flag (f OR g) b \<longleftrightarrow> flag f b \<or> flag g b"
  by (auto simp: flag_def bit.conj_disj_distrib2 bit_eq_iff bit_simps)

lemma flag_consts [simp]:
  "flag BBTEST BBTEST" "flag (NOT BBTEST) IS_NAND" "\<not> flag IS_NAND OPTION_E" "\<not> flag BBTEST OPTION_E"
  "\<not> flag IS_NAND OPTION_J" "\<not> flag BBTEST OPTION_J" "flag IS_NAND IS_NAND" "\<not> flag BBTEST IS_NAND"
  by (simp_all add: flag_def option_defs)

lemma put_fields [simp]:
  "mtd_size (put t s) = mtd_size s" "erasesize (put t s) = erasesize s" "badblock (put t s) = badblock s"
  "erase_calls (put t s) = erase_calls s" "markers (put t s) = markers s" "die_sleep (put t s) = die_sleep s"
  "xfunc_error_retval (put t s) = xfunc_error_retval s"
  by (simp_all add: put_def)

text \<open>What the loop may change: the calls made and the output.\<close>

definition same_dev :: "'z mtd_scheme \<Rightarrow> 'z mtd_scheme \<Rightarrow> bool" where
  "same_dev s t \<longleftrightarrow> mtd_size t = mtd_size s \<and> erasesize t = erasesize s \<and> badblock t = badblock s"

definition block_done :: "u32 \<Rightarrow> u32 \<Rightarrow> 'z mtd_scheme \<Rightarrow> 'z mtd_scheme \<Rightarrow> bool" where
  "block_done flags b s t \<longleftrightarrow> same_dev s t
     \<and> erase_calls t = erase_calls s @ (if badblock s b = Good \<and> \<not> flag flags OPTION_E then [(b, erasesize s)] else [])
     \<and> map fst (markers t) = map fst (markers s) @ (if badblock s b = Good \<and> flag flags OPTION_J then [b] else [])"

lemma erase_block_done:
  assumes "flag flags BBTEST" "mtd_size s \<noteq> 0" "badblock s b = Good \<or> badblock s b = Bad"
    "flag flags OPTION_J \<and> flag flags IS_NAND \<longrightarrow> unat clmlen \<le> 432"
  shows "\<exists>t. erase_block flags clmlen b s = Ret flags t \<and> block_done flags b s t"
  using assms
  by (auto simp: erase_block_def bad_block_test_def show_progress_def write_marker_def Let_def block_done_def same_dev_def)

lemma block_number:
  assumes "unat (mtd_size s) = n * unat (erasesize s)" "0 < unat (erasesize s)" "j \<le> n"
  shows "unat (word_of_nat (j * unat (erasesize s)) :: u32) = j * unat (erasesize s)"
proof -
  have "j * unat (erasesize s) \<le> unat (mtd_size s)" using assms by simp
  also have "\<dots> < 2 ^ 32" using unsigned_less [of "mtd_size s"] by simp
  finally show ?thesis by (simp del: of_nat_mult add: unsigned_of_nat take_bit_nat_eq_self)
qed

lemma block_less:
  assumes "unat (mtd_size s) = n * unat (erasesize s)" "0 < unat (erasesize s)" "j \<le> n"
  shows "(word_of_nat (j * unat (erasesize s)) :: u32) < mtd_size s \<longleftrightarrow> j < n"
  using block_number [OF assms] assms(1,2) by (simp add: word_less_nat_alt)

lemma block_next: "(word_of_nat (j * unat (erasesize s)) :: u32) + erasesize s = word_of_nat (Suc j * unat (erasesize s))"
  by (simp add: add.commute)

definition good_blocks :: "nat \<Rightarrow> nat \<Rightarrow> 'z mtd_scheme \<Rightarrow> u32 list" where
  "good_blocks j n s = filter (\<lambda>b. badblock s b = Good) (blocks_from j n s)"

abbreviation whole :: "'z mtd_scheme \<Rightarrow> u32 list \<Rightarrow> (u32 \<times> u32) list" where
  "whole s bs \<equiv> map (\<lambda>b. (b, erasesize s)) bs"

lemma good_blocks_Cons:
  "j < n \<Longrightarrow> good_blocks j n s =
     (let b = word_of_nat (j * unat (erasesize s)) in if badblock s b = Good then b # good_blocks (Suc j) n s else good_blocks (Suc j) n s)"
  by (simp add: good_blocks_def blocks_from_def upt_conv_Cons Let_def)

lemma good_blocks_same: "same_dev s t \<Longrightarrow> good_blocks j n t = good_blocks j n s"
  by (simp add: good_blocks_def blocks_from_def same_dev_def)

text \<open>From block \<open>j\<close> on, \<open>n - j + 1\<close> turns are enough.\<close>

lemma erase_loop_done:
  assumes "unat (mtd_size s) = n * unat (erasesize s)" "0 < unat (erasesize s)" "0 < n" "j \<le> n" "n - j < k"
    "flag flags BBTEST" "\<forall>b\<in>set (blocks_from j n s). badblock s b = Good \<or> badblock s b = Bad"
    "flag flags OPTION_J \<and> flag flags IS_NAND \<longrightarrow> unat clmlen \<le> 432"
  shows "\<exists>t. erase_loop k flags clmlen (word_of_nat (j * unat (erasesize s))) s = Some (Ret (flags, mtd_size s) t) \<and> same_dev s t
    \<and> erase_calls t = erase_calls s @ (if flag flags OPTION_E then [] else whole s (good_blocks j n s))
    \<and> map fst (markers t) = map fst (markers s) @ (if flag flags OPTION_J then good_blocks j n s else [])"
  using assms
proof (induction k arbitrary: j s)
  case (Suc k)
  let ?b = "word_of_nat (j * unat (erasesize s)) :: u32"
  note less = block_less [OF Suc.prems(1,2,4)]
  show ?case
  proof (cases "j < n")
    case False
    with Suc.prems have "j = n" by simp
    with Suc.prems(1) have "?b = mtd_size s" by (metis of_nat_unat ucast_id)
    with less False \<open>j = n\<close> show ?thesis by (simp add: same_dev_def good_blocks_def blocks_from_def)
  next
    case True
    have size: "mtd_size s \<noteq> 0" using Suc.prems(1-3) by auto
    have blk: "badblock s ?b = Good \<or> badblock s ?b = Bad"
      using Suc.prems(7) True by (auto simp: blocks_from_def)
    from erase_block_done [OF Suc.prems(6) size blk Suc.prems(8)] obtain u where
      u: "erase_block flags clmlen ?b s = Ret flags u" "block_done flags ?b s u" by blast
    then have dev: "same_dev s u" by (simp add: block_done_def)
    then have eqs: "erasesize u = erasesize s" "mtd_size u = mtd_size s" "badblock u = badblock s" by (simp_all add: same_dev_def)
    have "\<forall>b\<in>set (blocks_from (Suc j) n u). badblock u b = Good \<or> badblock u b = Bad"
      using Suc.prems(7) by (auto simp: blocks_from_def eqs)
    moreover have "n - Suc j < k" using Suc.prems(5) True by linarith
    ultimately obtain t where
      t: "erase_loop k flags clmlen (word_of_nat (Suc j * unat (erasesize u))) u = Some (Ret (flags, mtd_size u) t)" "same_dev u t"
      "erase_calls t = erase_calls u @ (if flag flags OPTION_E then [] else whole u (good_blocks (Suc j) n u))"
      "map fst (markers t) = map fst (markers u) @ (if flag flags OPTION_J then good_blocks (Suc j) n u else [])"
      using Suc.IH [of u "Suc j"] Suc.prems True unfolding eqs by auto
    have "erase_loop (Suc k) flags clmlen ?b s = Some (Ret (flags, mtd_size s) t)"
      using True less u(1) t(1) block_next [of j s] by (simp add: eqs del: of_nat_mult mult_Suc)
    moreover have "same_dev s t" using dev t(2) by (simp add: same_dev_def)
    ultimately show ?thesis
      using t(3,4) u(2) good_blocks_same [OF dev, of "Suc j" n] good_blocks_Cons [OF True, of s]
      by (auto simp: block_done_def Let_def eqs)
  qed
qed simp

lemma read_loop_done:
  assumes "unat (mtd_size s) = n * unat (erasesize s)" "0 < unat (erasesize s)" "j \<le> n" "n - j < k"
  shows "\<exists>t. read_loop k flags (word_of_nat (j * unat (erasesize s))) s = Some t \<and> erase_calls t = erase_calls s \<and> markers t = markers s"
  using assms
proof (induction k arbitrary: j s)
  case (Suc k)
  note less = block_less [OF Suc.prems(1,2,3)]
  define b where "b = (word_of_nat (j * unat (erasesize s)) :: u32)"
  define s' where "s' = (if flag flags IS_NAND then put (spare_line b (spare_words s b)) s else s)"
  have s': "erasesize s' = erasesize s" "mtd_size s' = mtd_size s" "erase_calls s' = erase_calls s" "markers s' = markers s"
    by (simp_all add: s'_def)
  show ?case
  proof (cases "j < n")
    case True
    then have "n - Suc j < k" using Suc.prems(4) by linarith
    with True Suc.prems obtain t where
      "read_loop k flags (word_of_nat (Suc j * unat (erasesize s))) s' = Some t" "erase_calls t = erase_calls s" "markers t = markers s"
      using Suc.IH [of s' "Suc j"] unfolding s' by auto
    with True less block_next [of j s] show ?thesis unfolding s'_def b_def by (simp del: of_nat_mult mult_Suc)
  qed (use less in simp)
qed simp

lemma table_bits_little: "table_bits False j c = (crc_step ^^ j) c"
  by (induction j arbitrary: c) (simp_all add: crc_step_def crc_poly_def funpow_swap1)

text \<open>The whole run on a device whose blocks are good or bad.\<close>

lemma erase_device_done:
  assumes "is_chr s = Some True" "open_ret s = Inr fd" "is_mtd s" "0 < unat (erasesize s)"
    "unat (mtd_size s) = n * unat (erasesize s)" "0 < n" "n < fuel"
    "\<forall>b\<in>set (blocks_from 0 n s). badblock s b = Good \<or> badblock s b = Bad"
    "flag opts OPTION_J \<and> is_nand s \<longrightarrow> (\<exists>l. oobavail s = Some l \<and> unat l \<le> 432)" "\<not> flag opts IS_NAND"
  shows "\<exists>t. erase_device fuel (BBTEST OR opts) name s = Some (Ret 0 t)
    \<and> erase_calls t = erase_calls s @ (if flag opts OPTION_E then [] else whole s (good_blocks 0 n s))
    \<and> map fst (markers t) = map fst (markers s) @ (if flag opts OPTION_J then good_blocks 0 n s else [])"
proof -
  define f where "f = (if is_nand s then (BBTEST OR opts) OR IS_NAND else BBTEST OR opts)"
  let ?s = "put ([CHR 0x0A] @ ''flash_eraseall: '' @ name) s"
  have f: "flag f BBTEST" "flag f OPTION_E = flag opts OPTION_E" "flag f OPTION_J = flag opts OPTION_J" "flag f IS_NAND = is_nand s"
    using assms(10) by (auto simp: f_def)
  obtain l where l: "marker_length f s = Ok l" "flag f OPTION_J \<and> flag f IS_NAND \<longrightarrow> unat l \<le> 432"
    using assms(9) f by (auto simp: marker_length_def)
  have good: "good_blocks 0 n ?s = good_blocks 0 n s" by (simp add: good_blocks_def blocks_from_def)
  have "\<forall>b\<in>set (blocks_from 0 n ?s). badblock ?s b = Good \<or> badblock ?s b = Bad"
    using assms(8) by (simp add: blocks_from_def)
  with erase_loop_done [of ?s n 0 fuel f l] assms(4-7) f l(2) good obtain t where
    t: "erase_loop fuel f l 0 ?s = Some (Ret (f, mtd_size s) t)" "same_dev ?s t"
      "erase_calls t = erase_calls s @ (if flag opts OPTION_E then [] else whole s (good_blocks 0 n s))"
      "map fst (markers t) = map fst (markers s) @ (if flag opts OPTION_J then good_blocks 0 n s else [])"
    by auto
  have size: "mtd_size t \<noteq> 0" "mtd_size t = mtd_size s" "erasesize t = erasesize s"
    using t(2) assms(4-6) by (auto simp: same_dev_def)
  obtain u where u: "(if flag f OPTION_Q then Ret () t
      else sbind (show_progress (mtd_size s) t) (\<lambda>_ s. Ret () (put [CHR 0x0A] s))) = Ret () u"
    "erase_calls u = erase_calls t" "markers u = markers t" "mtd_size u = mtd_size t" "erasesize u = erasesize t"
    using size by (cases "flag f OPTION_Q") (auto simp: show_progress_def)
  obtain v where v: "(if flag f OPTION_R then read_loop fuel f 0 u else Some u) = Some v" "erase_calls v = erase_calls u" "markers v = markers u"
    using read_loop_done [of u n 0 fuel f] assms(4,5,7) u(4,5) size by (cases "flag f OPTION_R") auto
  have "erase_device fuel (BBTEST OR opts) name s = Some (Ret 0 v)"
    using assms(1-3) l(1) t(1) u(1) v(1) by (simp add: erase_device_def xopen_def xopen3_def Let_def flip: f_def)
  with t u v show ?thesis by simp
qed

lemma flag_bit: "flag f (push_bit k 1) \<longleftrightarrow> bit f k"
  by (simp add: flag_def and_exp_eq_0_iff_not_bit)

lemma option_bits:
  "flag f OPTION_J \<longleftrightarrow> bit f 0" "flag f OPTION_Q \<longleftrightarrow> bit f 1" "flag f OPTION_R \<longleftrightarrow> bit f 2" "flag f OPTION_E \<longleftrightarrow> bit f 3"
  "flag f IS_NAND \<longleftrightarrow> bit f 4"
  unfolding option_defs by (rule flag_bit)+

lemma jqre_plain [simp]: "plain_opts ''jqre''"
  by (simp add: plain_opts_def)

lemma one_digit: "is_c_digit (CHR ''1'')" "c_digit (CHR ''1'') = 1"
  by (simp_all add: is_c_digit_def c_digit_def)

text \<open>What the command line comes to: the options and the device, or the end of the program.\<close>

abbreviation after_options :: "item list \<Rightarrow> u32 \<Rightarrow> 'z mtd_scheme \<Rightarrow> 'z mtd_scheme" where
  "after_options items f s \<equiv>
     s\<lparr>applet_name := ''flash_eraseall'', opt_complementary := Some ''=1'', optind := Suc (length (option_words items)), option_mask32 := f\<rparr>"

lemma eraseall_options:
  assumes "list_all item_ok items" "\<not> posixly_correct s" "0 \<le> die_sleep s" "set (letters items) \<subseteq> set ''jqre''" "operands items = [name]"
  shows "\<exists>f. busybox_single_main fuel (argv0 # map item_word items) s = erase_device fuel (BBTEST OR f) name (after_options items f s)
    \<and> (flag f OPTION_J \<longleftrightarrow> CHR ''j'' \<in> set (letters items)) \<and> (flag f OPTION_E \<longleftrightarrow> CHR ''e'' \<in> set (letters items)) \<and> \<not> flag f IS_NAND"
proof -
  let ?argv = "argv0 # map item_word items"
  define s0 where "s0 = s\<lparr>applet_name := ''flash_eraseall'', opt_complementary := Some ''=1''\<rparr>"
  have s0: "opt_complementary s0 = Some ''=1''" "\<not> posixly_correct s0" "0 \<le> die_sleep s0" using assms by (simp_all add: s0_def)
  obtain f where f: "getopt32 ?argv ''jqre'' [] s0 = Ret (f, argv0 # option_words items @ [name])
      (s0\<lparr>optind := Suc (length (option_words items)), option_mask32 := f\<rparr>)"
    "\<forall>i. bit f i \<longleftrightarrow> i < length ''jqre'' \<and> ''jqre'' ! i \<in> set (letters items)"
    using getopt32_plain [OF jqre_plain assms(1) s0(1) one_digit(1) s0(2,3), of argv0 "[]"] assms(4,5) one_digit(2) by auto
  have "busybox_single_main fuel ?argv s = erase_device fuel (BBTEST OR f) name (after_options items f s)"
    using f(1) by (simp add: busybox_single_main_def flash_eraseall_main_def lbb_prepare_def s0_def)
  moreover have "(flag f OPTION_J \<longleftrightarrow> CHR ''j'' \<in> set (letters items)) \<and> (flag f OPTION_E \<longleftrightarrow> CHR ''e'' \<in> set (letters items)) \<and> \<not> flag f IS_NAND"
    by (simp add: option_bits f(2))
  ultimately show ?thesis by blast
qed

lemma eraseall_wrong_options:
  assumes "list_all item_ok items" "\<not> posixly_correct s" "0 \<le> die_sleep s"
    "\<not> (set (letters items) \<subseteq> set ''jqre'' \<and> length (operands items) = 1)"
  shows "\<exists>t. busybox_single_main fuel (argv0 # map item_word items) s = Some (Halt (Exit (xfunc_error_retval s)) t)
    \<and> erase_calls t = erase_calls s \<and> markers t = markers s"
proof -
  let ?argv = "argv0 # map item_word items"
  define s0 where "s0 = s\<lparr>applet_name := ''flash_eraseall'', opt_complementary := Some ''=1''\<rparr>"
  have s0: "opt_complementary s0 = Some ''=1''" "\<not> posixly_correct s0" "0 \<le> die_sleep s0" using assms by (simp_all add: s0_def)
  have "\<not> (set (letters items) \<subseteq> set ''jqre'' \<and> int (length (operands items)) = c_digit (CHR ''1''))"
    using assms(4) by (simp add: one_digit)
  with getopt32_plain [OF jqre_plain assms(1) s0(1) one_digit(1) s0(2,3), of argv0 "[]"]
  have g: "getopt32 ?argv ''jqre'' [] s0 = Halt (Exit (xfunc_error_retval s0)) (s0\<lparr>optind := Suc (length (option_words items))\<rparr>)"
    by (simp only: if_False)
  then show ?thesis by (simp add: busybox_single_main_def flash_eraseall_main_def lbb_prepare_def s0_def)
qed

lemma msg_only_device: "msg_only s t \<Longrightarrow> erase_calls t = erase_calls s \<and> markers t = markers s"
  by (auto elim: msg_onlyE)

subsection \<open>Properties\<close>

text \<open>
  C25. Erasing a partition from the command line ends, and the erase calls it makes are exactly one for each good
  block, from the first to the last, each over the whole block and over nothing else, however the options and the device
  are placed; with the format option exactly these blocks get a clean marker, and with the option for no erasing there
  is no erase call. What the driver answers to these calls the program does not look at.
\<close>

theorem eraseall_erases_good_blocks:
  assumes "list_all item_ok items" "set (letters items) \<subseteq> set ''jqre''" "operands items = [name]"
    "\<not> posixly_correct s" "0 \<le> die_sleep s"
    "is_chr s = Some True" "open_ret s = Inr fd" "is_mtd s" "0 < unat (erasesize s)"
    "unat (mtd_size s) = n * unat (erasesize s)" "0 < n" "n < fuel"
    "\<forall>b\<in>set (blocks_from 0 n s). badblock s b = Good \<or> badblock s b = Bad"
    "CHR ''j'' \<in> set (letters items) \<and> is_nand s \<longrightarrow> (\<exists>l. oobavail s = Some l \<and> unat l \<le> 432)"
  shows "\<exists>t. busybox_single_main fuel (argv0 # map item_word items) s = Some (Ret 0 t)
    \<and> erase_calls t = erase_calls s @ (if CHR ''e'' \<in> set (letters items) then [] else whole s (good_blocks 0 n s))
    \<and> map fst (markers t) = map fst (markers s) @ (if CHR ''j'' \<in> set (letters items) then good_blocks 0 n s else [])"
proof -
  from eraseall_options [OF assms(1,4,5,2,3)] obtain f where
    f: "busybox_single_main fuel (argv0 # map item_word items) s = erase_device fuel (BBTEST OR f) name (after_options items f s)"
    "flag f OPTION_J \<longleftrightarrow> CHR ''j'' \<in> set (letters items)" "flag f OPTION_E \<longleftrightarrow> CHR ''e'' \<in> set (letters items)" "\<not> flag f IS_NAND"
    by blast
  let ?s = "after_options items f s"
  have b: "blocks_from 0 n ?s = blocks_from 0 n s" "good_blocks 0 n ?s = good_blocks 0 n s"
    by (simp_all add: blocks_from_def good_blocks_def)
  have e: "erase_calls ?s = erase_calls s" "markers ?s = markers s" "erasesize ?s = erasesize s" by simp_all
  have "\<exists>t. erase_device fuel (BBTEST OR f) name ?s = Some (Ret 0 t)
    \<and> erase_calls t = erase_calls ?s @ (if flag f OPTION_E then [] else whole ?s (good_blocks 0 n ?s))
    \<and> map fst (markers t) = map fst (markers ?s) @ (if flag f OPTION_J then good_blocks 0 n ?s else [])"
    by (rule erase_device_done [where fd = fd]) (use assms(6-14) f(2-4) in \<open>simp_all add: b\<close>)
  then show ?thesis unfolding f(1) f(2,3) b e .
qed

definition sample_mtd :: mtd where
  "sample_mtd = \<lparr>applet_name = ''flash_eraseall'', logmode = LOGMODE_STDIO, msg_eol = [CHR 0x0A], errno = 0,
     strerror = (\<lambda>_. ''No such device''), xfunc_error_retval = 1, die_sleep = 0, wr = (\<lambda>_. []), sent = (\<lambda>_. []), rd = (\<lambda>_. []), mem = [],
     opt_complementary = None, posixly_correct = False, optind = 0, sinks = [], option_mask32 = 0,
     is_chr = Some True, open_ret = Inr 3, is_mtd = True, is_nand = True, mtd_size = 0x60000, erasesize = 0x20000, oobavail = Some 16,
     badblock = (\<lambda>b. if b = 0x20000 then Bad else Good), spare_words = (\<lambda>_. [0, 0, 0, 0]), erase_calls = [], markers = [], e_out = []\<rparr>"

theorem eraseall_erases_good_blocks_witness:
  "\<exists>t. busybox_single_main 4 [''flash_eraseall'', ''/dev/mtd3'', ''-jq''] sample_mtd = Some (Ret 0 t) \<and> erase_calls t = [(0, 0x20000), (0x40000, 0x20000)]
    \<and> map fst (markers t) = [0, 0x40000]"
proof -
  have b: "blocks_from 0 3 sample_mtd = [0, 0x20000, 0x40000]"
    by (simp add: blocks_from_def sample_mtd_def upt_conv_Cons numeral_3_eq_3)
  have "good_blocks 0 3 sample_mtd = [0, 0x40000]" unfolding good_blocks_def b by (simp add: sample_mtd_def)
  with eraseall_erases_good_blocks [of "[Operand ''/dev/mtd3'', Opts ''jq'']" "''/dev/mtd3''" sample_mtd 3 3 4 "''flash_eraseall''"] b
  show ?thesis by (simp add: sample_mtd_def is_operand_def char_at_def)
qed

text \<open>
  C26. A wrong command line, a name that is no character device and a device that cannot be
  opened end the program with its error status before anything is erased or written.
\<close>

theorem eraseall_error_erases_nothing:
  assumes "list_all item_ok items" "\<not> posixly_correct s" "0 \<le> die_sleep s"
    "\<not> set (letters items) \<subseteq> set ''jqre'' \<or> length (operands items) \<noteq> 1 \<or> is_chr s = Some False
     \<or> is_chr s = Some True \<and> open_ret s = Inl e"
  shows "\<exists>t. busybox_single_main fuel (argv0 # map item_word items) s = Some (Halt (Exit (xfunc_error_retval s)) t)
    \<and> erase_calls t = erase_calls s \<and> markers t = markers s"
proof (cases "set (letters items) \<subseteq> set ''jqre'' \<and> length (operands items) = 1")
  case False
  with eraseall_wrong_options [OF assms(1-3)] show ?thesis by blast
next
  case True
  then obtain name where name: "operands items = [name]" by (auto simp: length_Suc_conv)
  with eraseall_options [OF assms(1-3)] True obtain f where
    f: "busybox_single_main fuel (argv0 # map item_word items) s = erase_device fuel (BBTEST OR f) name (after_options items f s)" by blast
  let ?s = "after_options items f s"
  have d: "0 \<le> die_sleep (?s\<lparr>errno := e\<rparr>)" "0 \<le> die_sleep ?s" using assms(3) by simp_all
  obtain t where t: "bb_error_msg_and_die ''%s: not a char device'' (name @ '': not a char device'') ?s = (Halt (Exit (xfunc_error_retval s)) t :: (int, _) run)"
    "msg_only ?s t"
    using bb_error_msg_and_die_spec [OF d(2), of "''%s: not a char device''" "name @ '': not a char device''"] by auto
  obtain u where u: "bb_perror_msg_and_die (cant_open ''%s'') (cant_open name) (?s\<lparr>errno := e\<rparr>) = (Halt (Exit (xfunc_error_retval s)) u :: (int, _) run)"
    "msg_only (?s\<lparr>errno := e\<rparr>) u"
    using bb_perror_msg_and_die_spec [OF d(1), of "cant_open ''%s''" "cant_open name"] by auto
  from msg_only_device [OF t(2)] msg_only_device [OF u(2)] t(1) u(1) True assms(4) show ?thesis
    unfolding f by (auto simp: erase_device_def xopen_def xopen3_def)
qed

theorem eraseall_error_erases_nothing_witness:
  "\<exists>t. busybox_single_main 4 [''flash_eraseall'', ''-x'', ''/dev/mtd3''] sample_mtd = Some (Halt (Exit 1) t) \<and> erase_calls t = []"
  using eraseall_error_erases_nothing [of "[Opts ''x'', Operand ''/dev/mtd3'']" sample_mtd 0 4 "''flash_eraseall''"]
  by (auto simp: sample_mtd_def is_operand_def char_at_def)

text \<open>
  On a device whose driver keeps no table of bad blocks, NOR flash for example, the program
  gives up at the first block although it means to go on: clearing one option sets all
  others, the one for NAND flash included. Nothing is erased.
\<close>

theorem eraseall_gives_up_on_nor:
  assumes "is_chr s = Some True" "open_ret s = Inr fd" "is_mtd s" "\<not> is_nand s" "mtd_size s \<noteq> 0" "badblock s 0 = Not_supported"
    "0 \<le> die_sleep s" "\<not> flag opts IS_NAND"
  shows "\<exists>t. erase_device (Suc fuel) (BBTEST OR opts) name s = Some (Halt (Exit (xfunc_error_retval s)) t) \<and> erase_calls t = erase_calls s"
proof -
  let ?s = "(put ([CHR 0x0A] @ ''flash_eraseall: '' @ name) s)\<lparr>errno := EOPNOTSUPP\<rparr>"
  have "0 \<le> die_sleep ?s" using assms(7) by simp
  then obtain t where t: "bb_error_msg_and_die ''bad block check not available'' ''bad block check not available'' ?s
      = (Halt (Exit (xfunc_error_retval s)) t :: (bool \<times> u32, _) run)" "msg_only ?s t"
    using bb_error_msg_and_die_spec [of ?s "''bad block check not available''" "''bad block check not available''"] by auto
  have "0 < mtd_size s" using assms(5) by (simp add: word_gt_0)
  with assms t(1) msg_only_device [OF t(2)] show ?thesis
    by (simp add: erase_device_def xopen_def xopen3_def marker_length_def erase_block_def bad_block_test_def Let_def)
qed

theorem eraseall_gives_up_on_nor_witness:
  "\<exists>t. erase_device 1 (BBTEST OR 0) ''/dev/mtd0'' (sample_mtd\<lparr>is_nand := False, badblock := (\<lambda>_. Not_supported)\<rparr>)
      = Some (Halt (Exit 1) t) \<and> erase_calls t = []"
  using eraseall_gives_up_on_nor [of "sample_mtd\<lparr>is_nand := False, badblock := (\<lambda>_. Not_supported)\<rparr>" 3 0 0 "''/dev/mtd0''"]
  by (simp add: sample_mtd_def flag_def option_defs)

text \<open>
  The name of a file that does not exist is not refused: the mode is tested although \<^verbatim>\<open>stat\<close>
  failed and never wrote it.
\<close>

theorem eraseall_missing_file:
  "\<exists>t. flash_eraseall_main 1 [''flash_eraseall'', ''/dev/none''] (sample_mtd\<lparr>is_chr := None\<rparr>) = Some (Halt (Crash Uninit_read) t)"
proof -
  let ?s = "sample_mtd\<lparr>is_chr := None, opt_complementary := Some ''=1''\<rparr>"
  have i: "list_all item_ok [Operand ''/dev/none'']" "opt_complementary ?s = Some ''=1''" "\<not> posixly_correct ?s" "0 \<le> die_sleep ?s"
    by (simp_all add: sample_mtd_def is_operand_def char_at_def)
  from getopt32_plain [OF jqre_plain i(1,2) one_digit(1) i(3,4), of "''flash_eraseall''" "[]"] obtain f t where
    "getopt32 [''flash_eraseall'', ''/dev/none''] ''jqre'' [] ?s = Ret (f, [''flash_eraseall'', ''/dev/none'']) (?s\<lparr>optind := 1, option_mask32 := f\<rparr>)"
    by (auto simp: one_digit)
  then show ?thesis by (simp add: flash_eraseall_main_def erase_device_def sample_mtd_def)
qed

text \<open>
  The two checksum implementations of the firmware agree: the little-endian table of the
  busybox library is the table the NVRAM code computes.
\<close>

theorem filltable_is_nvram_table: "crc32_filltable False = crcTable"
  by (simp add: crc32_filltable_def crcTable_def table_bits_little del: funpow.simps)

end
