(* ===== verification/Spec2Isabelle.thy ===== *)
theory Spec2Isabelle
  imports Nvram_Concurrency Page_Show Nvram_Util Adblock_Httpd Connect_Host_Port Send_Arp
    Busybox_Read Busybox_Xfuncs Flash_Eraseall
begin

text \<open>
  Verification of the programs this repository adds to the DGND3700v2 firmware.

  The router keeps its settings in an NVRAM store: a file of name/value entries under
  /tmp, loaded from and committed to a flash partition. \<^verbatim>\<open>nvram-lib\<close> is the access to it,
  \<^verbatim>\<open>nvram-util\<close> its command line tool. \<^verbatim>\<open>page-server\<close> is a wrapper around the vendor's CGI
  program: it reads a request, saves or deletes settings as a page description says,
  renders the next page, or hands the request over; it works on a cache of NVRAM variables
  (\<^verbatim>\<open>nvram_cache.c\<close>) and on arrays of variable/value pairs (\<^verbatim>\<open>var_val_pair.c\<close>). Beside them stand
  a small web server for blocked advertisements, a tool that announces an address by ARP, a
  corrected file of miniupnpc, and the program that erases a flash partition.

  \<^bold>\<open>How the code is modelled.\<close> A C string is the list of its characters, a pointer that may be
  NULL an option, a buffer a list of bytes. Structures are records, handlers are functions
  on an explicit state. A statement that leaves the language (a NULL pointer, an access
  outside an object, use after free, a \<^verbatim>\<open>free\<close> of foreign memory, a division by zero, an
  overflow of a signed integer) ends
  the function with a \<open>Fault\<close> or, with state, a \<open>Halt (Crash _)\<close>; \<^verbatim>\<open>exit\<close> is \<open>Halt (Exit _)\<close>, a
  \<^verbatim>\<open>longjmp\<close> out of a function \<open>Halt (Jump _)\<close>.
  Sizes of allocations are part of the model where the code can overrun them. Integers are
  words of 32 bits where they wrap or are used bitwise. The processor is a big-endian MIPS
  with signed \<^verbatim>\<open>char\<close>.

  \<^item> \<open>Prelude\<close>: outcomes, the combinators \<open>rbind\<close> and \<open>sbind\<close>, the string functions of the C
    library (\<^verbatim>\<open>strchr\<close>, \<^verbatim>\<open>atoi\<close>, \<^verbatim>\<open>fgets\<close>, printing of numbers).
  \<^item> \<open>Key_Value\<close>: the interfaces \<open>kv_store\<close>, \<open>kv_store_del\<close> and \<open>growable\<close> as locales; their
    interpretations are \<open>nvs\<close> (store entries), \<open>vvpa_kv\<close> and \<open>vvpa\<close>, \<open>vvppa\<close> (arrays of pairs)
    and \<open>nvc\<close> (the cache). The interface \<open>collector\<close> of lists that grow at the end stands in
    \<open>Busybox_List\<close>, with the interpretation \<open>bbl\<close> that \<open>list_option_collects\<close> rests on.
  \<^item> \<open>Nvram_Lock\<close>, \<open>Nvram_Store\<close>, \<open>Nvram_Flash\<close>, \<open>Nvram_Concurrency\<close>: \<^verbatim>\<open>nvram_lock.c\<close>, \<^verbatim>\<open>nvram.c\<close>
    and \<^verbatim>\<open>nvram.h\<close>. The record \<open>nvram\<close> holds the files, what the system lets the process do
    with them, and the list of handed-out values. Shown: the store refines a map, set and
    get are inverse, the table-driven CRC is the bitwise one, a commit is what a later load
    brings back, one damaged byte is always found, and no update of concurrent processes is
    lost as long as the lock file can be opened. The steps of \<open>nv_step\<close> run \<open>nvram_lock\<close>,
    \<open>nvram_set_func_unlock\<close> and \<open>nvram_unlock\<close> of the library for each process; the one thing taken
    from the system is what \<^verbatim>\<open>lockf\<close> documents (\<open>lockf_grants\<close>: a descriptor of a locked file is not
    granted the lock of another process). That two processes are never between lock and unlock
    is then an invariant over the code of the lock functions, not a guard of the steps.
  \<^item> \<open>Var_Val_Pair\<close>, \<open>Parse_Vars\<close>: \<^verbatim>\<open>var_val_pair.c\<close>. Shown: arrays of pairs refine a map and
    are never overrun, an encoded query string is parsed back, the environment for scripts
    is filled exactly.
  \<^item> \<open>Nvram_Cache\<close>, \<open>Cache_Sync\<close>: \<^verbatim>\<open>nvram_cache.c\<close>. Shown: the invariant of entries and cache,
    reading back written cells, the round trip of array texts, their bounds, that a variable
    has the type it was required with or the program crashes, and that writing back stores
    exactly the changes. The growth of an array computes its sizes in 32 bits as the code does
    and asks for its memory (\<open>grow_rows\<close>, \<open>grow_columns\<close>); \<open>array_fits\<close> is exactly the condition under which
    a cell can be written, and \<open>row_size_wraps\<close> shows a row number for which the size wraps.
  \<^item> \<open>Page_Core\<close>, \<open>Page_Vars\<close>, \<open>Page_Save\<close>, \<open>Page_Render\<close>, \<open>Page_Main\<close>: \<^verbatim>\<open>page-server.c\<close> in the
    order of its parts. The record \<open>page\<close> extends the cache's state with the request, the
    output and the globals; what other programs do is the field \<open>prog\<close>. Shown: the POST
    body, the query string that is passed on, page descriptions, that a deleted row
    is gone from the store (\<open>deleted_row_is_gone\<close>), edits of parts of IP ranges, rendering, and
    the way of a whole request through \<open>main\<close>.
  \<^item> \<open>Page_Form\<close> composes them: a form of text fields reaches the store from the lines of its
    description and the submitted values (\<open>described_form_is_saved\<close>). \<open>Page_Show\<close> goes the other
    way: a described page is answered with the stored values (\<open>described_page_served\<close>), so that a
    later process shows what a form saved (\<open>saved_form_is_shown\<close>).
  \<^item> \<open>Nvram_Util\<close>, \<open>Adblock_Httpd\<close>, \<open>Connect_Host_Port\<close>, \<open>Send_Arp\<close>: the small programs. What the
    network and the interfaces answer is input. Shown are the round trip of tables, the end
    of an HTTP header, that the server gets to its next connection exactly when a client stops
    sending (\<open>request_ends_iff_client_stops\<close>), that sockets do not leak, and what the ARP packet
    announces: four bytes of memory at the device's address taken as a pointer, where there is
    any (\<open>arp_announces_memory\<close>).
  \<^item> \<open>Busybox_Lib\<close>, \<open>Busybox_Read\<close>, \<open>Busybox_List\<close>, \<open>Getopt32\<close>: the part of the busybox library that
    is linked into \<^verbatim>\<open>flash_eraseall\<close>, the one program the vendored tree is configured for. The
    record \<open>bb\<close> holds the globals, what \<^verbatim>\<open>read\<close> and \<^verbatim>\<open>write\<close> answer, and in \<open>mem\<close> which of the next
    allocations for messages fail; \<open>opts_state\<close> extends it with
    what \<^verbatim>\<open>getopt32\<close> uses. Shown: error messages, with and without memory to format them, writing, copying and reading lines and files
    exactly, numbers, lists in memory, and that the options of a command line are the flags
    wherever they stand.
  \<^item> \<open>Busybox_Xfuncs\<close>: the wrappers of \<^verbatim>\<open>xfuncs_printf.c\<close>. The wrapped system and library calls are
    parameters. The locale \<open>die_on_failure\<close> is their contract, with an interpretation for each
    wrapper; from it follow that a wrapper returns exactly when its call succeeded
    (\<open>returned_means_succeeded\<close>) and how the program ends otherwise
    (\<open>failed_call_ends_program\<close>); copies of strings stay in their memory (\<open>xstrndup_copies\<close>).
  \<^item> \<open>Flash_Eraseall\<close>: \<^verbatim>\<open>flash_eraseall.c\<close> with the \<^verbatim>\<open>main\<close> of a single program, from the command
    line to the device. Shown: the erase calls are one for each good block and over exactly that
    block, and a wrong call erases nothing. The program ignores what the erase calls answer.

  \<^bold>\<open>Fuel and bounds.\<close> Loops are structural or have a termination proof. The loops over the
  blocks of a flash device take fuel, since a block size of zero makes them run for ever;
  one turn more than the device has blocks is enough (\<open>erase_loop_done\<close>). The header loop of
  the web server and the loop that waits for a connection run over the answers of the
  system; \<open>None\<close> means that the input given did not end them. The loop that drains a connection
  (\<open>drain\<close>) is a partial function over an endless sequence of answers, \<open>None\<close> exactly where no
  read ends it. The loops over linked lists are
  partial functions, \<open>None\<close> where a list is circular; on lists they are shown to end.

  \<^bold>\<open>Errors found.\<close> Where the code leaves the language the development states it as a
  theorem of its own, for instance \<open>array_growth_overruns\<close>, \<open>ip_edit_overruns\<close>,
  \<open>row_size_wraps\<close> or \<open>session_id_from_request\<close>, or as the other case of a total statement
  (\<open>array_cell_write_read\<close>, \<open>required_variable_has_type\<close>, \<open>arp_announces_memory\<close>); the other positive
  theorems carry the condition under which this does not happen.

  \<^bold>\<open>Not modelled.\<close> Log messages; the memory a \<^verbatim>\<open>free\<close> gives back (dangling pointers are
  modelled where they are used); failing allocations of small strings in the page server and of the
  cache's own tables (those of array cells are modelled);
  what the C library prints about a wrong option; the applets and library files of the
  vendored busybox tree that are not linked into \<^verbatim>\<open>flash_eraseall\<close>; scripts, web pages and
  Makefiles.
\<close>

section \<open>Properties that span components\<close>

text \<open>
  C5. What the page server saves survives a restart: after the cache has been written back,
  a later start that finds the same flash contents loads the store, and every variable reads
  as it was saved, or as before when it was not changed.
\<close>

theorem saved_settings_survive_reboot:
  assumes "nv_ready es ds s" "nc s = Some c" "cached s" "can_write s NVRAM_PATH" "flash_put s = id" "nv_okk name"
    "\<forall>e\<in>set (nc_list c). ce_changed e \<longrightarrow> savable e"
  shows "\<exists>t data. sync_nvram_cache_back_to_nvram s = Ret () t \<and> files t NVRAM_TMP_PATH = Some data \<and>
    (\<forall>u. length data < 2 ^ 31 \<and> files u NVRAM_PATH = files t NVRAM_PATH \<and> can_read u NVRAM_PATH
         \<and> env_ok NVRAM_TMP_PATH u \<and> env_ok NVRAM_DEFAULT u \<and> stores NVRAM_DEFAULT ds u \<longrightarrow>
      (\<exists>v w. nvram_load u = Ret NVRAM_SUCCESS v \<and> nvram_get name v =
        Ret (case map_of (rev (pending (nc_list c))) name of
               Some x \<Rightarrow> hide_deleted x | None \<Rightarrow> get_spec es ds name) w))"
proof -
  let ?es = "nvs.updates (pending (nc_list c)) es"
  have inv: "nc_inv c" using assms(2,3) by (simp add: cached_def cache_of_def cache_ok_def)
  have sv: "\<And>e. e \<in> set (nc_list c) \<Longrightarrow> ce_changed e \<Longrightarrow> savable e" using assms(7) by blast
  from sync_back_spec [OF assms(1,2) inv sv assms(4)] obtain m t data where
    t: "sync_nvram_cache_back_to_nvram s = Ret () t" "same_env s m" "nv_ready ?es ds m"
      "files m NVRAM_TMP_PATH = Some data" "files t NVRAM_PATH = Some (commit_image m data)" "files t NVRAM_TMP_PATH = Some data"
    by metis
  have put: "flash_put m = id" using t(2) assms(5) by (elim same_envE) simp
  obtain rest where data: "data = nv_image ?es @ rest" "wf_entries ?es"
    using t(3,4) by (auto simp: nv_ready_def stores_def prefix_def)
  then have pos: "0 < length data" by (simp add: nv_image_def)
  from commit_image_split [OF put] obtain gap tail where
    im: "commit_image m data = header_bytes
      \<lparr>h_magic = NVRAM_MAGIC, h_len = word_of_nat (length data), h_crc = crc32 data\<rparr> (header_junk m)
      @ gap @ data @ tail" "length gap = 24" by metis
  have "\<exists>v w. nvram_load u = Ret NVRAM_SUCCESS v \<and> nvram_get name v = Ret (get_spec ?es ds name) w"
    if u: "length data < 2 ^ 31" "files u NVRAM_PATH = files t NVRAM_PATH" "can_read u NVRAM_PATH"
      "env_ok NVRAM_TMP_PATH u" "env_ok NVRAM_DEFAULT u" "stores NVRAM_DEFAULT ds u" for u :: "'b nvram_scheme"
  proof -
    have al: "can_alloc u = (\<lambda>_. True)" using u(4) by (simp add: env_ok_def)
    from load_eq [OF _ im(2) _ _ u(3) al pos u(1)] u(2) t(5) im(1) obtain h where
      ld: "nvram_load u = Ret NVRAM_SUCCESS ((writeFileBin_unlock NVRAM_TMP_PATH data u)\<lparr>held := h\<rparr>)"
      by fastforce
    let ?v = "(writeFileBin_unlock NVRAM_TMP_PATH data u)\<lparr>held := h\<rparr>"
    have "nv_ready ?es ds ?v"
      using u(4-6) data by (simp add: nv_ready_def env_ok_def stores_def writeFileBin_unlock_def)
    from nvram_get_spec [OF this assms(6)] ld show ?thesis by metis
  qed
  with t(1,6) get_spec_pending [OF assms(1,7,6)] show ?thesis by (intro exI [of _ t] exI [of _ data]) auto
qed

theorem saved_settings_survive_reboot_witness:
  "\<exists>t data. sync_nvram_cache_back_to_nvram sample_changed = Ret () t \<and> files t NVRAM_TMP_PATH = Some data \<and>
    (\<forall>u :: nvram. length data < 2 ^ 31 \<and> files u NVRAM_PATH = files t NVRAM_PATH \<and> can_read u NVRAM_PATH
         \<and> env_ok NVRAM_TMP_PATH u \<and> env_ok NVRAM_DEFAULT u \<and> stores NVRAM_DEFAULT [''adblock_enable=0''] u \<longrightarrow>
      (\<exists>v w. nvram_load u = Ret NVRAM_SUCCESS v \<and> nvram_get ''hosts'' v = Ret (Some hosts_text) w))"
proof -
  obtain c where c: "nc sample_changed = Some c" "\<forall>e\<in>set (nc_list c). ce_changed e \<longrightarrow> savable e"
    "pending (nc_list c) = [(''hosts'', hosts_text)]" using sample_changed_pending by blast
  have "flash_put sample_changed = id"
    by (simp add: sample_changed_def put_entry_def sample_cached_def nvram.extend_def sample_nvram_def)
  from saved_settings_survive_reboot [OF sample_changed_facts(4) c(1) sample_changed_facts(2,3) this _ c(2), of "''hosts''"]
  show ?thesis by (simp add: c(3) nv_okk_def hide_deleted_def is_deleted_def strneq_def)
qed

end
